(* ===== verification/Prelude.thy ===== *)
theory Prelude
  imports Main "HOL-Library.Word"
begin

text \<open>
  Shared vocabulary of the development: machine words, results, byte encodings and the
  generic list lemmas that every component uses.

  A Rust \<open>Result<T, E>\<close> is \<open>'e + 'a\<close> with \<open>Inl\<close> for \<open>Err\<close>; the operator \<open>?\<close> is
  \<open>and_then\<close>, \<open>map_err\<close> and \<open>ok_or\<close> keep their names, and a loop that collects
  results (or stops at the first error) is \<open>collect_res\<close>. Fixed-width integers are
  words, lengths and indices (\<open>usize\<close>) are \<open>nat\<close>.
\<close>

unbundle bit_operations_syntax

named_theorems res_simps
named_theorems codec
named_theorems lens

type_synonym byte = "8 word"
type_synonym u32 = "32 word"
type_synonym u64 = "64 word"
type_synonym bytes = "byte list"

subsection \<open>Casts\<close>

text \<open>\<open>n as u8\<close> on an unsigned value keeps the low eight bits.\<close>

definition as_u8 :: "nat \<Rightarrow> byte" where
  "as_u8 n = word_of_nat n"

lemma unat_as_u8: "unat (as_u8 n) = n mod 256"
  by (simp add: as_u8_def unat_of_nat)

lemma unat_as_u8_small [simp]: "n < 256 \<Longrightarrow> unat (as_u8 n) = n"
  by (simp add: unat_as_u8)

lemma unat_byte_less [simp]: "unat (b :: byte) < 256"
proof -
  have "unat b < 2 ^ LENGTH(8)" by (rule unsigned_less)
  then show ?thesis by simp
qed

lemma as_u8_unat [simp]: "as_u8 (unat b) = b"
  by (simp add: as_u8_def)

lemma as_u8_eq_iff: "m < 256 \<Longrightarrow> n < 256 \<Longrightarrow> as_u8 m = as_u8 n \<longleftrightarrow> m = n"
  by (metis unat_as_u8_small)

lemma as_u8_numeral: "as_u8 0 = 0" "as_u8 1 = 1" "as_u8 (numeral k) = numeral k"
  by (simp_all add: as_u8_def)

subsection \<open>Results\<close>

definition and_then :: "'e + 'a \<Rightarrow> ('a \<Rightarrow> 'e + 'b) \<Rightarrow> 'e + 'b" where
  "and_then r f = (case r of Inl e \<Rightarrow> Inl e | Inr x \<Rightarrow> f x)"

definition map_err :: "('e \<Rightarrow> 'f) \<Rightarrow> 'e + 'a \<Rightarrow> 'f + 'a" where
  "map_err f r = (case r of Inl e \<Rightarrow> Inl (f e) | Inr x \<Rightarrow> Inr x)"

definition map_ok :: "('a \<Rightarrow> 'b) \<Rightarrow> 'e + 'a \<Rightarrow> 'e + 'b" where
  "map_ok f r = (case r of Inl e \<Rightarrow> Inl e | Inr x \<Rightarrow> Inr (f x))"

definition ok_or :: "'e \<Rightarrow> 'a option \<Rightarrow> 'e + 'a" where
  "ok_or e x = (case x of None \<Rightarrow> Inl e | Some y \<Rightarrow> Inr y)"

definition res_ok :: "'e + 'a \<Rightarrow> 'a option" where
  "res_ok r = (case r of Inl _ \<Rightarrow> None | Inr x \<Rightarrow> Some x)"

definition guard_res :: "bool \<Rightarrow> 'e \<Rightarrow> 'e + unit" where
  "guard_res b e = (if b then Inr () else Inl e)"

fun collect_res :: "('a \<Rightarrow> 'e + 'b) \<Rightarrow> 'a list \<Rightarrow> 'e + 'b list" where
  "collect_res f [] = Inr []"
| "collect_res f (x # xs) =
     and_then (f x) (\<lambda>y. and_then (collect_res f xs) (\<lambda>ys. Inr (y # ys)))"

definition is_ok :: "'e + 'a \<Rightarrow> bool" where
  "is_ok r = (case r of Inl _ \<Rightarrow> False | Inr _ \<Rightarrow> True)"

lemma and_then_simps [simp]:
  "and_then (Inl e) f = Inl e"
  "and_then (Inr x) f = f x"
  by (simp_all add: and_then_def)

lemma map_err_simps [simp]:
  "map_err g (Inl e) = Inl (g e)"
  "map_err g (Inr x) = Inr x"
  by (simp_all add: map_err_def)

lemma map_ok_simps [simp]:
  "map_ok g (Inl e) = Inl e"
  "map_ok g (Inr x) = Inr (g x)"
  by (simp_all add: map_ok_def)

lemma ok_or_simps [simp]:
  "ok_or e None = Inl e"
  "ok_or e (Some x) = Inr x"
  by (simp_all add: ok_or_def)

lemma res_ok_simps [simp]:
  "res_ok (Inl e) = None"
  "res_ok (Inr x) = Some x"
  by (simp_all add: res_ok_def)

lemma guard_res_simps [simp]:
  "guard_res True e = Inr ()"
  "guard_res False e = Inl e"
  by (simp_all add: guard_res_def)

lemma is_ok_simps [simp]:
  "\<not> is_ok (Inl e)"
  "is_ok (Inr x)"
  by (simp_all add: is_ok_def)

lemma is_ok_iff: "is_ok r \<longleftrightarrow> (\<exists>x. r = Inr x)"
  by (cases r) auto

lemma and_then_Inr_iff [res_simps]:
  "and_then r f = Inr y \<longleftrightarrow> (\<exists>x. r = Inr x \<and> f x = Inr y)"
  by (cases r) auto

lemma and_then_Inl_iff:
  "and_then r f = Inl e \<longleftrightarrow> r = Inl e \<or> (\<exists>x. r = Inr x \<and> f x = Inl e)"
  by (cases r) auto

lemma map_err_Inr_iff [res_simps]: "map_err g r = Inr y \<longleftrightarrow> r = Inr y"
  by (cases r) auto

lemma map_ok_Inr_iff [res_simps]: "map_ok g r = Inr y \<longleftrightarrow> (\<exists>x. r = Inr x \<and> y = g x)"
  by (cases r) auto

lemma ok_or_Inr_iff [res_simps]: "ok_or e x = Inr y \<longleftrightarrow> x = Some y"
  by (cases x) auto

lemma guard_res_Inr_iff [res_simps]: "guard_res b e = Inr u \<longleftrightarrow> b"
  by (cases b) auto

text \<open>What a successful collecting loop returns, in order and one result per item.\<close>

lemma collect_res_Inr_iff:
  "collect_res f xs = Inr ys \<longleftrightarrow> list_all2 (\<lambda>x y. f x = Inr y) xs ys"
  by (induction xs arbitrary: ys)
     (auto simp: res_simps list_all2_Cons1)

lemma collect_res_length: "collect_res f xs = Inr ys \<Longrightarrow> length ys = length xs"
  by (auto simp: collect_res_Inr_iff dest: list_all2_lengthD)

lemma collect_res_nth:
  "collect_res f xs = Inr ys \<Longrightarrow> i < length xs \<Longrightarrow> f (xs ! i) = Inr (ys ! i)"
  by (auto simp: collect_res_Inr_iff dest: list_all2_nthD)

lemma collect_res_map_Inr:
  "(\<And>x. x \<in> set xs \<Longrightarrow> f x = Inr (g x)) \<Longrightarrow> collect_res f xs = Inr (map g xs)"
  by (induction xs) auto

lemma collect_res_map: "collect_res f (map g xs) = collect_res (f \<circ> g) xs"
  by (induction xs) auto

subsection \<open>Little- and big-endian encodings of words\<close>

text \<open>
  \<open>to_le n w\<close> is \<open>w.to_le_bytes()\<close> for an \<open>n\<close>-byte integer, \<open>from_le\<close> its inverse;
  \<open>to_be\<close> is \<open>w.to_be_bytes()\<close>.
\<close>

fun to_le :: "nat \<Rightarrow> 'a::len word \<Rightarrow> bytes" where
  "to_le 0 w = []"
| "to_le (Suc n) w = ucast w # to_le n (drop_bit 8 w)"

fun from_le :: "bytes \<Rightarrow> 'a::len word" where
  "from_le [] = 0"
| "from_le (b # bs) = ucast b OR push_bit 8 (from_le bs)"

definition to_be :: "nat \<Rightarrow> 'a::len word \<Rightarrow> bytes" where
  "to_be n w = rev (to_le n w)"

lemma length_to_le [simp, lens]: "length (to_le n w) = n"
  by (induction n arbitrary: w) auto

lemma length_to_be [simp, lens]: "length (to_be n w) = n"
  by (simp add: to_be_def)

lemma bit_from_to_le:
  fixes w :: "'a::len word"
  shows "bit (from_le (to_le n w) :: 'a word) k \<longleftrightarrow> k < 8 * n \<and> bit w k"
proof (induction n arbitrary: w k)
  case 0
  then show ?case by simp
next
  case (Suc n)
  show ?case
  proof (cases "k < 8")
    case True
    then show ?thesis
      by (auto simp: bit_or_iff bit_ucast_iff bit_push_bit_iff dest: bit_imp_le_length)
  next
    case False
    then have k: "k - 8 + 8 = k" by simp
    from False show ?thesis
      by (auto simp: bit_or_iff bit_ucast_iff bit_push_bit_iff Suc.IH bit_drop_bit_eq k
          dest: bit_imp_le_length)
  qed
qed

lemma from_to_le [codec]:
  fixes w :: "'a::len word"
  assumes "LENGTH('a) \<le> 8 * n"
  shows "from_le (to_le n w) = w"
proof (rule bit_word_eqI)
  fix k assume "k < LENGTH('a)"
  with assms show "bit (from_le (to_le n w) :: 'a word) k = bit w k"
    by (simp add: bit_from_to_le)
qed

lemma from_to_le_u32 [simp, codec]: "from_le (to_le 4 (w :: u32)) = w"
  by (rule from_to_le) simp

lemma from_to_le_u64 [simp, codec]: "from_le (to_le 8 (w :: u64)) = w"
  by (rule from_to_le) simp

text \<open>Conversely, four bytes read as a \<open>u32\<close> are written back unchanged.\<close>

lemma to_from_le:
  assumes "8 * length bs \<le> LENGTH('a)"
  shows "to_le (length bs) (from_le bs :: 'a::len word) = bs"
  using assms
proof (induction bs)
  case Nil
  then show ?case by simp
next
  case (Cons b bs)
  let ?w = "from_le bs :: 'a word"
  have L: "8 + 8 * length bs \<le> LENGTH('a)" using Cons.prems by simp
  have hd: "ucast (ucast b OR push_bit 8 ?w :: 'a word) = b"
    using L by (intro bit_word_eqI) (auto simp: bit_ucast_iff bit_or_iff bit_push_bit_iff)
  have small: "\<not> bit ?w k" if "8 * length bs \<le> k" for k
    using that
  proof (induction bs arbitrary: k)
    case Nil
    then show ?case by simp
  next
    case (Cons c cs)
    then show ?case
      by (auto simp: bit_or_iff bit_ucast_iff bit_push_bit_iff dest: bit_imp_le_length)
  qed
  have tl: "drop_bit 8 (ucast b OR push_bit 8 ?w :: 'a word) = ?w"
  proof (rule bit_word_eqI)
    fix k assume "k < LENGTH('a)"
    show "bit (drop_bit 8 (ucast b OR push_bit 8 ?w :: 'a word)) k = bit ?w k"
    proof (cases "k + 8 < LENGTH('a)")
      case True
      then show ?thesis
        by (auto simp: bit_drop_bit_eq bit_or_iff bit_ucast_iff bit_push_bit_iff add.commute
            dest: bit_imp_le_length)
    next
      case False
      with L have "8 * length bs \<le> k" by linarith
      with False show ?thesis
        by (auto simp: bit_drop_bit_eq bit_or_iff bit_ucast_iff bit_push_bit_iff small
            add.commute dest: bit_imp_le_length)
    qed
  qed
  show ?case
    using hd tl Cons.IH L by simp
qed

lemma to_from_le_u32: "length bs = 4 \<Longrightarrow> to_le 4 (from_le bs :: u32) = bs"
  using to_from_le [where 'a = 32, of bs] by simp

lemma to_from_le_u64: "length bs = 8 \<Longrightarrow> to_le 8 (from_le bs :: u64) = bs"
  using to_from_le [where 'a = 64, of bs] by simp

subsection \<open>Lists\<close>

lemma take_drop_append_exact:
  "length xs = n \<Longrightarrow> take n (xs @ ys) = xs"
  "length xs = n \<Longrightarrow> drop n (xs @ ys) = ys"
  by auto

lemma dropWhile_hd_id: "xs \<noteq> [] \<Longrightarrow> \<not> P (hd xs) \<Longrightarrow> dropWhile P xs = xs"
  by (cases xs) auto

lemma list_all_nthD: "list_all P xs \<Longrightarrow> i < length xs \<Longrightarrow> P (xs ! i)"
  by (simp add: list_all_length)

end
