(* ===== verification/Rust_Str.thy ===== *)
theory Rust_Str
  imports Prelude "HOL-Library.List_Lexorder"
begin

unbundle bit_operations_syntax

text \<open>
  Rust's \<open>char\<close> and \<open>str\<close>. A \<open>char\<close> is a Unicode scalar value (a code point outside the
  surrogate range), a \<open>String\<close> is a list of them, and its bytes are the UTF-8 encoding
  \<open>utf8\<close>; \<open>String::from_utf8\<close> is \<open>from_utf8\<close>. The theory also holds the string operations of
  the standard library that the program uses: trimming, prefixes, splitting, ASCII case,
  and the decimal and hexadecimal formats. \<open>lit\<close> turns an ASCII literal into a \<open>String\<close>.
\<close>

subsection \<open>Unicode scalar values\<close>

definition scalar :: "nat \<Rightarrow> bool" where
  "scalar n \<longleftrightarrow> n < 0xD800 \<or> (0xE000 \<le> n \<and> n < 0x110000)"

typedef rchar = "{n. scalar n}"
  morphisms code_point Abs_rchar
  by (rule exI [of _ 0]) (simp add: scalar_def)

setup_lifting type_definition_rchar

lift_definition rchr :: "nat \<Rightarrow> rchar" is "\<lambda>n. if scalar n then n else 0xFFFD"
  by (simp add: scalar_def)

lemma code_point_rchr: "code_point (rchr n) = (if scalar n then n else 0xFFFD)"
  by (rule rchr.rep_eq)

lemma code_point_rchr_ascii [simp]: "n < 128 \<Longrightarrow> code_point (rchr n) = n"
  by (simp add: code_point_rchr scalar_def)

lemma rchr_code_point [simp]: "rchr (code_point c) = c"
  using code_point [of c] by (simp add: code_point_inject [symmetric] code_point_rchr)

lemma scalar_code_point [simp]: "scalar (code_point c)"
  using code_point [of c] by simp

lemma code_point_less: "code_point c < 0x110000"
  using scalar_code_point [of c] by (auto simp: scalar_def)

lemma code_point_eq_iff: "code_point c = code_point d \<longleftrightarrow> c = d"
  by (rule code_point_inject)

lemma rchr_eq_iff: "scalar m \<Longrightarrow> scalar n \<Longrightarrow> rchr m = rchr n \<longleftrightarrow> m = n"
  by (simp flip: code_point_eq_iff add: code_point_rchr)

lemma rchr_eq_ascii [simp]: "m < 128 \<Longrightarrow> n < 128 \<Longrightarrow> rchr m = rchr n \<longleftrightarrow> m = n"
  by (rule rchr_eq_iff) (simp_all add: scalar_def)

text \<open>\<open>char\<close> is compared by code point, so \<open>String\<close> is ordered lexicographically.\<close>

instantiation rchar :: "{equal, linorder}"
begin

definition equal_rchar :: "rchar \<Rightarrow> rchar \<Rightarrow> bool" where
  "equal_rchar c d \<longleftrightarrow> code_point c = code_point d"

definition less_eq_rchar :: "rchar \<Rightarrow> rchar \<Rightarrow> bool" where
  "less_eq_rchar c d \<longleftrightarrow> code_point c \<le> code_point d"

definition less_rchar :: "rchar \<Rightarrow> rchar \<Rightarrow> bool" where
  "less_rchar c d \<longleftrightarrow> code_point c < code_point d"

instance
  by standard (auto simp: equal_rchar_def less_eq_rchar_def less_rchar_def code_point_eq_iff)

end

type_synonym rstr = "rchar list"

definition ascii :: "char \<Rightarrow> rchar" where
  "ascii c = rchr (of_char c)"

definition lit :: "string \<Rightarrow> rstr" where
  "lit s = map ascii s"

lemma lit_simps [simp]:
  "lit [] = []"
  "lit (c # cs) = ascii c # lit cs"
  "length (lit s) = length s"
  by (simp_all add: lit_def)

lemma lit_append: "lit (s @ t) = lit s @ lit t"
  by (simp add: lit_def)

subsection \<open>UTF-8\<close>

text \<open>\<open>char::encode_utf8\<close>, and \<open>str::as_bytes\<close> as its concatenation.\<close>

definition encode_utf8 :: "rchar \<Rightarrow> bytes" where
  "encode_utf8 c =
     (let n = code_point c in
      if n < 0x80 then [as_u8 n]
      else if n < 0x800 then [as_u8 (0xC0 + n div 64), as_u8 (0x80 + n mod 64)]
      else if n < 0x10000 then
        [as_u8 (0xE0 + n div 4096), as_u8 (0x80 + n div 64 mod 64),
         as_u8 (0x80 + n mod 64)]
      else
        [as_u8 (0xF0 + n div 262144), as_u8 (0x80 + n div 4096 mod 64),
         as_u8 (0x80 + n div 64 mod 64), as_u8 (0x80 + n mod 64)])"

definition utf8 :: "rstr \<Rightarrow> bytes" where
  "utf8 s = concat (map encode_utf8 s)"

text \<open>A continuation byte \<open>0b10xx_xxxx\<close>, as the source tests it (\<open>(b & 0xC0) == 0x80\<close>).\<close>

definition is_cont :: "byte \<Rightarrow> bool" where
  "is_cont b \<longleftrightarrow> 0x80 \<le> unat b \<and> unat b < 0xC0"

text \<open>
  The first scalar value of a byte string and what follows it, \<open>None\<close> where the bytes are not
  well-formed UTF-8 (overlong forms, surrogates and values above \<open>0x10FFFF\<close> are rejected).
\<close>

definition decode_char :: "bytes \<Rightarrow> (rchar \<times> bytes) option" where
  "decode_char bs =
     (case bs of
        [] \<Rightarrow> None
      | b0 # r0 \<Rightarrow>
          let x = unat b0 in
          if x < 0x80 then Some (rchr x, r0)
          else if x < 0xC0 then None
          else if x < 0xE0 then
            (case r0 of
               b1 # r1 \<Rightarrow>
                 let n = (x - 0xC0) * 64 + (unat b1 - 0x80) in
                 if is_cont b1 \<and> 0x80 \<le> n then Some (rchr n, r1) else None
             | _ \<Rightarrow> None)
          else if x < 0xF0 then
            (case r0 of
               b1 # b2 # r2 \<Rightarrow>
                 let n = (x - 0xE0) * 4096 + (unat b1 - 0x80) * 64 + (unat b2 - 0x80) in
                 if is_cont b1 \<and> is_cont b2 \<and> 0x800 \<le> n \<and> scalar n then Some (rchr n, r2)
                 else None
             | _ \<Rightarrow> None)
          else if x < 0xF8 then
            (case r0 of
               b1 # b2 # b3 # r3 \<Rightarrow>
                 let n = (x - 0xF0) * 262144 + (unat b1 - 0x80) * 4096
                           + (unat b2 - 0x80) * 64 + (unat b3 - 0x80) in
                 if is_cont b1 \<and> is_cont b2 \<and> is_cont b3 \<and> 0x10000 \<le> n \<and> scalar n
                 then Some (rchr n, r3) else None
             | _ \<Rightarrow> None)
          else None)"

lemma decode_char_shorter: "decode_char bs = Some (c, r) \<Longrightarrow> length r < length bs"
  by (auto simp: decode_char_def Let_def split: list.splits if_splits)

function from_utf8 :: "bytes \<Rightarrow> rstr option" where
  "from_utf8 bs =
     (if bs = [] then Some []
      else case decode_char bs of
             None \<Rightarrow> None
           | Some (c, r) \<Rightarrow> map_option ((#) c) (from_utf8 r))"
  by pat_completeness auto
termination
  by (relation "measure length") (auto dest: decode_char_shorter)

declare from_utf8.simps [simp del]

lemma from_utf8_Nil [simp]: "from_utf8 [] = Some []"
  by (simp add: from_utf8.simps)

lemma split_base64_2: "(n::nat) div 64 * 64 + n mod 64 = n"
  by simp

lemma split_base64_3: "(n::nat) div 4096 * 4096 + n div 64 mod 64 * 64 + n mod 64 = n"
proof -
  have "n div 4096 = n div 64 div 64" by (simp add: div_mult2_eq [symmetric])
  moreover have "n div 64 div 64 * 64 + n div 64 mod 64 = n div 64" by simp
  ultimately show ?thesis using split_base64_2 [of n] by linarith
qed

lemma split_base64_4:
  "(n::nat) div 262144 * 262144 + n div 4096 mod 64 * 4096 + n div 64 mod 64 * 64 + n mod 64 = n"
proof -
  have "n div 262144 = n div 4096 div 64" by (simp add: div_mult2_eq [symmetric])
  moreover have "n div 4096 div 64 * 64 + n div 4096 mod 64 = n div 4096" by simp
  ultimately show ?thesis using split_base64_3 [of n] by linarith
qed

lemma decode_encode_char [codec]: "decode_char (encode_utf8 c @ r) = Some (c, r)"
proof -
  define n where "n = code_point c"
  have sc: "scalar n" and lt: "n < 0x110000"
    by (simp_all add: n_def code_point_less)
  have c: "rchr n = c" by (simp add: n_def)
  consider "n < 0x80" | "0x80 \<le> n" "n < 0x800" | "0x800 \<le> n" "n < 0x10000" | "0x10000 \<le> n"
    by linarith
  then show ?thesis
  proof cases
    case 1
    with c show ?thesis
      by (simp add: encode_utf8_def decode_char_def Let_def flip: n_def)
  next
    case 2
    then have "n div 64 < 32" by linarith
    with 2 c split_base64_2 [of n] show ?thesis
      by (simp add: encode_utf8_def decode_char_def Let_def is_cont_def flip: n_def)
  next
    case 3
    then have "n div 4096 < 16" by linarith
    with 3 c sc split_base64_3 [of n] show ?thesis
      by (simp add: encode_utf8_def decode_char_def Let_def is_cont_def flip: n_def)
  next
    case 4
    with lt have "n div 262144 < 8" by linarith
    with 4 c sc split_base64_4 [of n] show ?thesis
      by (simp add: encode_utf8_def decode_char_def Let_def is_cont_def flip: n_def)
  qed
qed

lemma encode_utf8_not_Nil [simp]: "encode_utf8 c \<noteq> []"
  by (simp add: encode_utf8_def Let_def)

lemma encode_utf8_length: "1 \<le> length (encode_utf8 c)" "length (encode_utf8 c) \<le> 4"
  by (simp_all add: encode_utf8_def Let_def)

lemma utf8_simps [simp]:
  "utf8 [] = []"
  "utf8 (c # s) = encode_utf8 c @ utf8 s"
  "utf8 (s @ t) = utf8 s @ utf8 t"
  by (simp_all add: utf8_def)

lemma utf8_eq_Nil [simp]: "utf8 s = [] \<longleftrightarrow> s = []"
  by (cases s) auto

lemma from_utf8_step: "from_utf8 (encode_utf8 c @ r) = map_option ((#) c) (from_utf8 r)"
  by (subst from_utf8.simps) (simp add: decode_encode_char)

text \<open>A string survives the trip through its bytes, so equal bytes mean equal strings.\<close>

lemma from_utf8_utf8 [simp, codec]: "from_utf8 (utf8 s) = Some s"
  by (induction s) (simp_all add: from_utf8_step)

lemma utf8_inj [simp]: "utf8 s = utf8 t \<longleftrightarrow> s = t"
  by (metis from_utf8_utf8 option.inject)

text \<open>
  \<open>String::from_utf8_lossy\<close>: each maximal ill-formed sequence becomes one replacement character.
  \<open>invalid_len\<close> is how many bytes of an ill-formed sequence are skipped: the lead byte, and the bytes
  after it as long as they could still continue a character.
\<close>

definition second_ok :: "nat \<Rightarrow> nat \<Rightarrow> bool" where
  "second_ok x y \<longleftrightarrow>
     (x = 0xE0 \<and> 0xA0 \<le> y \<and> y \<le> 0xBF) \<or> (0xE1 \<le> x \<and> x \<le> 0xEC \<and> 0x80 \<le> y \<and> y \<le> 0xBF)
     \<or> (x = 0xED \<and> 0x80 \<le> y \<and> y \<le> 0x9F) \<or> (0xEE \<le> x \<and> x \<le> 0xEF \<and> 0x80 \<le> y \<and> y \<le> 0xBF)
     \<or> (x = 0xF0 \<and> 0x90 \<le> y \<and> y \<le> 0xBF) \<or> (0xF1 \<le> x \<and> x \<le> 0xF3 \<and> 0x80 \<le> y \<and> y \<le> 0xBF)
     \<or> (x = 0xF4 \<and> 0x80 \<le> y \<and> y \<le> 0x8F)"

definition invalid_len :: "bytes \<Rightarrow> nat" where
  "invalid_len bs =
     (case bs of
        b0 # b1 # r \<Rightarrow>
          if \<not> second_ok (unat b0) (unat b1) then 1
          else if unat b0 < 0xF0 then 2
          else (case r of b2 # _ \<Rightarrow> if is_cont b2 then 3 else 2 | [] \<Rightarrow> 2)
      | _ \<Rightarrow> 1)"

lemma invalid_len_pos: "0 < invalid_len bs"
  by (simp add: invalid_len_def split: list.splits)

function from_utf8_lossy :: "bytes \<Rightarrow> rstr" where
  "from_utf8_lossy bs =
     (if bs = [] then []
      else case decode_char bs of
             Some (c, r) \<Rightarrow> c # from_utf8_lossy r
           | None \<Rightarrow> rchr 0xFFFD # from_utf8_lossy (drop (invalid_len bs) bs))"
  by pat_completeness auto
termination
  by (relation "measure length") (auto dest: decode_char_shorter simp: invalid_len_pos)

declare from_utf8_lossy.simps [simp del]

lemma from_utf8_lossy_Nil [simp]: "from_utf8_lossy [] = []"
  by (simp add: from_utf8_lossy.simps)

lemma from_utf8_lossy_utf8 [simp, codec]: "from_utf8_lossy (utf8 s) = s"
  by (induction s) (simp_all add: from_utf8_lossy.simps [of "encode_utf8 c @ r" for c r] decode_encode_char)

lemma is_cont_mask: "(b AND 0xC0) = 0x80 \<longleftrightarrow> is_cont b"
proof -
  have "list_all (\<lambda>n. (as_u8 n AND 0xC0 = 0x80) = is_cont (as_u8 n)) [0..<256]"
    by code_simp
  then have "\<forall>n < 256. (as_u8 n AND 0xC0 = 0x80) = is_cont (as_u8 n)"
    by (simp add: list_all_iff)
  then show ?thesis by (metis as_u8_unat unat_byte_less)
qed

subsection \<open>Character classes\<close>

definition is_control :: "rchar \<Rightarrow> bool" where
  "is_control c \<longleftrightarrow> code_point c < 0x20 \<or> (0x7F \<le> code_point c \<and> code_point c < 0xA0)"

text \<open>The Unicode \<open>White_Space\<close> property, which \<open>str::trim\<close> strips.\<close>

definition is_whitespace :: "rchar \<Rightarrow> bool" where
  "is_whitespace c \<longleftrightarrow>
     (let n = code_point c in
      (9 \<le> n \<and> n \<le> 13) \<or> n = 0x20 \<or> n = 0x85 \<or> n = 0xA0 \<or> n = 0x1680
      \<or> (0x2000 \<le> n \<and> n \<le> 0x200A) \<or> n = 0x2028 \<or> n = 0x2029 \<or> n = 0x202F
      \<or> n = 0x205F \<or> n = 0x3000)"

definition is_ascii_digit :: "rchar \<Rightarrow> bool" where
  "is_ascii_digit c \<longleftrightarrow> 48 \<le> code_point c \<and> code_point c \<le> 57"

definition to_ascii_uppercase :: "rchar \<Rightarrow> rchar" where
  "to_ascii_uppercase c =
     (let n = code_point c in if 97 \<le> n \<and> n \<le> 122 then rchr (n - 32) else c)"

definition to_ascii_lowercase :: "rchar \<Rightarrow> rchar" where
  "to_ascii_lowercase c =
     (let n = code_point c in if 65 \<le> n \<and> n \<le> 90 then rchr (n + 32) else c)"

definition is_ascii_str :: "rstr \<Rightarrow> bool" where
  "is_ascii_str s = list_all (\<lambda>c. code_point c < 128) s"

lemma encode_utf8_ascii: "code_point c < 128 \<Longrightarrow> encode_utf8 c = [as_u8 (code_point c)]"
  by (simp add: encode_utf8_def Let_def)

lemma utf8_ascii_str: "is_ascii_str s \<Longrightarrow> utf8 s = map (as_u8 \<circ> code_point) s"
  by (induction s) (simp_all add: is_ascii_str_def encode_utf8_ascii)

lemma length_utf8_ascii: "is_ascii_str s \<Longrightarrow> length (utf8 s) = length s"
  by (simp add: utf8_ascii_str)

subsection \<open>Trimming, prefixes and splitting\<close>

definition trim :: "rstr \<Rightarrow> rstr" where
  "trim s = rev (dropWhile is_whitespace (rev (dropWhile is_whitespace s)))"

definition trim_end :: "rstr \<Rightarrow> rstr" where
  "trim_end s = rev (dropWhile is_whitespace (rev s))"

definition trim_start :: "rstr \<Rightarrow> rstr" where
  "trim_start s = dropWhile is_whitespace s"

fun strip_prefix :: "rstr \<Rightarrow> rstr \<Rightarrow> rstr option" where
  "strip_prefix [] s = Some s"
| "strip_prefix (p # ps) [] = None"
| "strip_prefix (p # ps) (c # s) = (if p = c then strip_prefix ps s else None)"

text \<open>\<open>s.split_once(c)\<close>: the parts before and after the first \<open>c\<close>.\<close>

fun split_once :: "rchar \<Rightarrow> rstr \<Rightarrow> (rstr \<times> rstr) option" where
  "split_once d [] = None"
| "split_once d (c # s) =
     (if c = d then Some ([], s)
      else map_option (\<lambda>(a, b). (c # a, b)) (split_once d s))"

text \<open>\<open>s.split(c)\<close>: always at least one part.\<close>

fun split_on :: "rchar \<Rightarrow> rstr \<Rightarrow> rstr list" where
  "split_on d [] = [[]]"
| "split_on d (c # s) =
     (if c = d then [] # split_on d s
      else case split_on d s of [] \<Rightarrow> [[c]] | p # ps \<Rightarrow> (c # p) # ps)"

text \<open>\<open>s.lines()\<close>: split at line feeds, one trailing carriage return dropped per line, no last
  empty line.\<close>

definition strip_cr :: "rstr \<Rightarrow> rstr" where
  "strip_cr l = (if l \<noteq> [] \<and> last l = rchr 13 then butlast l else l)"

definition lines :: "rstr \<Rightarrow> rstr list" where
  "lines s = (let parts = map strip_cr (split_on (rchr 10) s)
              in if last (split_on (rchr 10) s) = [] then butlast parts else parts)"

lemma strip_prefix_append [simp]: "strip_prefix p (p @ s) = Some s"
  by (induction p) auto

lemma strip_prefix_Some_iff: "strip_prefix p s = Some r \<longleftrightarrow> s = p @ r"
  by (induction p s rule: strip_prefix.induct) auto

lemma split_once_append: "d \<notin> set a \<Longrightarrow> split_once d (a @ d # b) = Some (a, b)"
  by (induction a) auto

lemma split_once_None_iff: "split_once d s = None \<longleftrightarrow> d \<notin> set s"
  by (induction s) auto

lemma split_once_SomeD: "split_once d s = Some (a, b) \<Longrightarrow> s = a @ d # b \<and> d \<notin> set a"
  by (induction s arbitrary: a) (auto split: if_splits)

lemma split_on_not_Nil [simp]: "split_on d s \<noteq> []"
  by (cases s) (auto split: list.splits)

lemma split_on_no_sep: "d \<notin> set s \<Longrightarrow> split_on d s = [s]"
  by (induction s) auto

lemma split_on_append: "d \<notin> set a \<Longrightarrow> split_on d (a @ d # b) = a # split_on d b"
  by (induction a) auto

lemma trim_id:
  assumes "s \<noteq> []" "\<not> is_whitespace (hd s)" "\<not> is_whitespace (last s)"
  shows "trim s = s"
  using assms by (simp add: trim_def dropWhile_hd_id hd_rev)

lemma trim_Nil [simp]: "trim [] = []"
  by (simp add: trim_def)

subsection \<open>Decimal and hexadecimal formats\<close>

definition digit_char :: "nat \<Rightarrow> rchar" where
  "digit_char d = rchr (48 + d)"

fun show_nat :: "nat \<Rightarrow> rstr" where
  "show_nat n = (if n < 10 then [digit_char n] else show_nat (n div 10) @ [digit_char (n mod 10)])"

declare show_nat.simps [simp del]

text \<open>\<open>format!("{:0width$}", n)\<close>: zero-padded to at least \<open>w\<close> digits.\<close>

definition show_nat_padded :: "nat \<Rightarrow> nat \<Rightarrow> rstr" where
  "show_nat_padded w n = replicate (w - length (show_nat n)) (digit_char 0) @ show_nat n"

text \<open>One byte as \<open>{:02X}\<close>.\<close>

definition hex_char :: "nat \<Rightarrow> rchar" where
  "hex_char d = (if d < 10 then rchr (48 + d) else rchr (55 + d))"

definition show_hex2 :: "byte \<Rightarrow> rstr" where
  "show_hex2 b = [hex_char (unat b div 16), hex_char (unat b mod 16)]"

text \<open>
  \<open>str::parse\<close> for an unsigned type with values below \<open>lim\<close>: an optional \<open>+\<close>, at least one
  digit, no other character, and no overflow.
\<close>

fun digits_value :: "nat \<Rightarrow> rstr \<Rightarrow> nat option" where
  "digits_value acc [] = Some acc"
| "digits_value acc (c # s) =
     (if is_ascii_digit c then digits_value (10 * acc + (code_point c - 48)) s else None)"

definition parse_unsigned :: "nat \<Rightarrow> rstr \<Rightarrow> nat option" where
  "parse_unsigned lim s =
     (let ds = (case s of [] \<Rightarrow> [] | c # r \<Rightarrow> if c = ascii CHR ''+'' then r else s) in
      if ds = [] then None
      else case digits_value 0 ds of
             None \<Rightarrow> None
           | Some n \<Rightarrow> if n < lim then Some n else None)"

lemma code_point_digit [simp]: "d < 10 \<Longrightarrow> code_point (digit_char d) = 48 + d"
  by (simp add: digit_char_def)

lemma is_ascii_digit_digit_char [simp]: "d < 10 \<Longrightarrow> is_ascii_digit (digit_char d)"
  by (simp add: is_ascii_digit_def)

lemma show_nat_not_Nil [simp]: "show_nat n \<noteq> []"
  by (subst show_nat.simps) simp

lemma show_nat_digits: "c \<in> set (show_nat n) \<Longrightarrow> is_ascii_digit c"
proof (induction n rule: show_nat.induct)
  case (1 n)
  then show ?case
    by (subst (asm) show_nat.simps) (auto split: if_splits)
qed

lemma digits_value_append:
  "digits_value acc (s @ t) = Option.bind (digits_value acc s) (\<lambda>a. digits_value a t)"
  by (induction s arbitrary: acc) auto

lemma digits_value_show_nat [codec]: "digits_value 0 (show_nat n) = Some n"
proof (induction n rule: show_nat.induct)
  case (1 n)
  show ?case
  proof (cases "n < 10")
    case True
    then show ?thesis by (simp add: show_nat.simps [of n])
  next
    case False
    then show ?thesis
      using "1.IH" by (simp add: show_nat.simps [of n] digits_value_append)
  qed
qed

lemma hd_show_nat_digit: "is_ascii_digit (hd (show_nat n))"
  by (rule show_nat_digits [of _ n]) (rule hd_in_set, rule show_nat_not_Nil)

lemma parse_show_nat [codec]: "n < lim \<Longrightarrow> parse_unsigned lim (show_nat n) = Some n"
proof -
  assume "n < lim"
  obtain c r where cr: "show_nat n = c # r"
    using show_nat_not_Nil by (cases "show_nat n") blast
  then have "is_ascii_digit c" using hd_show_nat_digit [of n] by simp
  then have "c \<noteq> ascii CHR ''+''" by (auto simp: is_ascii_digit_def ascii_def)
  with cr \<open>n < lim\<close> show ?thesis
    using digits_value_show_nat [of n] by (simp add: parse_unsigned_def cr)
qed

lemma parse_unsigned_less: "parse_unsigned lim s = Some n \<Longrightarrow> n < lim"
  by (auto simp: parse_unsigned_def Let_def split: if_splits option.splits)

lemma length_show_nat_le: "n < 10 ^ w \<Longrightarrow> 0 < w \<Longrightarrow> length (show_nat n) \<le> w"
proof (induction w arbitrary: n)
  case 0
  then show ?case by simp
next
  case (Suc w)
  show ?case
  proof (cases "n < 10")
    case True
    then show ?thesis by (simp add: show_nat.simps [of n])
  next
    case False
    with Suc.prems have "n div 10 < 10 ^ w" by (simp add: less_mult_imp_div_less mult.commute)
    moreover from this False have "0 < w" by (cases w) auto
    ultimately show ?thesis
      using Suc.IH [of "n div 10"] False by (simp add: show_nat.simps [of n])
  qed
qed

lemma length_show_nat_padded: "n < 10 ^ w \<Longrightarrow> 0 < w \<Longrightarrow> length (show_nat_padded w n) = w"
  using length_show_nat_le [of n w] by (simp add: show_nat_padded_def)

end
