(* ===== verification/Errors.thy ===== *)
theory Errors
  imports Rust_Str
begin

text \<open>
  The error values of the program. The source reports every failure as a \<open>String\<close> built by
  \<open>format!\<close>; here each message is a constructor that carries the values it is formatted with.
  Failures of the operating system and of the crates the program links carry the text those
  produce.
\<close>

datatype (plugins only: size code) cli_error =
  \<comment> \<open>\<open>cli/protocol.rs\<close>, \<open>cli/agent.rs\<close>\<close>
    SerializeFailed rstr
  | MessageTooLarge nat
  | WriteFailed rstr
  | ReadFailed rstr
  | FrameTooLong u32
  | DeserializeFailed rstr
  | InvalidSessionToken
  \<comment> \<open>\<open>cli/client.rs\<close>, \<open>cli/paths.rs\<close>\<close>
  | NoAgent
  | NoSession
  | BadSessionToken rstr
  | NoSuchSecret rstr
  | UnexpectedResponse rstr
  | ReadStdinFailed rstr
  | NotTotp rstr
  | InvalidSeed
  | VaultExists rstr
  | NoVault rstr
  | CannotReadPassphrase rstr
  | PassphraseEmpty
  | PassphraseMismatch
  | AgentRunning
  | AgentAlreadyServing
  | HandshakeFailed rstr
  | AgentReported rstr
  | CannotLocateVault
  | SocketPathTooLong nat
  | CannotCreateDir rstr rstr
  | CannotChmod rstr rstr
  \<comment> \<open>file access of \<open>cli/sharing.rs\<close> and \<open>cli/pairing.rs\<close>\<close>
  | ReadFileFailed rstr rstr
  | WriteFileFailed rstr rstr

datatype token_error =
  \<comment> \<open>\<open>cli/sharing.rs\<close>\<close>
    NotAToken
  | TokenSerialize rstr
  | TokenUndecodable rstr
  | TokenUnparsable rstr
  | NeedTwoTokens
  | TooManyTokens
  | TokenThreshold nat nat
  | NoTokens
  | NoTokenFiles
  | InconsistentTokens
  | DuplicateToken nat
  | TooFewTokens nat nat

datatype (plugins only: size code) transfer_error =
  \<comment> \<open>\<open>network/transfer.rs\<close>\<close>
    PairingInit rstr
  | NotAPairingCode
  | MalformedPairingCode rstr
  | EncapsulateFailed rstr
  | SharedKeyError rstr
  | EncodePayload rstr
  | SealFailed rstr
  | EncodeBundle rstr
  | BundleTooLarge nat
  | NotABundle
  | MalformedBundle rstr
  | ParseBundle rstr
  | DecapsulateFailed rstr
  | OpenFailed rstr
  | ParsePayload rstr
  | QrFailed rstr
  \<comment> \<open>\<open>cli/pairing.rs\<close>\<close>
  | OnlyOneCodeSource
  | NeedPeerCode
  | NotConfirmed
  | ListenFailed rstr
  | LocalAddrFailed rstr
  | ReadBundleFailed rstr
  | ExistsAlready rstr
  | ReadTerminalFailed rstr
  | NotLiteralAddress rstr
  | UnspecifiedAddress
  | ConnectFailed rstr rstr
  | SendFailed rstr
  | NoAck rstr
  | AcceptFailed rstr
  | TooManyAttempts
  | SocketClone rstr
  | TimedOut
  | SizeLimit
  | NotUtf8Bundle

datatype (plugins only: size code) error =
  \<comment> \<open>\<open>core/name.rs\<close>\<close>
    NameEmpty
  | NameTooLong
  | NameControl
  \<comment> \<open>\<open>core/passphrase.rs\<close>, \<open>core/manager.rs\<close>\<close>
  | WordlistNotPowerOfTwo
  | NeedRandomness nat nat
  | CharsetSize
  | CharsetNotAscii
  | EntropyFailed rstr
  | VaultLocked
  \<comment> \<open>\<open>sharing/shamir.rs\<close>\<close>
  | ThresholdRange nat
  | SharesRange nat
  | SecretEmpty
  | NeedTwoShares
  | ShareLengthMismatch nat nat
  | ShareIndexZero
  | DuplicateShareIndex byte
  \<comment> \<open>\<open>sharing/multisig.rs\<close>\<close>
  | CustodianKeyCount nat nat
  | CreateBlobFailed nat rstr
  | BlobKeyMismatch nat nat
  | OpenBlobFailed nat rstr
  | CommitmentRange byte
  | CommitmentFailed byte
  | PayloadTooShort
  | IntegrityFailed
  \<comment> \<open>\<open>crypto/vdf_kdf.rs\<close>\<close>
  | SaltLength nat
  | VdfTooLarge u64
  | ArgonParams rstr
  | ArgonError rstr
  | HkdfExpand rstr
  | LockedBufferError rstr
  \<comment> \<open>\<open>storage/local_store.rs\<close>\<close>
  | HeaderTooShort
  | BadMagic
  | BadVersion byte
  | ArgonTimeRange u32
  | ArgonMemoryRange u32
  | ArgonThreadsRange u32
  | CreateVaultFailed rstr rstr
  | ReadVaultFailed rstr
  | VaultTooLarge nat
  | DecryptVaultFailed rstr
  | DeserializeVaultFailed rstr
  | SerializeVaultFailed rstr
  | EncryptVaultFailed rstr
  | WriteVaultFailed rstr
  | FinalizeVaultFailed rstr
  | SealSecretFailed rstr
  | OpenSecretFailed rstr
  \<comment> \<open>the command line, the wire and the transfer layers\<close>
  | Cli cli_error
  | Token token_error
  | Transfer transfer_error
  \<comment> \<open>a failed \<open>expect\<close> or \<open>unwrap\<close>\<close>
  | Panic rstr

end
