(* ===== verification/Externals.thy ===== *)
theory Externals
  imports Rust_Str
begin

text \<open>
  The third-party crates the program links (\<open>secure-memory\<close>, \<open>sha2\<close>, \<open>hmac\<close>, \<open>hkdf\<close>,
  \<open>argon2\<close>, \<open>base64\<close>, \<open>bincode\<close>), whose sources are not part of the repository. The record
  \<open>crates\<close> holds their functions; every definition that calls one takes the record as its first
  argument. A call that draws randomness inside the crate (an AEAD nonce, KEM coins) takes what it
  draws as an argument. Errors are the text the crate formats for them. The predicates below are
  the documented behaviour that theorems name as hypotheses, each satisfied by \<open>demo_crates\<close>.
\<close>

record crates =
  sha512 :: "bytes \<Rightarrow> bytes"
  sha256 :: "bytes \<Rightarrow> bytes"
  hmac_sha1 :: "bytes \<Rightarrow> bytes \<Rightarrow> bytes"
  hmac_sha256 :: "bytes \<Rightarrow> bytes \<Rightarrow> bytes"
  hmac_sha512 :: "bytes \<Rightarrow> bytes \<Rightarrow> bytes"
  hkdf_sha512 :: "bytes option \<Rightarrow> bytes \<Rightarrow> bytes \<Rightarrow> nat \<Rightarrow> rstr + bytes"
  argon2_new_params :: "u32 \<Rightarrow> u32 \<Rightarrow> u32 \<Rightarrow> rstr + unit"
  argon2id :: "u32 \<Rightarrow> u32 \<Rightarrow> u32 \<Rightarrow> bytes \<Rightarrow> bytes \<Rightarrow> rstr + bytes"
  locked_from_bytes :: "bytes \<Rightarrow> rstr + bytes"
  locked_slice :: "bytes \<Rightarrow> rstr + bytes"
  encrypt :: "bytes \<Rightarrow> bytes \<Rightarrow> bytes \<Rightarrow> rstr + bytes"
  decrypt :: "bytes \<Rightarrow> bytes \<Rightarrow> rstr + bytes"
  encrypt_aad :: "bytes \<Rightarrow> bytes \<Rightarrow> bytes \<Rightarrow> bytes \<Rightarrow> rstr + bytes"
  decrypt_aad :: "bytes \<Rightarrow> bytes \<Rightarrow> bytes \<Rightarrow> rstr + bytes"
  kem_generate :: "bytes \<Rightarrow> rstr + (bytes \<times> bytes)"
  kem_encapsulate :: "bytes \<Rightarrow> bytes \<Rightarrow> rstr + (bytes \<times> bytes)"
  kem_decapsulate :: "bytes \<Rightarrow> bytes \<Rightarrow> rstr + bytes"
  b64_encode :: "bytes \<Rightarrow> rstr"
  b64_decode :: "rstr \<Rightarrow> rstr + bytes"
  b64_encode_nopad :: "bytes \<Rightarrow> rstr"
  b64_decode_nopad :: "rstr \<Rightarrow> rstr + bytes"

text \<open>
  Argument orders: \<open>encrypt key nonce plaintext\<close>, \<open>encrypt_aad key nonce plaintext aad\<close>,
  \<open>decrypt_aad key ciphertext aad\<close>, \<open>hkdf_sha512 salt ikm info len\<close>,
  \<open>argon2_new_params memory time threads\<close>, \<open>argon2id time memory threads passphrase salt\<close> (32
  bytes of output),
  \<open>kem_generate coins = (public, secret)\<close>,
  \<open>kem_encapsulate public coins = (ciphertext, shared)\<close>, \<open>kem_decapsulate secret ciphertext\<close>.
\<close>

subsection \<open>Documented behaviour\<close>

definition digest_lengths :: "crates \<Rightarrow> bool" where
  "digest_lengths X \<longleftrightarrow>
     (\<forall>x. length (sha512 X x) = 64) \<and> (\<forall>x. length (sha256 X x) = 32)"

definition hmac_lengths :: "crates \<Rightarrow> bool" where
  "hmac_lengths X \<longleftrightarrow>
     (\<forall>k x. length (hmac_sha1 X k x) = 20) \<and> (\<forall>k x. length (hmac_sha256 X k x) = 32)
     \<and> (\<forall>k x. length (hmac_sha512 X k x) = 64)"

text \<open>What an AEAD seals, it opens under the same key (and the same associated data).\<close>

definition aead_ok :: "crates \<Rightarrow> bool" where
  "aead_ok X \<longleftrightarrow> (\<forall>k r p c. encrypt X k r p = Inr c \<longrightarrow> decrypt X k c = Inr p)"

definition aead_aad_ok :: "crates \<Rightarrow> bool" where
  "aead_aad_ok X \<longleftrightarrow>
     (\<forall>k r p a c. encrypt_aad X k r p a = Inr c \<longrightarrow> decrypt_aad X k c a = Inr p)"

definition kem_ok :: "crates \<Rightarrow> bool" where
  "kem_ok X \<longleftrightarrow>
     (\<forall>g e pk sk ct ss. kem_generate X g = Inr (pk, sk)
        \<longrightarrow> kem_encapsulate X pk e = Inr (ct, ss) \<longrightarrow> kem_decapsulate X sk ct = Inr ss)"

definition is_b64_char :: "rchar \<Rightarrow> bool" where
  "is_b64_char c \<longleftrightarrow>
     (let n = code_point c in
      (65 \<le> n \<and> n \<le> 90) \<or> (97 \<le> n \<and> n \<le> 122) \<or> (48 \<le> n \<and> n \<le> 57)
      \<or> n = 43 \<or> n = 47 \<or> n = 61)"

text \<open>
  Both alphabets: decoding undoes encoding, the text uses the base64 characters only, and it is
  empty only for no bytes.
\<close>

definition b64_ok :: "crates \<Rightarrow> bool" where
  "b64_ok X \<longleftrightarrow>
     (\<forall>b. b64_decode X (b64_encode X b) = Inr b)
     \<and> (\<forall>b. b64_decode_nopad X (b64_encode_nopad X b) = Inr b)
     \<and> (\<forall>b. list_all is_b64_char (b64_encode X b))
     \<and> (\<forall>b. list_all is_b64_char (b64_encode_nopad X b))
     \<and> (\<forall>b. b64_encode_nopad X b = [] \<longrightarrow> b = [])"

lemma aead_okD: "aead_ok X \<Longrightarrow> encrypt X k r p = Inr c \<Longrightarrow> decrypt X k c = Inr p"
  by (auto simp: aead_ok_def)

lemma aead_aad_okD:
  "aead_aad_ok X \<Longrightarrow> encrypt_aad X k r p a = Inr c \<Longrightarrow> decrypt_aad X k c a = Inr p"
  by (auto simp: aead_aad_ok_def)

lemma kem_okD:
  "kem_ok X \<Longrightarrow> kem_generate X g = Inr (pk, sk) \<Longrightarrow> kem_encapsulate X pk e = Inr (ct, ss)
     \<Longrightarrow> kem_decapsulate X sk ct = Inr ss"
  unfolding kem_ok_def by blast

lemma b64_okD:
  assumes "b64_ok X"
  shows "b64_decode X (b64_encode X b) = Inr b"
    "b64_decode_nopad X (b64_encode_nopad X b) = Inr b"
    "list_all is_b64_char (b64_encode X b)" "list_all is_b64_char (b64_encode_nopad X b)"
    "b64_encode_nopad X b = [] \<Longrightarrow> b = []"
  using assms by (auto simp: b64_ok_def)

lemma digest_lengthsD:
  assumes "digest_lengths X"
  shows "length (sha512 X x) = 64" "length (sha256 X x) = 32"
  using assms by (auto simp: digest_lengths_def)

lemma is_b64_char_not:
  assumes "is_b64_char c"
  shows "\<not> is_whitespace c" "c \<noteq> ascii CHR ''@''" "c \<noteq> ascii CHR '':''" "code_point c < 128"
  using assms by (auto simp: is_b64_char_def is_whitespace_def ascii_def Let_def)

subsection \<open>\<open>bincode\<close>\<close>

text \<open>
  \<open>bincode::serialize\<close> and \<open>bincode::deserialize\<close> at one type. \<open>codec_ok\<close> is the round trip that
  bincode documents.
\<close>

record 'a bincode =
  ser :: "'a \<Rightarrow> rstr + bytes"
  de :: "bytes \<Rightarrow> rstr + 'a"

definition codec_ok :: "'a bincode \<Rightarrow> bool" where
  "codec_ok C \<longleftrightarrow> (\<forall>x b. ser C x = Inr b \<longrightarrow> de C b = Inr x)"

lemma codec_okD: "codec_ok C \<Longrightarrow> ser C x = Inr b \<Longrightarrow> de C b = Inr x"
  by (auto simp: codec_ok_def)

text \<open>A codec for the values of a list: a value is written as its position.\<close>

fun position :: "'a \<Rightarrow> 'a list \<Rightarrow> nat option" where
  "position x [] = None"
| "position x (y # ys) = (if x = y then Some 0 else map_option Suc (position x ys))"

definition table_codec :: "'a list \<Rightarrow> 'a bincode" where
  "table_codec vs =
     \<lparr>ser = (\<lambda>x. case position x vs of
               Some i \<Rightarrow> if i < 256 then Inr [as_u8 i] else Inl (lit ''size limit'')
             | None \<Rightarrow> Inl (lit ''size limit'')),
      de = (\<lambda>b. if length b = 1 \<and> unat (hd b) < length vs then Inr (vs ! unat (hd b))
             else Inl (lit ''invalid data''))\<rparr>"

lemma position_Some: "position x ys = Some i \<Longrightarrow> i < length ys \<and> ys ! i = x"
  by (induction ys arbitrary: i) (auto split: if_splits)

lemma table_codec_ok: "codec_ok (table_codec vs)"
  by (auto simp: codec_ok_def table_codec_def split: option.splits if_splits dest: position_Some)

subsection \<open>An instance\<close>

text \<open>
  Small concrete functions with the documented behaviour, at which the hypotheses of the theorems
  are discharged: a padded identity for the digests, a keyed prefix for the AEAD, and a two-letter
  code for base64.
\<close>

definition pad_to :: "nat \<Rightarrow> bytes \<Rightarrow> bytes" where
  "pad_to n x = take n (x @ replicate n 0)"

definition demo_b64_encode :: "bytes \<Rightarrow> rstr" where
  "demo_b64_encode b =
     concat (map (\<lambda>x. [rchr (65 + unat x div 16), rchr (65 + unat x mod 16)]) b)"

fun demo_b64_decode :: "rstr \<Rightarrow> rstr + bytes" where
  "demo_b64_decode (c # d # s) =
     (let i = code_point c; j = code_point d in
      if 65 \<le> i \<and> i < 81 \<and> 65 \<le> j \<and> j < 81
      then map_ok ((#) (as_u8 ((i - 65) * 16 + (j - 65)))) (demo_b64_decode s)
      else Inl (lit ''Invalid byte''))"
| "demo_b64_decode [] = Inr []"
| "demo_b64_decode [c] = Inl (lit ''Invalid last symbol'')"

definition demo_open :: "bytes \<Rightarrow> bytes \<Rightarrow> rstr + bytes" where
  "demo_open tag c =
     (if take (length tag) c = tag then Inr (drop (length tag) c)
      else Inl (lit ''DecryptionFailed''))"

definition demo_crates :: crates where
  "demo_crates =
     \<lparr>sha512 = pad_to 64, sha256 = pad_to 32,
      hmac_sha1 = (\<lambda>k x. pad_to 20 (x @ k)), hmac_sha256 = (\<lambda>k x. pad_to 32 (x @ k)),
      hmac_sha512 = (\<lambda>k x. pad_to 64 (x @ k)),
      hkdf_sha512 = (\<lambda>s k i n. Inr (pad_to n (k @ i))),
      argon2_new_params = (\<lambda>t m p. Inr ()),
      argon2id = (\<lambda>t m p pw s. Inr (pad_to 32 pw)),
      locked_from_bytes = Inr, locked_slice = Inr,
      encrypt = (\<lambda>k r p. Inr (k @ p)), decrypt = demo_open,
      encrypt_aad = (\<lambda>k r p a. Inr (k @ a @ p)), decrypt_aad = (\<lambda>k c a. demo_open (k @ a) c),
      kem_generate = (\<lambda>g. Inr (g, g)),
      kem_encapsulate = (\<lambda>pk e. Inr (e, pk @ e)),
      kem_decapsulate = (\<lambda>sk ct. Inr (sk @ ct)),
      b64_encode = demo_b64_encode, b64_decode = demo_b64_decode,
      b64_encode_nopad = demo_b64_encode, b64_decode_nopad = demo_b64_decode\<rparr>"

lemma length_pad_to [simp]: "length (pad_to n x) = n"
  by (simp add: pad_to_def)

lemma nibbles_less: "unat (x :: byte) div 16 < 16" "unat x mod 16 < 16"
  using unat_byte_less [of x] by (simp_all add: less_mult_imp_div_less)

lemma demo_b64_decode_encode: "demo_b64_decode (demo_b64_encode b) = Inr b"
proof (induction b)
  case Nil
  then show ?case by (simp add: demo_b64_encode_def)
next
  case (Cons x b)
  have "unat x div 16 < 16" "unat x mod 16 < 16" by (rule nibbles_less)+
  moreover have "unat x div 16 * 16 + unat x mod 16 = unat x" by simp
  ultimately show ?case using Cons.IH by (simp add: demo_b64_encode_def Let_def)
qed

lemma demo_b64_chars: "list_all is_b64_char (demo_b64_encode b)"
proof -
  have "is_b64_char (rchr (65 + k))" if "k < 16" for k
    using that by (simp add: is_b64_char_def)
  then show ?thesis using nibbles_less by (auto simp: demo_b64_encode_def list_all_iff)
qed

lemma demo_b64_Nil: "demo_b64_encode b = [] \<Longrightarrow> b = []"
  by (cases b) (simp_all add: demo_b64_encode_def)

lemma demo_open_append: "demo_open k (k @ p) = Inr p"
  by (simp add: demo_open_def)

lemma demo_crates_ok:
  "digest_lengths demo_crates" "hmac_lengths demo_crates" "aead_ok demo_crates"
  "aead_aad_ok demo_crates" "kem_ok demo_crates" "b64_ok demo_crates"
  by (simp_all add: demo_crates_def digest_lengths_def hmac_lengths_def aead_ok_def
      aead_aad_ok_def kem_ok_def b64_ok_def demo_open_append demo_b64_decode_encode demo_b64_chars
      demo_b64_Nil
      demo_open_append [of "k @ a" for k a, simplified append.assoc])

lemma demo_crates_simps:
  "sha512 demo_crates = pad_to 64" "sha256 demo_crates = pad_to 32"
  "hmac_sha1 demo_crates = (\<lambda>k x. pad_to 20 (x @ k))"
  "hmac_sha256 demo_crates = (\<lambda>k x. pad_to 32 (x @ k))"
  "hmac_sha512 demo_crates = (\<lambda>k x. pad_to 64 (x @ k))"
  "hkdf_sha512 demo_crates = (\<lambda>s k i n. Inr (pad_to n (k @ i)))"
  "argon2_new_params demo_crates = (\<lambda>t m p. Inr ())"
  "argon2id demo_crates = (\<lambda>t m p pw s. Inr (pad_to 32 pw))"
  "locked_from_bytes demo_crates = Inr" "locked_slice demo_crates = Inr"
  "encrypt demo_crates = (\<lambda>k r p. Inr (k @ p))" "decrypt demo_crates = demo_open"
  "encrypt_aad demo_crates = (\<lambda>k r p a. Inr (k @ a @ p))"
  "decrypt_aad demo_crates = (\<lambda>k c a. demo_open (k @ a) c)"
  "kem_generate demo_crates = (\<lambda>g. Inr (g, g))"
  "kem_encapsulate demo_crates = (\<lambda>pk e. Inr (e, pk @ e))"
  "kem_decapsulate demo_crates = (\<lambda>sk ct. Inr (sk @ ct))"
  "b64_encode demo_crates = demo_b64_encode" "b64_decode demo_crates = demo_b64_decode"
  "b64_encode_nopad demo_crates = demo_b64_encode" "b64_decode_nopad demo_crates = demo_b64_decode"
  by (simp_all add: demo_crates_def)

end
