(* ===== verification/Kdf.thy ===== *)
theory Kdf
  imports Errors Externals
begin

text \<open>
  \<open>src/crypto/vdf_kdf.rs\<close>: the passphrase key derivation, Argon2id followed by iterated SHA-512
  and HKDF. The stages are the crates' functions; what is the program's own is the validation, the
  order of the inputs and the iteration count. \<open>vdf_calibrate\<close> is in
  \<open>Calibration\<close>. The wiping of buffers is not modelled.
\<close>

record argon2_params =
  argon_time :: u32
  argon_memory :: u32
  argon_threads :: u32

definition MAX_VDF_ITERATIONS :: u64 where
  "MAX_VDF_ITERATIONS = 50000000"

definition default_argon2_params :: argon2_params where
  "default_argon2_params = \<lparr>argon_time = 1, argon_memory = 256 * 1024, argon_threads = 4\<rparr>"

fun sha_iterate :: "crates \<Rightarrow> nat \<Rightarrow> bytes \<Rightarrow> bytes" where
  "sha_iterate X 0 h = h"
| "sha_iterate X (Suc n) h = sha_iterate X n (sha512 X h)"

definition derive_key ::
  "crates \<Rightarrow> bytes \<Rightarrow> bytes \<Rightarrow> argon2_params \<Rightarrow> u64 \<Rightarrow> bytes option \<Rightarrow> error + bytes" where
  "derive_key X passphrase salt params vdf_iterations hardware_key =
     (if length salt \<noteq> 32 then Inl (SaltLength (length salt))
      else if vdf_iterations > MAX_VDF_ITERATIONS then Inl (VdfTooLarge vdf_iterations)
      else
        and_then (map_err ArgonParams
          (argon2_new_params X (argon_memory params) (argon_time params) (argon_threads params)))
          (\<lambda>_.
        and_then (map_err ArgonError
          (argon2id X (argon_time params) (argon_memory params) (argon_threads params)
             passphrase salt)) (\<lambda>argon_key.
        let vdf_output =
              (if vdf_iterations > 0
               then sha_iterate X (unat vdf_iterations)
                      (sha512 X (argon_key @ salt @ utf8 (lit ''vdf-input'')))
               else []);
            combined = argon_key @ (if vdf_iterations > 0 then vdf_output else [])
                       @ (case hardware_key of Some hw_key \<Rightarrow> hw_key | None \<Rightarrow> [])
        in and_then (map_err HkdfExpand
             (hkdf_sha512 X (Some salt) combined (utf8 (lit ''vault-master'')) 32)) (\<lambda>okm.
           map_err LockedBufferError (locked_from_bytes X okm)))))"

definition vdf_eval :: "crates \<Rightarrow> bytes \<Rightarrow> u64 \<Rightarrow> bytes" where
  "vdf_eval X input iterations = sha_iterate X (unat iterations - 1) (sha512 X input)"

subsection \<open>Lemmas\<close>

lemma sha_iterate_funpow: "sha_iterate X n h = (sha512 X ^^ n) h"
  by (induction n arbitrary: h) (simp_all add: funpow_swap1)

text \<open>The whole work of the delay: one digest of the input and \<open>n\<close> iterations of it.\<close>

lemma vdf_eval_funpow: "0 < iterations \<Longrightarrow> vdf_eval X input iterations = (sha512 X ^^ unat iterations) input"
proof -
  assume "0 < iterations"
  then have "unat iterations \<noteq> 0" by (simp add: unsigned_eq_0_iff word_gt_0)
  then obtain k where "unat iterations = Suc k" by (cases "unat iterations") auto
  then show ?thesis by (simp add: vdf_eval_def sha_iterate_funpow funpow_swap1)
qed

lemma length_sha_iterate:
  "digest_lengths X \<Longrightarrow> length h = 64 \<Longrightarrow> length (sha_iterate X n h) = 64"
  by (induction n arbitrary: h) (simp_all add: digest_lengthsD)

lemma derive_key_bounds:
  "derive_key X pw salt params vdf hw = Inr k \<Longrightarrow> length salt = 32 \<and> vdf \<le> MAX_VDF_ITERATIONS"
  by (auto simp: derive_key_def split: if_splits)

lemma derive_key_no_hardware_key: "derive_key X pw salt params vdf (Some []) = derive_key X pw salt params vdf None"
  by (simp add: derive_key_def)

lemma derive_key_ok:
  assumes "\<forall>a b c. is_ok (argon2_new_params X a b c)" "\<forall>a b c p s. is_ok (argon2id X a b c p s)"
    and "\<forall>s k i n. is_ok (hkdf_sha512 X s k i n)" "\<forall>b. is_ok (locked_from_bytes X b)"
    and "length salt = 32" "vdf \<le> MAX_VDF_ITERATIONS"
  shows "\<exists>k. derive_key X pw salt params vdf hw = Inr k"
proof -
  obtain a where "argon2id X (argon_time params) (argon_memory params) (argon_threads params) pw salt = Inr a"
    using assms(2) is_ok_iff by metis
  moreover have "\<exists>u. argon2_new_params X (argon_memory params) (argon_time params) (argon_threads params) = Inr u"
    using assms(1) by (auto simp: is_ok_iff)
  moreover have "\<exists>k. and_then (map_err HkdfExpand (hkdf_sha512 X s c i n))
      (\<lambda>okm. map_err LockedBufferError (locked_from_bytes X okm)) = Inr k" for s c i n
    using assms(3,4) unfolding is_ok_iff by (metis and_then_simps(2) map_err_simps(2))
  ultimately show ?thesis
    using assms(5,6) by (auto simp: derive_key_def Let_def)
qed

subsection \<open>Properties\<close>

text \<open>A salt of the wrong length or an iteration count above the cap is refused before any
  expensive work; otherwise, where the crates succeed, the key is the HKDF of the Argon2id output,
  then (for a positive count) exactly \<open>vdf_iterations + 1\<close> chained SHA-512 digests starting from the
  Argon2id output, the salt and the label, then the hardware key.\<close>

theorem derive_key_pipeline:
  assumes "argon2_new_params X (argon_memory params) (argon_time params) (argon_threads params) = Inr u"
    and "argon2id X (argon_time params) (argon_memory params) (argon_threads params) pw salt = Inr a"
    and "\<And>b. locked_from_bytes X b = Inr b"
  shows "derive_key X pw salt params vdf hw =
    (if length salt \<noteq> 32 then Inl (SaltLength (length salt))
     else if vdf > MAX_VDF_ITERATIONS then Inl (VdfTooLarge vdf)
     else map_err HkdfExpand (hkdf_sha512 X (Some salt)
       (a @ (if vdf = 0 then []
             else (sha512 X ^^ (unat vdf + 1)) (a @ salt @ utf8 (lit ''vdf-input'')))
          @ (case hw of Some k \<Rightarrow> k | None \<Rightarrow> []))
       (utf8 (lit ''vault-master'')) 32))"
proof -
  have "and_then r (\<lambda>okm. map_err LockedBufferError (locked_from_bytes X okm)) = r"
    for r :: "error + bytes"
    by (cases r) (simp_all add: assms(3))
  with assms(1,2) show ?thesis
    by (simp add: derive_key_def sha_iterate_funpow funpow_swap1 word_gt_0 Let_def)
qed

theorem derive_key_pipeline_witness:
  "derive_key demo_crates [1] (replicate 32 7) default_argon2_params 2 (Some [9])
   = Inr (pad_to 32 (pad_to 32 [1]
       @ (sha512 demo_crates ^^ 3) (pad_to 32 [1] @ replicate 32 7 @ utf8 (lit ''vdf-input''))
       @ [9] @ utf8 (lit ''vault-master'')))"
  using derive_key_pipeline [of demo_crates default_argon2_params "()" "[1]" "replicate 32 7"
      "pad_to 32 [1]" 2 "Some [9]"]
  by (simp add: demo_crates_simps MAX_VDF_ITERATIONS_def)

end
