(* ===== verification/Calibration.thy ===== *)
theory Calibration
  imports Complex_Main Kdf
begin

text \<open>
  \<open>vdf_calibrate\<close> of \<open>src/crypto/vdf_kdf.rs\<close>, over the time that it measured: how many digests are said
  to take a wanted time.
\<close>

text \<open>
  An \<open>f64\<close>, of which the finite values are taken as the rational numbers they are; the rounding of the
  two operations is a parameter. The cast to \<open>u64\<close> truncates and saturates, and turns NaN into 0.
  \<open>elapsed\<close> is the measured time of the sample of digests, in seconds.
\<close>

datatype f64 = NaN | NegInf | PosInf | Finite rat

record f64_ops =
  f_div :: "f64 \<Rightarrow> f64 \<Rightarrow> f64"
  f_mul :: "f64 \<Rightarrow> f64 \<Rightarrow> f64"

definition f64_as_u64 :: "f64 \<Rightarrow> u64" where
  "f64_as_u64 x =
     (case x of
        NaN \<Rightarrow> 0
      | NegInf \<Rightarrow> 0
      | PosInf \<Rightarrow> - 1
      | Finite r \<Rightarrow> if r < 1 then 0 else if 2 ^ 64 \<le> r then - 1 else word_of_int \<lfloor>r\<rfloor>)"

definition CALIBRATION_SAMPLE :: rat where
  "CALIBRATION_SAMPLE = 100000"

definition vdf_calibrate :: "f64_ops \<Rightarrow> f64 \<Rightarrow> f64 \<Rightarrow> u64" where
  "vdf_calibrate F elapsed target =
     (let iter_per_sec = f_div F (Finite CALIBRATION_SAMPLE) elapsed;
          t = f64_as_u64 (f_mul F iter_per_sec target)
      in max t 1)"

text \<open>The result can be used as a count, but nothing keeps it below the cap of \<open>derive_key\<close>: where the
  arithmetic is exact, a machine with two million digests per second is told 60 million for half a minute.\<close>

lemma vdf_calibrate_positive: "1 \<le> vdf_calibrate F elapsed target"
  by (simp add: vdf_calibrate_def Let_def)

definition exact_ops :: f64_ops where
  "exact_ops =
     \<lparr>f_div = (\<lambda>a b. case (a, b) of (Finite x, Finite y) \<Rightarrow> if y = 0 then PosInf else Finite (x / y) | _ \<Rightarrow> NaN),
      f_mul = (\<lambda>a b. case (a, b) of (Finite x, Finite y) \<Rightarrow> Finite (x * y) | _ \<Rightarrow> NaN)\<rparr>"

lemma vdf_calibrate_above_cap:
  "MAX_VDF_ITERATIONS < vdf_calibrate exact_ops (Finite (1 / 20)) (Finite 30)"
  by (simp add: vdf_calibrate_def exact_ops_def CALIBRATION_SAMPLE_def f64_as_u64_def MAX_VDF_ITERATIONS_def)

lemma vdf_calibrate_refused:
  "length salt = 32 \<Longrightarrow> derive_key X pw salt params (vdf_calibrate exact_ops (Finite (1 / 20)) (Finite 30)) hw
     = Inl (VdfTooLarge (vdf_calibrate exact_ops (Finite (1 / 20)) (Finite 30)))"
  using vdf_calibrate_above_cap by (simp add: derive_key_def)

end
