(* ===== verification/SecretStore.thy ===== *)
theory SecretStore
  imports Errors
begin

text \<open>
  The interface of a store of named secrets, offered by the vault file, the in-memory store and the
  manager in front of them. An operation takes what happens around the call (nonces, faults), and
  returns its result and the new state. The laws speak about calls that succeed. The client lemmas,
  proved once here, say that a whole history of successful calls behaves like a finite map.
\<close>

datatype 'c store_op = Put 'c rstr bytes | Delete 'c rstr

fun spec_op :: "'c store_op \<Rightarrow> (rstr \<rightharpoonup> bytes) \<Rightarrow> (rstr \<rightharpoonup> bytes)" where
  "spec_op (Put c n v) m = m(n \<mapsto> v)"
| "spec_op (Delete c n) m = m(n := None)"

definition spec_run :: "'c store_op list \<Rightarrow> (rstr \<rightharpoonup> bytes) \<Rightarrow> (rstr \<rightharpoonup> bytes)" where
  "spec_run ops m = fold spec_op ops m"

text \<open>The last operation on a name decides what the history leaves there.\<close>

fun last_write :: "rstr \<Rightarrow> 'c store_op list \<Rightarrow> bytes option option" where
  "last_write n [] = None"
| "last_write n (op # ops) =
     (case last_write n ops of
        Some w \<Rightarrow> Some w
      | None \<Rightarrow> (case op of Put c k v \<Rightarrow> if k = n then Some (Some v) else None
                        | Delete c k \<Rightarrow> if k = n then Some None else None))"

lemma spec_run_last_write:
  "spec_run ops m n = (case last_write n ops of Some w \<Rightarrow> w | None \<Rightarrow> m n)"
proof (induction ops arbitrary: m)
  case Nil
  then show ?case by (simp add: spec_run_def)
next
  case (Cons op ops)
  have "spec_op op m n = (case op of Put c k v \<Rightarrow> if k = n then Some v else m n
      | Delete c k \<Rightarrow> if k = n then None else m n)"
    by (cases op) auto
  with Cons [of "spec_op op m"] show ?case
    by (auto simp: spec_run_def split: option.splits store_op.splits)
qed

text \<open>
  Running a history, \<open>None\<close> as soon as a call fails; \<open>put\<close> and \<open>del\<close> are the store's operations.
\<close>

fun run_ops ::
  "('c \<Rightarrow> rstr \<Rightarrow> bytes \<Rightarrow> 's \<Rightarrow> (error + unit) \<times> 's) \<Rightarrow> ('c \<Rightarrow> rstr \<Rightarrow> 's \<Rightarrow> (error + bool) \<times> 's)
     \<Rightarrow> 'c store_op list \<Rightarrow> 's \<Rightarrow> 's option" where
  "run_ops put del [] s = Some s"
| "run_ops put del (Put c n v # ops) s =
     (case put c n v s of (Inr _, s') \<Rightarrow> run_ops put del ops s' | (Inl _, _) \<Rightarrow> None)"
| "run_ops put del (Delete c n # ops) s =
     (case del c n s of (Inr _, s') \<Rightarrow> run_ops put del ops s' | (Inl _, _) \<Rightarrow> None)"

text \<open>What storing and reading promise; the operations that also delete extend it.\<close>

locale kv_store =
  fixes put :: "'c \<Rightarrow> rstr \<Rightarrow> bytes \<Rightarrow> 's \<Rightarrow> (error + unit) \<times> 's"
    and get :: "'s \<Rightarrow> rstr \<Rightarrow> error + bytes option"
    and inv :: "'s \<Rightarrow> bool"
  assumes put_inv: "inv s \<Longrightarrow> put c n v s = (r, s') \<Longrightarrow> inv s'"
    and put_get: "inv s \<Longrightarrow> put c n v s = (Inr (), s')
          \<Longrightarrow> get s' k = (if k = n then Inr (Some v) else get s k)"
begin

text \<open>The last of two successful writes wins, and writes to different names commute.\<close>

lemma put_overwrite:
  assumes "inv s" "put c n v s = (Inr (), t)" "put d n w t = (Inr (), u)"
  shows "get u k = (if k = n then Inr (Some w) else get s k)"
  using put_get [OF put_inv [OF assms(1,2)] assms(3), of k] put_get [OF assms(1,2), of k] by simp

lemma put_commute:
  assumes "inv s" "n \<noteq> m"
    and "put c n v s = (Inr (), t)" "put d m w t = (Inr (), u)"
    and "put d' m w s = (Inr (), t')" "put c' n v t' = (Inr (), u')"
  shows "get u k = get u' k"
proof -
  have "get u k = (if k = m then Inr (Some w) else if k = n then Inr (Some v) else get s k)"
    by (simp only: put_get [OF put_inv [OF assms(1,3)] assms(4)] put_get [OF assms(1,3)])
  moreover have "get u' k = (if k = n then Inr (Some v) else if k = m then Inr (Some w) else get s k)"
    by (simp only: put_get [OF put_inv [OF assms(1,5)] assms(6)] put_get [OF assms(1,5)])
  ultimately show ?thesis using assms(2) by auto
qed

end

locale secret_store = kv_store put get inv
  for put :: "'c \<Rightarrow> rstr \<Rightarrow> bytes \<Rightarrow> 's \<Rightarrow> (error + unit) \<times> 's"
    and get :: "'s \<Rightarrow> rstr \<Rightarrow> error + bytes option"
    and inv :: "'s \<Rightarrow> bool" +
  fixes del :: "'c \<Rightarrow> rstr \<Rightarrow> 's \<Rightarrow> (error + bool) \<times> 's"
  assumes del_inv: "inv s \<Longrightarrow> del c n s = (q, s') \<Longrightarrow> inv s'"
    and del_get: "inv s \<Longrightarrow> del c n s = (Inr b, s')
          \<Longrightarrow> get s' k = (if k = n then Inr None else get s k)"
    and del_result: "inv s \<Longrightarrow> del c n s = (Inr b, s') \<Longrightarrow> b \<longleftrightarrow> get s n \<noteq> Inr None"
begin

lemma run_inv: "run_ops put del ops s = Some s' \<Longrightarrow> inv s \<Longrightarrow> inv s'"
proof (induction ops arbitrary: s)
  case Nil
  then show ?case by simp
next
  case (Cons op ops)
  then show ?case
    by (cases op) (auto split: prod.splits sum.splits dest: put_inv del_inv)
qed

text \<open>A history of successful calls leaves exactly what the specification says, at every name.\<close>

lemma run_get:
  assumes "run_ops put del ops s = Some s'" "inv s"
  shows "get s' k = (case last_write k ops of Some w \<Rightarrow> Inr w | None \<Rightarrow> get s k)"
  using assms
proof (induction ops arbitrary: s)
  case Nil
  then show ?case by simp
next
  case (Cons op ops)
  show ?case
  proof (cases op)
    case (Put c n v)
    with Cons.prems obtain t where t: "put c n v s = (Inr (), t)" "run_ops put del ops t = Some s'"
      by (auto split: prod.splits sum.splits)
    with Cons.IH [OF t(2)] Cons.prems(2) put_inv [OF Cons.prems(2) t(1)] Put show ?thesis
      by (simp add: put_get [OF Cons.prems(2) t(1)] split: option.splits)
  next
    case (Delete c n)
    with Cons.prems obtain b t where t: "del c n s = (Inr b, t)" "run_ops put del ops t = Some s'"
      by (auto split: prod.splits sum.splits)
    with Cons.IH [OF t(2)] Cons.prems(2) del_inv [OF Cons.prems(2) t(1)] Delete show ?thesis
      by (simp add: del_get [OF Cons.prems(2) t(1)] split: option.splits)
  qed
qed

text \<open>Deleting what was just deleted reports that nothing was there.\<close>

lemma del_twice:
  assumes "inv s" "del c n s = (Inr b, s')" "del c' n s' = (Inr b', s'')"
  shows "\<not> b'"
  using del_result [OF del_inv [OF assms(1,2)] assms(3)] del_get [OF assms(1,2), of n] by simp

end

end
