(* ===== verification/RamStore.thy ===== *)
theory RamStore
  imports SecretStore "HOL-Library.AList"
begin

text \<open>
  \<open>src/storage/ram_store.rs\<close>: secrets that are never written to disk. A \<open>LockedBuffer\<close> is its
  contents; that it is wiped when dropped is not visible in the model.
\<close>

type_synonym ram_store = "(rstr \<times> bytes) list"

definition ram_new :: ram_store where
  "ram_new = []"

definition ram_set :: "rstr \<Rightarrow> bytes \<Rightarrow> ram_store \<Rightarrow> ram_store" where
  "ram_set name value s = AList.update name value s"

definition ram_get :: "ram_store \<Rightarrow> rstr \<Rightarrow> bytes option" where
  "ram_get s name = map_of s name"

definition ram_delete :: "rstr \<Rightarrow> ram_store \<Rightarrow> ram_store" where
  "ram_delete name s = AList.delete name s"

definition ram_clear :: "ram_store \<Rightarrow> ram_store" where
  "ram_clear s = []"

text \<open>The store as an instance of \<open>secret_store\<close>: no call fails.\<close>

interpretation ram: secret_store "\<lambda>_ n v s. (Inr (), ram_set n v s)" "\<lambda>s n. Inr (ram_get s n)"
  "\<lambda>_. True" "\<lambda>_ n s. (Inr (ram_get s n \<noteq> None), ram_delete n s)"
  by unfold_locales (auto simp: ram_set_def ram_get_def ram_delete_def update_conv' delete_conv')

lemma ram_clear_get [simp]: "ram_get (ram_clear s) n = None" "ram_get ram_new n = None"
  by (simp_all add: ram_clear_def ram_new_def ram_get_def)

end
