(* ===== verification/Protocol.thy ===== *)
theory Protocol
  imports Errors Externals
begin

text \<open>
  \<open>src/cli/protocol.rs\<close>: the messages between client and agent and their framing, a 32-bit
  little-endian length and a \<open>bincode\<close> body. A writer holds what has been written and how many more
  bytes it takes before it fails; a reader is the bytes still to come. An error text inside a
  response is the error value that it formats.
\<close>

definition MAX_FRAME :: u32 where
  "MAX_FRAME = 16 * 1024 * 1024"

datatype request =
    ReqGet bytes rstr
  | ReqPut bytes rstr bytes
  | ReqList bytes
  | ReqStatus bytes
  | ReqSignout bytes

fun req_token :: "request \<Rightarrow> bytes" where
  "req_token (ReqGet token _) = token"
| "req_token (ReqPut token _ _) = token"
| "req_token (ReqList token) = token"
| "req_token (ReqStatus token) = token"
| "req_token (ReqSignout token) = token"

datatype response =
    RespSecret "bytes option"
  | RespNames "rstr list"
  | RespStatus bool rstr u64
  | RespOk
  | RespErr error

subsection \<open>Streams\<close>

record writer =
  w_out :: bytes
  w_room :: "nat option"

definition write_all :: "bytes \<Rightarrow> writer \<Rightarrow> (rstr + unit) \<times> writer" where
  "write_all bs w =
     (case w_room w of
        None \<Rightarrow> (Inr (), w\<lparr>w_out := w_out w @ bs\<rparr>)
      | Some room \<Rightarrow>
          if length bs \<le> room
          then (Inr (), w\<lparr>w_out := w_out w @ bs, w_room := Some (room - length bs)\<rparr>)
          else (Inl (lit ''Broken pipe''), w\<lparr>w_out := w_out w @ take room bs, w_room := Some 0\<rparr>))"

definition read_exact :: "nat \<Rightarrow> bytes \<Rightarrow> (rstr + bytes) \<times> bytes" where
  "read_exact n r =
     (if n \<le> length r then (Inr (take n r), drop n r)
      else (Inl (lit ''failed to fill whole buffer''), []))"

subsection \<open>Frames\<close>

definition write_msg :: "'a bincode \<Rightarrow> 'a \<Rightarrow> writer \<Rightarrow> (error + unit) \<times> writer" where
  "write_msg C msg w =
     (case ser C msg of
        Inl e \<Rightarrow> (Inl (Cli (SerializeFailed e)), w)
      | Inr body \<Rightarrow>
          if length body > unat MAX_FRAME then (Inl (Cli (MessageTooLarge (length body))), w)
          else
            let len = to_le 4 (word_of_nat (length body) :: u32) in
            (case write_all len w of
               (Inl e, w1) \<Rightarrow> (Inl (Cli (WriteFailed e)), w1)
             | (Inr _, w1) \<Rightarrow>
                 (case write_all body w1 of
                    (Inl e, w2) \<Rightarrow> (Inl (Cli (WriteFailed e)), w2)
                  | (Inr _, w2) \<Rightarrow> (Inr (), w2))))"

definition read_msg :: "'a bincode \<Rightarrow> bytes \<Rightarrow> (error + 'a) \<times> bytes" where
  "read_msg C r =
     (case read_exact 4 r of
        (Inl e, r1) \<Rightarrow> (Inl (Cli (ReadFailed e)), r1)
      | (Inr len_buf, r1) \<Rightarrow>
          let len = from_le len_buf :: u32 in
          if len > MAX_FRAME then (Inl (Cli (FrameTooLong len)), r1)
          else (case read_exact (unat len) r1 of
                  (Inl e, r2) \<Rightarrow> (Inl (Cli (ReadFailed e)), r2)
                | (Inr body, r2) \<Rightarrow> (map_err (Cli \<circ> DeserializeFailed) (de C body), r2)))"

subsection \<open>Lemmas\<close>

definition fresh_writer :: "nat option \<Rightarrow> writer" where
  "fresh_writer room = \<lparr>w_out = [], w_room = room\<rparr>"

definition frame :: "bytes \<Rightarrow> bytes" where
  "frame body = to_le 4 (word_of_nat (length body) :: u32) @ body"

lemma unat_MAX_FRAME: "unat MAX_FRAME = 16777216"
  by (simp add: MAX_FRAME_def)

lemma frame_len: "n \<le> unat MAX_FRAME \<Longrightarrow> unat (word_of_nat n :: u32) = n"
  by (simp add: unat_MAX_FRAME unat_of_nat)

lemma write_all_Inr: "write_all bs w = (Inr (), w') \<Longrightarrow> w_out w' = w_out w @ bs"
  by (auto simp: write_all_def split: option.splits if_splits)

lemma write_all_prefix: "write_all bs w = (r, w') \<Longrightarrow> \<exists>k. w_out w' = w_out w @ take k bs"
  by (auto simp: write_all_def split: option.splits if_splits intro: exI [of _ "length bs"])

lemma write_msg_Inr:
  assumes "write_msg C msg w = (Inr (), w')"
  obtains body where "ser C msg = Inr body" "length body \<le> unat MAX_FRAME"
    "w_out w' = w_out w @ frame body"
proof (cases "ser C msg")
  case (Inl e)
  with assms show ?thesis by (simp add: write_msg_def)
next
  case (Inr body)
  with assms have len: "length body \<le> unat MAX_FRAME"
    by (auto simp: write_msg_def not_less split: if_splits)
  with Inr assms obtain w1 where
      "write_all (to_le 4 (word_of_nat (length body) :: u32)) w = (Inr (), w1)"
      "write_all body w1 = (Inr (), w')"
    by (auto simp: write_msg_def Let_def split: prod.splits sum.splits)
  then have "w_out w' = w_out w @ frame body" by (auto dest!: write_all_Inr simp: frame_def)
  with Inr len show ?thesis by (rule that)
qed

lemma write_msg_fresh:
  "ser C msg = Inr body \<Longrightarrow> length body \<le> unat MAX_FRAME \<Longrightarrow>
     write_msg C msg (fresh_writer None) = (Inr (), \<lparr>w_out = frame body, w_room = None\<rparr>)"
  by (simp add: write_msg_def fresh_writer_def write_all_def frame_def Let_def)

lemma read_frame:
  assumes "length body \<le> unat MAX_FRAME"
  shows "read_msg C (frame body @ rest) = (map_err (Cli \<circ> DeserializeFailed) (de C body), rest)"
proof -
  let ?n = "word_of_nat (length body) :: u32"
  have n: "unat ?n = length body" using assms by (rule frame_len)
  have "\<not> ?n > MAX_FRAME" using assms n by (simp add: word_less_nat_alt not_less)
  with n show ?thesis
    by (simp add: read_msg_def read_exact_def frame_def)
qed

lemma read_write_msg:
  assumes "codec_ok C" "write_msg C msg w = (Inr (), w')"
  shows "\<exists>fr. w_out w' = w_out w @ fr \<and> (\<forall>rest. read_msg C (fr @ rest) = (Inr msg, rest))"
proof -
  obtain body where "ser C msg = Inr body" "length body \<le> unat MAX_FRAME"
      "w_out w' = w_out w @ frame body"
    using assms(2) by (rule write_msg_Inr)
  with read_frame [of body C] codec_okD [OF assms(1)] show ?thesis by fastforce
qed

subsection \<open>Whole conversations\<close>

fun write_msgs :: "'a bincode \<Rightarrow> 'a list \<Rightarrow> writer \<Rightarrow> (error + unit) \<times> writer" where
  "write_msgs C [] w = (Inr (), w)"
| "write_msgs C (m # ms) w =
     (case write_msg C m w of (Inl e, w1) \<Rightarrow> (Inl e, w1) | (Inr _, w1) \<Rightarrow> write_msgs C ms w1)"

fun read_msgs :: "'a bincode \<Rightarrow> nat \<Rightarrow> bytes \<Rightarrow> (error + 'a list) \<times> bytes" where
  "read_msgs C 0 r = (Inr [], r)"
| "read_msgs C (Suc n) r =
     (case read_msg C r of
        (Inl e, r1) \<Rightarrow> (Inl e, r1)
      | (Inr m, r1) \<Rightarrow>
          (case read_msgs C n r1 of (Inl e, r2) \<Rightarrow> (Inl e, r2) | (Inr ms, r2) \<Rightarrow> (Inr (m # ms), r2)))"

lemma read_write_msgs:
  assumes "codec_ok C"
  shows "write_msgs C ms w = (Inr (), w') \<Longrightarrow>
    \<exists>fr. w_out w' = w_out w @ fr \<and> (\<forall>rest. read_msgs C (length ms) (fr @ rest) = (Inr ms, rest))"
proof (induction ms arbitrary: w)
  case Nil
  then show ?case by simp
next
  case (Cons m ms)
  then obtain w1 where w1: "write_msg C m w = (Inr (), w1)" "write_msgs C ms w1 = (Inr (), w')"
    by (auto split: prod.splits sum.splits)
  obtain fr1 where fr1: "w_out w1 = w_out w @ fr1" "\<And>rest. read_msg C (fr1 @ rest) = (Inr m, rest)"
    using read_write_msg [OF assms w1(1)] by blast
  obtain fr2 where fr2: "w_out w' = w_out w1 @ fr2"
      "\<And>rest. read_msgs C (length ms) (fr2 @ rest) = (Inr ms, rest)"
    using Cons.IH [OF w1(2)] by blast
  show ?case
    using fr1 fr2 by (intro exI [of _ "fr1 @ fr2"]) simp
qed

subsection \<open>Properties\<close>

text \<open>Framing: whatever sequence of messages was written to a stream, reading back that many
  messages returns exactly them, in order, and stops where the next bytes begin.\<close>

theorem framing_roundtrip:
  assumes "codec_ok C" "write_msgs C ms (fresh_writer room) = (Inr (), w')"
  shows "read_msgs C (length ms) (w_out w' @ rest) = (Inr ms, rest)"
  using read_write_msgs [OF assms] by (auto simp: fresh_writer_def)

theorem framing_roundtrip_witness:
  "read_msgs (table_codec [ReqList [1], ReqSignout [2]]) 2
     (w_out (snd (write_msgs (table_codec [ReqList [1], ReqSignout [2]]) [ReqSignout [2], ReqList [1]]
        (fresh_writer None))) @ [7]) = (Inr [ReqSignout [2], ReqList [1]], [7])"
proof -
  let ?C = "table_codec [ReqList [1], ReqSignout [2]]" and ?ms = "[ReqSignout [2], ReqList [1]]"
  have "fst (write_msgs ?C ?ms (fresh_writer None)) = Inr ()"
    by (simp add: write_msg_def table_codec_def fresh_writer_def write_all_def unat_MAX_FRAME)
  then have "write_msgs ?C ?ms (fresh_writer None) = (Inr (), snd (write_msgs ?C ?ms (fresh_writer None)))"
    by (metis prod.collapse)
  from framing_roundtrip [OF table_codec_ok this, of "[7]"] show ?thesis
    by (simp add: numeral_2_eq_2)
qed

text \<open>The length prefix is checked before anything is buffered: a frame that announces more than
  16 MiB is refused whatever follows it, and a stream that ends early is a read error, never a
  partial message.\<close>

theorem read_msg_bounds:
  "read_msg C r =
     (if length r < 4 then (Inl (Cli (ReadFailed (lit ''failed to fill whole buffer''))), [])
      else if unat (from_le (take 4 r) :: u32) > 16777216
      then (Inl (Cli (FrameTooLong (from_le (take 4 r)))), drop 4 r)
      else if length r < 4 + unat (from_le (take 4 r) :: u32)
      then (Inl (Cli (ReadFailed (lit ''failed to fill whole buffer''))), [])
      else (map_err (Cli \<circ> DeserializeFailed)
              (de C (take (unat (from_le (take 4 r) :: u32)) (drop 4 r))),
            drop (4 + unat (from_le (take 4 r) :: u32)) r))"
proof -
  have "(from_le (take 4 r) :: u32) > MAX_FRAME \<longleftrightarrow> unat (from_le (take 4 r) :: u32) > 16777216"
    by (simp add: word_less_nat_alt unat_MAX_FRAME)
  then show ?thesis
    by (auto simp: read_msg_def read_exact_def Let_def not_less add.commute)
qed

end
