(* ===== verification/Name.thy ===== *)
theory Name
  imports Errors
begin

text \<open>
  \<open>src/core/name.rs\<close>: the rule for secret names. A name that passes can be shown on a terminal
  and is bounded in bytes; every place that takes a name from outside checks it here.
\<close>

definition MAX_NAME_LEN :: nat where
  "MAX_NAME_LEN = 256"

definition validate_secret_name :: "rstr \<Rightarrow> error + unit" where
  "validate_secret_name name =
     (if name = [] then Inl NameEmpty
      else if length (utf8 name) > MAX_NAME_LEN then Inl NameTooLong
      else if list_ex is_control name then Inl NameControl
      else Inr ())"

definition valid_name :: "rstr \<Rightarrow> bool" where
  "valid_name name \<longleftrightarrow>
     name \<noteq> [] \<and> length (utf8 name) \<le> 256 \<and> (\<forall>c\<in>set name. \<not> is_control c)"

lemma validate_secret_name_ok [simp]: "validate_secret_name name = Inr () \<longleftrightarrow> valid_name name"
  by (auto simp: validate_secret_name_def valid_name_def MAX_NAME_LEN_def list_ex_iff)

lemma validate_secret_name_cases:
  "validate_secret_name name = Inr () \<and> valid_name name
   \<or> (\<exists>e. validate_secret_name name = Inl e) \<and> \<not> valid_name name"
  by (auto simp: validate_secret_name_def valid_name_def MAX_NAME_LEN_def list_ex_iff)

lemma valid_name_ascii:
  "s \<noteq> [] \<Longrightarrow> length s \<le> 256 \<Longrightarrow> \<forall>c\<in>set s. 32 \<le> code_point c \<and> code_point c < 127 \<Longrightarrow> valid_name s"
proof -
  assume s: "s \<noteq> []" "length s \<le> 256" and c: "\<forall>c\<in>set s. 32 \<le> code_point c \<and> code_point c < 127"
  then have "is_ascii_str s" by (auto simp: is_ascii_str_def list_all_iff)
  with s c show ?thesis by (auto simp: valid_name_def length_utf8_ascii is_control_def)
qed

end
