(* ===== verification/LocalStore.thy ===== *)
theory LocalStore
  imports Kdf Name SecretStore "HOL-Library.AList" "HOL-Library.Multiset"
begin

text \<open>
  \<open>src/storage/local_store.rs\<close>: the vault file. A file is the header in clear, then the AEAD
  ciphertext of the serialized entries with the header as associated data. An open vault is the
  record \<open>local_store\<close>; the file system is a map from paths to contents, and a fault plan says
  which calls of the operating system fail, and how much an interrupted write has written. A
  \<open>HashMap\<close> is an association list with distinct keys; the order in which it is iterated is a
  parameter.
\<close>

subsection \<open>Data\<close>

record secret_entry =
  entry_name :: rstr
  encrypted_value :: bytes

record vault_header =
  h_salt :: bytes
  h_params :: argon2_params
  h_vdf_iterations :: u64

record local_store =
  st_path :: rstr
  st_master_key :: bytes
  st_header :: vault_header
  st_entries :: "(rstr \<times> secret_entry) list"

type_synonym fs = "rstr \<Rightarrow> bytes option"

text \<open>What the linked code does: the crates, \<open>bincode\<close> at the payload type, the iteration order.\<close>

record vault_env =
  v_crates :: crates
  v_codec :: "secret_entry list bincode"
  v_iter :: "(rstr \<times> secret_entry) list \<Rightarrow> (rstr \<times> secret_entry) list"

text \<open>
  What happens during one call: the nonces drawn and the faults of the operating system. A failed
  write leaves no file, or a file with the first bytes only.
\<close>

record op_env =
  value_nonce :: bytes
  file_nonce :: bytes
  create_fault :: "rstr option"
  read_fault :: "rstr option"
  write_fault :: "(nat option \<times> rstr) option"
  rename_fault :: "rstr option"
  remove_fails :: bool

definition no_faults :: "op_env \<Rightarrow> bool" where
  "no_faults c \<longleftrightarrow> create_fault c = None \<and> read_fault c = None \<and> write_fault c = None \<and> rename_fault c = None"

subsection \<open>The header\<close>

definition MAGIC :: bytes where
  "MAGIC = utf8 (lit ''SSV1'')"

definition HEADER_VERSION :: byte where
  "HEADER_VERSION = 1"

definition SALT_LEN :: nat where
  "SALT_LEN = 32"

definition HEADER_LEN :: nat where
  "HEADER_LEN = 4 + 1 + SALT_LEN + 4 + 4 + 4 + 8"

definition MAX_VAULT_LEN :: nat where
  "MAX_VAULT_LEN = 32 * 1024 * 1024"

definition header_to_bytes :: "vault_header \<Rightarrow> bytes" where
  "header_to_bytes h =
     MAGIC @ [HEADER_VERSION] @ h_salt h
     @ to_le 4 (argon_time (h_params h)) @ to_le 4 (argon_memory (h_params h))
     @ to_le 4 (argon_threads (h_params h)) @ to_le 8 (h_vdf_iterations h)"

definition MIN_ARGON_MEMORY_KIB :: u32 where [simp]: "MIN_ARGON_MEMORY_KIB = 8 * 1024"
definition MAX_ARGON_MEMORY_KIB :: u32 where [simp]: "MAX_ARGON_MEMORY_KIB = 1024 * 1024"
definition MIN_ARGON_TIME :: u32 where [simp]: "MIN_ARGON_TIME = 1"
definition MAX_ARGON_TIME :: u32 where [simp]: "MAX_ARGON_TIME = 32"
definition MIN_ARGON_THREADS :: u32 where [simp]: "MIN_ARGON_THREADS = 1"
definition MAX_ARGON_THREADS :: u32 where [simp]: "MAX_ARGON_THREADS = 16"

definition validate_kdf_params :: "argon2_params \<Rightarrow> u64 \<Rightarrow> error + unit" where
  "validate_kdf_params params vdf_iterations =
     (if \<not> (MIN_ARGON_TIME \<le> argon_time params \<and> argon_time params \<le> MAX_ARGON_TIME)
      then Inl (ArgonTimeRange (argon_time params))
      else if \<not> (MIN_ARGON_MEMORY_KIB \<le> argon_memory params \<and> argon_memory params \<le> MAX_ARGON_MEMORY_KIB)
      then Inl (ArgonMemoryRange (argon_memory params))
      else if \<not> (MIN_ARGON_THREADS \<le> argon_threads params \<and> argon_threads params \<le> MAX_ARGON_THREADS)
      then Inl (ArgonThreadsRange (argon_threads params))
      else if vdf_iterations > MAX_VDF_ITERATIONS then Inl (VdfTooLarge vdf_iterations)
      else Inr ())"

definition subslice :: "nat \<Rightarrow> nat \<Rightarrow> bytes \<Rightarrow> bytes" where
  "subslice off len bs = take len (drop off bs)"

definition header_parse :: "bytes \<Rightarrow> error + (vault_header \<times> bytes)" where
  "header_parse data =
     (if length data < HEADER_LEN then Inl HeaderTooShort
      else
        let header = take HEADER_LEN data; ciphertext = drop HEADER_LEN data in
        if subslice 0 4 header \<noteq> MAGIC then Inl BadMagic
        else if header ! 4 \<noteq> HEADER_VERSION then Inl (BadVersion (header ! 4))
        else
          let salt = subslice 5 SALT_LEN header;
              off = 5 + SALT_LEN;
              params = \<lparr>argon_time = from_le (subslice off 4 header),
                        argon_memory = from_le (subslice (off + 4) 4 header),
                        argon_threads = from_le (subslice (off + 8) 4 header)\<rparr>;
              vdf_iterations = from_le (subslice (off + 12) 8 header)
          in and_then (validate_kdf_params params vdf_iterations) (\<lambda>_.
               Inr (\<lparr>h_salt = salt, h_params = params, h_vdf_iterations = vdf_iterations\<rparr>,
                    ciphertext)))"

subsection \<open>Saving\<close>

definition tmp_path :: "rstr \<Rightarrow> rstr" where
  "tmp_path path = path @ lit ''.tmp''"

text \<open>The bytes of the file: what \<open>save\<close> computes before it touches the disk.\<close>

definition vault_bytes :: "vault_env \<Rightarrow> op_env \<Rightarrow> local_store \<Rightarrow> error + bytes" where
  "vault_bytes E c st =
     (let entries_vec = map snd (v_iter E (st_entries st)) in
      and_then (map_err SerializeVaultFailed (ser (v_codec E) entries_vec)) (\<lambda>payload_bytes.
      let header_bytes = header_to_bytes (st_header st) in
      and_then (map_err EncryptVaultFailed
        (encrypt_aad (v_crates E) (st_master_key st) (file_nonce c) payload_bytes header_bytes))
        (\<lambda>encrypted. Inr (header_bytes @ encrypted))))"

definition fs_write :: "op_env \<Rightarrow> rstr \<Rightarrow> bytes \<Rightarrow> fs \<Rightarrow> (rstr + unit) \<times> fs" where
  "fs_write c path bs fs =
     (case write_fault c of
        None \<Rightarrow> (Inr (), fs(path \<mapsto> bs))
      | Some (None, e) \<Rightarrow> (Inl e, fs)
      | Some (Some k, e) \<Rightarrow> (Inl e, fs(path \<mapsto> take k bs)))"

definition fs_rename :: "op_env \<Rightarrow> rstr \<Rightarrow> rstr \<Rightarrow> fs \<Rightarrow> (rstr + unit) \<times> fs" where
  "fs_rename c old new fs =
     (case rename_fault c of
        None \<Rightarrow> (Inr (), (fs(new := fs old))(old := None))
      | Some e \<Rightarrow> (Inl e, fs))"

definition fs_remove :: "op_env \<Rightarrow> rstr \<Rightarrow> fs \<Rightarrow> fs" where
  "fs_remove c path fs = (if remove_fails c then fs else fs(path := None))"

definition ls_save :: "vault_env \<Rightarrow> op_env \<Rightarrow> local_store \<Rightarrow> fs \<Rightarrow> (error + unit) \<times> fs" where
  "ls_save E c st fs =
     (case vault_bytes E c st of
        Inl e \<Rightarrow> (Inl e, fs)
      | Inr file_bytes \<Rightarrow>
          let tmp = tmp_path (st_path st) in
          (case fs_write c tmp file_bytes fs of
             (Inl e, fs1) \<Rightarrow> (Inl (WriteVaultFailed e), fs1)
           | (Inr _, fs1) \<Rightarrow>
               (case fs_rename c tmp (st_path st) fs1 of
                  (Inl e, fs2) \<Rightarrow> (Inl (FinalizeVaultFailed e), fs_remove c tmp fs2)
                | (Inr _, fs2) \<Rightarrow> (Inr (), fs2))))"

subsection \<open>Creating and opening\<close>

definition ls_create ::
  "vault_env \<Rightarrow> op_env \<Rightarrow> rstr \<Rightarrow> bytes \<Rightarrow> bytes \<Rightarrow> argon2_params \<Rightarrow> u64 \<Rightarrow> bytes option \<Rightarrow> fs
     \<Rightarrow> (error + local_store) \<times> fs" where
  "ls_create E c path passphrase salt params vdf_iterations hardware_key fs =
     (if length salt \<noteq> SALT_LEN then (Inl (SaltLength (length salt)), fs)
      else case validate_kdf_params params vdf_iterations of
        Inl e \<Rightarrow> (Inl e, fs)
      | Inr _ \<Rightarrow>
          (case (if fs path \<noteq> None then Some (lit ''File exists'') else create_fault c) of
             Some e \<Rightarrow> (Inl (CreateVaultFailed path e), fs)
           | None \<Rightarrow>
               let fs1 = fs(path \<mapsto> []) in
               (case derive_key (v_crates E) passphrase salt params vdf_iterations hardware_key of
                  Inl e \<Rightarrow> (Inl e, fs1)
                | Inr master_key \<Rightarrow>
                    let st = \<lparr>st_path = path, st_master_key = master_key,
                              st_header = \<lparr>h_salt = salt, h_params = params,
                                           h_vdf_iterations = vdf_iterations\<rparr>,
                              st_entries = []\<rparr>
                    in (case ls_save E c st fs1 of
                          (Inl e, fs2) \<Rightarrow> (Inl e, fs2)
                        | (Inr _, fs2) \<Rightarrow> (Inr st, fs2)))))"

definition insert_all :: "secret_entry list \<Rightarrow> (rstr \<times> secret_entry) list" where
  "insert_all es = fold (\<lambda>e m. AList.update (entry_name e) e m) es []"

definition ls_open ::
  "vault_env \<Rightarrow> op_env \<Rightarrow> rstr \<Rightarrow> bytes \<Rightarrow> bytes option \<Rightarrow> fs \<Rightarrow> error + local_store" where
  "ls_open E c path passphrase hardware_key fs =
     (case (read_fault c, fs path) of
        (Some e, _) \<Rightarrow> Inl (ReadVaultFailed e)
      | (None, None) \<Rightarrow> Inl (ReadVaultFailed (lit ''No such file or directory''))
      | (None, Some data) \<Rightarrow>
          if length data > MAX_VAULT_LEN then Inl (VaultTooLarge (length data))
          else
            and_then (header_parse data) (\<lambda>(header, ciphertext).
            let header_bytes = header_to_bytes header in
            and_then (derive_key (v_crates E) passphrase (h_salt header) (h_params header)
                (h_vdf_iterations header) hardware_key) (\<lambda>master_key.
            and_then (map_err DecryptVaultFailed
                (decrypt_aad (v_crates E) master_key ciphertext header_bytes)) (\<lambda>payload_bytes.
            and_then (map_err DeserializeVaultFailed (de (v_codec E) payload_bytes)) (\<lambda>payload.
            Inr \<lparr>st_path = path, st_master_key = master_key, st_header = header,
                 st_entries = insert_all payload\<rparr>)))))"

subsection \<open>Entries\<close>

definition ls_set ::
  "vault_env \<Rightarrow> op_env \<Rightarrow> rstr \<Rightarrow> bytes \<Rightarrow> local_store \<times> fs \<Rightarrow> (error + unit) \<times> local_store \<times> fs" where
  "ls_set E c name value = (\<lambda>(st, fs).
     let st' = st\<lparr>st_entries := AList.update name \<lparr>entry_name = name, encrypted_value = value\<rparr>
                   (st_entries st)\<rparr>;
         (r, fs') = ls_save E c st' fs
     in (r, st', fs'))"

definition ls_get :: "local_store \<Rightarrow> rstr \<Rightarrow> bytes option" where
  "ls_get st name = map_option encrypted_value (map_of (st_entries st) name)"

definition value_key :: "crates \<Rightarrow> bytes \<Rightarrow> error + bytes" where
  "value_key X master_key =
     map_err (\<lambda>_. Panic (lit ''32 is a valid HKDF-SHA512 output length''))
       (hkdf_sha512 X None master_key (utf8 (lit ''simple-secrets/value-key/v1'')) 32)"

definition ls_put_secret ::
  "vault_env \<Rightarrow> op_env \<Rightarrow> rstr \<Rightarrow> bytes \<Rightarrow> local_store \<times> fs \<Rightarrow> (error + unit) \<times> local_store \<times> fs" where
  "ls_put_secret E c name plaintext = (\<lambda>(st, fs).
     case and_then (validate_secret_name name) (\<lambda>_.
          and_then (value_key (v_crates E) (st_master_key st)) (\<lambda>vk.
          map_err SealSecretFailed
            (encrypt_aad (v_crates E) vk (value_nonce c) plaintext (utf8 name)))) of
       Inl e \<Rightarrow> (Inl e, st, fs)
     | Inr ciphertext \<Rightarrow> ls_set E c name ciphertext (st, fs))"

definition ls_get_secret :: "vault_env \<Rightarrow> local_store \<Rightarrow> rstr \<Rightarrow> error + bytes option" where
  "ls_get_secret E st name =
     (case ls_get st name of
        None \<Rightarrow> Inr None
      | Some ciphertext \<Rightarrow>
          and_then (value_key (v_crates E) (st_master_key st)) (\<lambda>vk.
          and_then (map_err OpenSecretFailed (decrypt_aad (v_crates E) vk ciphertext (utf8 name)))
            (\<lambda>plaintext. Inr (Some plaintext))))"

definition ls_names :: "vault_env \<Rightarrow> local_store \<Rightarrow> rstr list" where
  "ls_names E st = map fst (v_iter E (st_entries st))"

definition ls_delete_secret ::
  "vault_env \<Rightarrow> op_env \<Rightarrow> rstr \<Rightarrow> local_store \<times> fs \<Rightarrow> (error + bool) \<times> local_store \<times> fs" where
  "ls_delete_secret E c name = (\<lambda>(st, fs).
     if map_of (st_entries st) name \<noteq> None
     then
       let st' = st\<lparr>st_entries := AList.delete name (st_entries st)\<rparr>;
           (r, fs') = ls_save E c st' fs
       in (map_ok (\<lambda>_. True) r, st', fs')
     else (Inr False, st, fs))"

subsection \<open>Header lemmas\<close>

lemmas header_consts = HEADER_LEN_def SALT_LEN_def HEADER_VERSION_def

lemma length_MAGIC [simp]: "length MAGIC = 4"
  by (simp add: MAGIC_def encode_utf8_ascii ascii_def)

lemma length_header [simp]: "length (header_to_bytes h) = 25 + length (h_salt h)"
  by (simp add: header_to_bytes_def)

lemma subslice_join: "subslice a m H @ subslice (a + m) n H = subslice a (m + n) H"
  by (simp add: subslice_def take_add add.commute)

lemma subslice_all: "subslice 0 (length H) H = H"
  by (simp add: subslice_def)

lemma subslice_one: "i < length H \<Longrightarrow> subslice i 1 H = [H ! i]"
  by (simp add: subslice_def take_Suc_conv_app_nth Cons_nth_drop_Suc [symmetric])

lemma length_subslice: "a + n \<le> length H \<Longrightarrow> length (subslice a n H) = n"
  by (simp add: subslice_def)

lemma subslice_append_skip: "length xs \<le> a \<Longrightarrow> subslice a n (xs @ ys) = subslice (a - length xs) n ys"
  by (simp add: subslice_def)

lemma subslice_Cons: "0 < a \<Longrightarrow> subslice a n (x # xs) = subslice (a - 1) n xs"
  by (cases a) (simp_all add: subslice_def)

lemma subslice_append_here: "length xs = n \<Longrightarrow> subslice 0 n (xs @ ys) = xs"
  by (simp add: subslice_def)

lemma subslice_exact: "length xs = n \<Longrightarrow> subslice 0 n xs = xs"
  by (simp add: subslice_def)

definition header_ok :: "vault_header \<Rightarrow> bool" where
  "header_ok h \<longleftrightarrow> length (h_salt h) = 32
     \<and> validate_kdf_params (h_params h) (h_vdf_iterations h) = Inr ()"

lemma header_parse_encoded:
  assumes s: "length (h_salt h) = 32"
  shows "header_parse (header_to_bytes h @ ct)
    = and_then (validate_kdf_params (h_params h) (h_vdf_iterations h)) (\<lambda>_. Inr (h, ct))"
proof -
  let ?H = "header_to_bytes h"
  from s have H: "take HEADER_LEN (?H @ ct) = ?H" "drop HEADER_LEN (?H @ ct) = ct"
    by (simp_all add: header_consts)
  have "subslice 0 4 ?H = MAGIC" "?H ! 4 = 1" "subslice 5 32 ?H = h_salt h"
    "subslice 37 4 ?H = to_le 4 (argon_time (h_params h))"
    "subslice 41 4 ?H = to_le 4 (argon_memory (h_params h))"
    "subslice 45 4 ?H = to_le 4 (argon_threads (h_params h))"
    "subslice 49 8 ?H = to_le 8 (h_vdf_iterations h)"
    using s by (simp_all add: header_to_bytes_def header_consts subslice_append_skip subslice_Cons
        subslice_append_here subslice_exact nth_append)
  moreover obtain sa t m th v where
      "h = \<lparr>h_salt = sa, h_params = \<lparr>argon_time = t, argon_memory = m, argon_threads = th\<rparr>,
            h_vdf_iterations = v\<rparr>"
    by (metis argon2_params.cases vault_header.cases)
  ultimately show ?thesis
    using H s by (simp add: header_parse_def Let_def header_consts)
qed

lemma header_parse_to_bytes: "header_ok h \<Longrightarrow> header_parse (header_to_bytes h @ ct) = Inr (h, ct)"
  by (simp add: header_parse_encoded header_ok_def)

lemma header_split:
  assumes "length H = 57"
  shows "H = subslice 0 4 H @ [H ! 4] @ subslice 5 32 H @ subslice 37 4 H @ subslice 41 4 H @ subslice 45 4 H
    @ subslice 49 8 H"
proof -
  have one: "[H ! 4] = subslice 4 1 H" using assms subslice_one [of 4 H] by simp
  have "subslice 0 4 H @ subslice 4 1 H @ subslice 5 32 H @ subslice 37 4 H @ subslice 41 4 H @ subslice 45 4 H
      @ subslice 49 8 H = subslice 0 57 H"
    using subslice_join [of 0 4 H 53] subslice_join [of 4 1 H 52] subslice_join [of 5 32 H 20]
      subslice_join [of 37 4 H 16] subslice_join [of 41 4 H 12] subslice_join [of 45 4 H 8] by simp
  with one assms subslice_all [of H] show ?thesis by simp
qed

lemma header_parse_canonical:
  assumes "header_parse data = Inr (h, ct)"
  shows "data = header_to_bytes h @ ct" "header_ok h"
proof -
  let ?H = "take HEADER_LEN data"
  have len: "length ?H = 57" and ct: "ct = drop HEADER_LEN data"
    and m: "subslice 0 4 ?H = MAGIC" "?H ! 4 = HEADER_VERSION"
    and h: "h_salt h = subslice 5 32 ?H" "argon_time (h_params h) = from_le (subslice 37 4 ?H)"
      "argon_memory (h_params h) = from_le (subslice 41 4 ?H)"
      "argon_threads (h_params h) = from_le (subslice 45 4 ?H)"
      "h_vdf_iterations h = from_le (subslice 49 8 ?H)"
    and v: "validate_kdf_params (h_params h) (h_vdf_iterations h) = Inr ()"
    using assms
    by (auto simp: header_parse_def Let_def header_consts res_simps not_less split: if_splits)
  have "header_to_bytes h = ?H"
    using header_split [OF len] m h len
    by (simp add: header_to_bytes_def to_from_le_u32 to_from_le_u64 length_subslice)
  then show "data = header_to_bytes h @ ct" using ct by (metis append_take_drop_id)
  show "header_ok h" using v h(1) len by (simp add: header_ok_def length_subslice)
qed

subsection \<open>Entries as a map\<close>

definition iter_ok :: "vault_env \<Rightarrow> bool" where
  "iter_ok E \<longleftrightarrow> (\<forall>m. mset (v_iter E m) = mset m)"

definition entries_wf :: "(rstr \<times> secret_entry) list \<Rightarrow> bool" where
  "entries_wf es \<longleftrightarrow> distinct (map fst es) \<and> (\<forall>(k, e)\<in>set es. entry_name e = k)"

lemma entries_wf_update:
  "entries_wf es \<Longrightarrow> entries_wf (AList.update n \<lparr>entry_name = n, encrypted_value = v\<rparr> es)"
proof -
  assume wf: "entries_wf es"
  have "entry_name e = k" if "(k, e) \<in> set (AList.update n \<lparr>entry_name = n, encrypted_value = v\<rparr> es)" for k e
  proof -
    have "distinct (map fst (AList.update n \<lparr>entry_name = n, encrypted_value = v\<rparr> es))"
      using wf by (simp add: entries_wf_def distinct_update)
    with that have "map_of (AList.update n \<lparr>entry_name = n, encrypted_value = v\<rparr> es) k = Some e"
      by simp
    then show ?thesis
      using wf by (auto simp: update_conv' entries_wf_def split: if_splits dest: map_of_SomeD)
  qed
  with wf show ?thesis by (auto simp: entries_wf_def distinct_update)
qed

lemma entries_wf_delete: "entries_wf es \<Longrightarrow> entries_wf (AList.delete n es)"
  proof -
  assume wf: "entries_wf es"
  then have "distinct (map fst (AList.delete n es))" by (simp add: entries_wf_def distinct_delete)
  with wf show ?thesis by (auto simp: entries_wf_def AList.delete_eq)
qed

lemma map_of_insert_all:
  "map_of (fold (\<lambda>e m. AList.update (entry_name e) e m) es m0)
     = map_of m0 ++ map_of (rev (map (\<lambda>e. (entry_name e, e)) es))"
  by (induction es arbitrary: m0) (simp_all add: update_conv')

lemma insert_all_iter:
  assumes "iter_ok E" "entries_wf es"
  shows "map_of (insert_all (map snd (v_iter E es))) = map_of es"
    and "entries_wf (insert_all (map snd (v_iter E es)))"
proof -
  let ?xs = "v_iter E es"
  have m: "mset ?xs = mset es" using assms(1) by (simp add: iter_ok_def)
  then have set: "set ?xs = set es" by (rule mset_eq_setD)
  have "mset (map fst ?xs) = mset (map fst es)" using m by simp
  then have d: "distinct (map fst ?xs)"
    using assms(2) mset_eq_imp_distinct_iff by (metis entries_wf_def)
  have "map (\<lambda>e. (entry_name e, e)) (map snd ?xs) = ?xs"
    using assms(2) set by (auto simp: entries_wf_def intro!: map_idI)
  then have "map_of (insert_all (map snd ?xs)) = map_of (rev ?xs)"
    using map_of_insert_all [of "map snd ?xs" "[]"] by (simp add: insert_all_def)
  also have "\<dots> = map_of es"
    using d set assms(2) by (subst map_of_inject_set) (auto simp: entries_wf_def rev_map [symmetric])
  finally show eq: "map_of (insert_all (map snd ?xs)) = map_of es" .
  have "distinct (map fst (fold (\<lambda>e m. AList.update (entry_name e) e m) ys m0))"
    if "distinct (map fst m0)" for ys :: "secret_entry list" and m0
    using that by (induction ys arbitrary: m0) (simp_all add: distinct_update)
  then have "distinct (map fst (insert_all (map snd ?xs)))" by (simp add: insert_all_def)
  with eq assms(2) show "entries_wf (insert_all (map snd ?xs))"
    unfolding entries_wf_def by (metis map_of_inject_set)
qed

end
