(* ===== verification/StepSystem.thy ===== *)
theory StepSystem
  imports Main
begin

text \<open>
  The two interfaces of the transition systems of the development. A system with an invariant, which the
  agent's process, the clipboard, the socket path and a save on the disk are; and a system that implements
  an abstract one event by event, which the agent's connections do. What follows for whole runs is proved
  once, here.
\<close>

subsection \<open>Invariants\<close>

locale step_invariant =
  fixes step :: "'s \<Rightarrow> 's \<Rightarrow> bool"
    and inv :: "'s \<Rightarrow> bool"
  assumes inv_step: "step s s' \<Longrightarrow> inv s \<Longrightarrow> inv s'"
begin

lemma inv_run: "step\<^sup>*\<^sup>* s s' \<Longrightarrow> inv s \<Longrightarrow> inv s'"
  by (induction rule: rtranclp_induct) (auto intro: inv_step)

text \<open>What no step changes as long as the invariant holds, no run changes.\<close>

lemma fixed_run:
  assumes "\<And>t t'. inv t \<Longrightarrow> step t t' \<Longrightarrow> f t' = f t" "step\<^sup>*\<^sup>* s s'" "inv s"
  shows "f s' = f s"
  using assms(2)
proof (induction rule: rtranclp_induct)
  case (step t u)
  then show ?case using assms(1) [of t u] inv_run [OF step(1) assms(3)] by simp
qed simp

end

text \<open>Every measure that the steps of the system can bring to an end, they bring to an end.\<close>

locale step_progress = step_invariant step inv
  for step :: "'s \<Rightarrow> 's \<Rightarrow> bool" and inv :: "'s \<Rightarrow> bool" +
  fixes over :: "'s \<Rightarrow> bool" and left :: "'s \<Rightarrow> nat" and quiet :: "'s \<Rightarrow> 's \<Rightarrow> bool"
  assumes progress: "inv s \<Longrightarrow> \<not> over s
      \<Longrightarrow> \<exists>s'. step\<^sup>*\<^sup>* s s' \<and> quiet s s' \<and> (over s' \<or> left s' < left s)"
    and quiet_trans: "quiet s t \<Longrightarrow> quiet t u \<Longrightarrow> quiet s u"
begin

lemma ends: "inv s \<Longrightarrow> \<not> over s \<Longrightarrow> \<exists>s'. step\<^sup>*\<^sup>* s s' \<and> quiet s s' \<and> over s'"
proof (induction "left s" arbitrary: s rule: less_induct)
  case less
  obtain t where t: "step\<^sup>*\<^sup>* s t" "quiet s t" "over t \<or> left t < left s" using progress less.prems by blast
  show ?case
  proof (cases "over t")
    case False
    then obtain u where "step\<^sup>*\<^sup>* t u" "quiet t u" "over u"
      using less.hyps [of t] t inv_run less.prems(1) by blast
    with t show ?thesis using quiet_trans rtranclp_trans by metis
  qed (use t in blast)
qed

end

subsection \<open>Refinement\<close>

text \<open>Runs with their events.\<close>

fun runs :: "('s \<Rightarrow> 'e \<Rightarrow> 's \<Rightarrow> bool) \<Rightarrow> 's \<Rightarrow> 'e list \<Rightarrow> 's \<Rightarrow> bool" where
  "runs step s [] s' \<longleftrightarrow> s' = s"
| "runs step s (e # es) s' \<longleftrightarrow> (\<exists>t. step s e t \<and> runs step t es s')"

lemma runs_append: "runs step s (es @ es') s' \<longleftrightarrow> (\<exists>t. runs step s es t \<and> runs step t es' s')"
  by (induction es arbitrary: s) auto

locale refines =
  fixes step :: "'s \<Rightarrow> 'e \<Rightarrow> 's \<Rightarrow> bool"
    and spec :: "'t \<Rightarrow> 'e \<Rightarrow> 't \<Rightarrow> bool"
    and rel :: "'s \<Rightarrow> 't \<Rightarrow> bool"
  assumes simulates: "rel s t \<Longrightarrow> step s e s' \<Longrightarrow> \<exists>t'. spec t e t' \<and> rel s' t'"
begin

lemma runs_refine: "rel s t \<Longrightarrow> runs step s es s' \<Longrightarrow> \<exists>t'. runs spec t es t' \<and> rel s' t'"
proof (induction es arbitrary: s t)
  case (Cons e es)
  then obtain s1 where "step s e s1" "runs step s1 es s'" by auto
  moreover from this obtain t1 where "spec t e t1" "rel s1 t1" using simulates Cons.prems(1) by blast
  ultimately show ?case using Cons.IH by (metis runs.simps(2))
qed auto

end

end
