(* ===== verification/VaultDurability.thy ===== *)
theory VaultDurability
  imports LocalStore StepSystem
begin

text \<open>
  What the vault file guarantees: a saved store can be reopened with the same passphrase and holds
  the same secrets, a call that fails or is interrupted leaves the previous vault readable, and the
  operations of \<open>local_store\<close> implement the interface \<open>secret_store\<close>.
\<close>

subsection \<open>Saving\<close>

lemma tmp_path_neq [simp]: "tmp_path p \<noteq> p" "p \<noteq> tmp_path p"
  by (simp_all add: tmp_path_def)

text \<open>Whatever happens, \<open>save\<close> touches the vault's own path and its temporary sibling only, and at
  the vault's path it either succeeds with the complete file or changes nothing.\<close>

lemma ls_save_cases:
  assumes "ls_save E c st fs = (r, fs')"
  obtains (ok) bs where "r = Inr ()" "vault_bytes E c st = Inr bs" "fs' (st_path st) = Some bs"
    "fs' (tmp_path (st_path st)) = None"
    "\<And>p. p \<noteq> st_path st \<Longrightarrow> p \<noteq> tmp_path (st_path st) \<Longrightarrow> fs' p = fs p"
  | (failed) e where "r = Inl e" "fs' (st_path st) = fs (st_path st)"
    "\<And>p. p \<noteq> st_path st \<Longrightarrow> p \<noteq> tmp_path (st_path st) \<Longrightarrow> fs' p = fs p"
  using assms
  by (auto simp: ls_save_def fs_write_def fs_rename_def fs_remove_def Let_def
      split: sum.splits option.splits prod.splits if_splits)

lemma ls_save_failed_disk:
  "ls_save E c st fs = (Inl e, fs') \<Longrightarrow> fs' (st_path st) = fs (st_path st)"
  by (erule ls_save_cases) simp_all

lemma ls_save_written:
  "ls_save E c st fs = (Inr (), fs') \<Longrightarrow> \<exists>bs. vault_bytes E c st = Inr bs \<and> fs' (st_path st) = Some bs"
  by (erule ls_save_cases) auto

text \<open>Without faults a save succeeds whenever the payload can be serialized and encrypted.\<close>

lemma ls_save_ok:
  assumes "no_faults c" "vault_bytes E c st = Inr bs"
  shows "ls_save E c st fs = (Inr (), fs(st_path st \<mapsto> bs, tmp_path (st_path st) := None))"
  using assms by (simp add: ls_save_def no_faults_def fs_write_def fs_rename_def Let_def)

subsection \<open>Opening what was saved\<close>

definition keyed :: "vault_env \<Rightarrow> bytes \<Rightarrow> bytes option \<Rightarrow> local_store \<Rightarrow> bool" where
  "keyed E pw hw st \<longleftrightarrow>
     header_ok (st_header st)
     \<and> derive_key (v_crates E) pw (h_salt (st_header st)) (h_params (st_header st))
         (h_vdf_iterations (st_header st)) hw = Inr (st_master_key st)"

definition same_vault :: "local_store \<Rightarrow> local_store \<Rightarrow> bool" where
  "same_vault a b \<longleftrightarrow>
     st_path a = st_path b \<and> st_master_key a = st_master_key b \<and> st_header a = st_header b
     \<and> map_of (st_entries a) = map_of (st_entries b)"

text \<open>The linked code behaves as documented.\<close>

definition env_good :: "vault_env \<Rightarrow> bool" where
  "env_good E \<longleftrightarrow> aead_aad_ok (v_crates E) \<and> codec_ok (v_codec E) \<and> iter_ok E"

lemma vault_bytes_parts:
  assumes "vault_bytes E c st = Inr bs"
  obtains pb ct where "ser (v_codec E) (map snd (v_iter E (st_entries st))) = Inr pb"
    "encrypt_aad (v_crates E) (st_master_key st) (file_nonce c) pb (header_to_bytes (st_header st)) = Inr ct"
    "bs = header_to_bytes (st_header st) @ ct"
  using assms by (auto simp: vault_bytes_def Let_def res_simps)

lemma ls_open_vault_bytes:
  assumes E: "env_good E" and st: "keyed E pw hw st" "entries_wf (st_entries st)"
    and bs: "vault_bytes E c st = Inr bs" "fs (st_path st) = Some bs" "length bs \<le> MAX_VAULT_LEN"
    and c': "read_fault c' = None"
  shows "\<exists>st'. ls_open E c' (st_path st) pw hw fs = Inr st' \<and> same_vault st' st
    \<and> entries_wf (st_entries st')"
proof -
  obtain pb ct where p: "ser (v_codec E) (map snd (v_iter E (st_entries st))) = Inr pb"
    "encrypt_aad (v_crates E) (st_master_key st) (file_nonce c) pb (header_to_bytes (st_header st)) = Inr ct"
    "bs = header_to_bytes (st_header st) @ ct"
    using bs(1) by (rule vault_bytes_parts)
  have "header_parse bs = Inr (st_header st, ct)"
    using st(1) p(3) by (simp add: keyed_def header_parse_to_bytes)
  moreover have "decrypt_aad (v_crates E) (st_master_key st) ct (header_to_bytes (st_header st)) = Inr pb"
    using E p(2) by (auto simp: env_good_def dest: aead_aad_okD)
  moreover have "de (v_codec E) pb = Inr (map snd (v_iter E (st_entries st)))"
    using E p(1) by (auto simp: env_good_def dest: codec_okD)
  ultimately have "ls_open E c' (st_path st) pw hw fs
      = Inr \<lparr>st_path = st_path st, st_master_key = st_master_key st, st_header = st_header st,
             st_entries = insert_all (map snd (v_iter E (st_entries st)))\<rparr>"
    using bs c' st(1) by (simp add: ls_open_def keyed_def)
  then show ?thesis
    using insert_all_iter E st(2) by (auto simp: env_good_def same_vault_def)
qed

lemma same_vault_get: "same_vault a b \<Longrightarrow> ls_get_secret E a n = ls_get_secret E b n"
  by (simp add: same_vault_def ls_get_secret_def ls_get_def split: option.splits)

text \<open>Whatever file \<open>open\<close> accepts, the store it returns is keyed by the passphrase.\<close>

lemma entries_wf_insert_all: "entries_wf (insert_all es)"
proof -
  have "entries_wf m \<Longrightarrow> entries_wf (AList.update (entry_name e) e m)" for e :: secret_entry and m
    using entries_wf_update [of m "entry_name e" "encrypted_value e"] by (cases e) simp
  then have "entries_wf m \<Longrightarrow> entries_wf (fold (\<lambda>e m. AList.update (entry_name e) e m) es m)" for m
    by (induction es arbitrary: m) simp_all
  from this [of "[]"] show ?thesis by (simp add: insert_all_def entries_wf_def)
qed

lemma ls_open_keyed:
  assumes "ls_open E c path pw hw fs = Inr st"
  shows "keyed E pw hw st" "entries_wf (st_entries st)" "st_path st = path"
proof -
  obtain data h ct k es where "header_parse data = Inr (h, ct)"
      "derive_key (v_crates E) pw (h_salt h) (h_params h) (h_vdf_iterations h) hw = Inr k"
      "st = \<lparr>st_path = path, st_master_key = k, st_header = h, st_entries = insert_all es\<rparr>"
    using assms
    by (auto simp: ls_open_def Let_def res_simps split: option.splits prod.splits if_splits)
  then show "keyed E pw hw st" "entries_wf (st_entries st)" "st_path st = path"
    using header_parse_canonical by (auto simp: keyed_def entries_wf_insert_all)
qed

subsection \<open>The operations implement a secret store\<close>

lemma ls_get_update:
  "ls_get (st\<lparr>st_entries := AList.update n \<lparr>entry_name = n, encrypted_value = v\<rparr> (st_entries st)\<rparr>) k
     = (if k = n then Some v else ls_get st k)"
  by (simp add: ls_get_def update_conv')

lemma ls_get_delete:
  "ls_get (st\<lparr>st_entries := AList.delete n (st_entries st)\<rparr>) k = (if k = n then None else ls_get st k)"
  by (simp add: ls_get_def delete_conv')

lemma ls_put_secret_cases:
  assumes "ls_put_secret E c n v (st, fs) = (r, st', fs')"
  obtains (refused) e where "r = Inl e" "st' = st" "fs' = fs"
  | (stored) vk ct where "valid_name n" "value_key (v_crates E) (st_master_key st) = Inr vk"
    "encrypt_aad (v_crates E) vk (value_nonce c) v (utf8 n) = Inr ct"
    "st' = st\<lparr>st_entries := AList.update n \<lparr>entry_name = n, encrypted_value = ct\<rparr> (st_entries st)\<rparr>"
    "ls_save E c st' fs = (r, fs')"
proof (cases "and_then (validate_secret_name n) (\<lambda>_. and_then (value_key (v_crates E) (st_master_key st))
    (\<lambda>vk. map_err SealSecretFailed (encrypt_aad (v_crates E) vk (value_nonce c) v (utf8 n))))")
  case (Inl e)
  with assms show ?thesis by (intro refused [of e]) (simp_all add: ls_put_secret_def)
next
  case (Inr ct)
  have "ls_set E c n ct (st, fs) = (r, st', fs')"
    using assms by (simp only: ls_put_secret_def prod.case Inr sum.case)
  moreover obtain vk where "valid_name n" "value_key (v_crates E) (st_master_key st) = Inr vk"
      "encrypt_aad (v_crates E) vk (value_nonce c) v (utf8 n) = Inr ct"
    using Inr by (auto simp: res_simps)
  ultimately show ?thesis
    by (intro stored) (auto simp: ls_set_def Let_def split: prod.splits)
qed

text \<open>The entry is in memory before the file is written, whether or not that succeeds.\<close>

lemma ls_put_memory:
  assumes "aead_aad_ok (v_crates E)" "ls_put_secret E c n v (st, fs) = (r, st', fs')"
  shows "st' = st \<and> fs' = fs \<and> r \<noteq> Inr ()
    \<or> (\<forall>k. ls_get_secret E st' k = (if k = n then Inr (Some v) else ls_get_secret E st k))"
  using assms(2)
proof (cases rule: ls_put_secret_cases)
  case (stored vk ct)
  then show ?thesis
    using assms(1) by (auto simp: ls_get_secret_def ls_get_update aead_aad_okD split: option.splits)
qed simp

lemma ls_put_get:
  assumes "aead_aad_ok (v_crates E)" "ls_put_secret E c n v (st, fs) = (Inr (), st', fs')"
  shows "ls_get_secret E st' k = (if k = n then Inr (Some v) else ls_get_secret E st k)"
  using ls_put_memory [OF assms] by simp

lemma ls_delete_cases:
  assumes "ls_delete_secret E c n (st, fs) = (r, st', fs')"
  obtains (absent) "ls_get st n = None" "r = Inr False" "st' = st" "fs' = fs"
  | (removed) q where "ls_get st n \<noteq> None" "st' = st\<lparr>st_entries := AList.delete n (st_entries st)\<rparr>"
    "ls_save E c st' fs = (q, fs')" "r = map_ok (\<lambda>_. True) q"
proof (cases "map_of (st_entries st) n")
  case None
  with assms show ?thesis by (intro absent) (simp_all add: ls_delete_secret_def ls_get_def)
next
  case (Some e)
  obtain q fs1 where "ls_save E c (st\<lparr>st_entries := AList.delete n (st_entries st)\<rparr>) fs = (q, fs1)"
    by force
  with Some assms show ?thesis
    by (intro removed [of q]) (simp_all add: ls_delete_secret_def ls_get_def)
qed

definition ls_inv :: "vault_env \<Rightarrow> bytes \<Rightarrow> bytes option \<Rightarrow> local_store \<times> fs \<Rightarrow> bool" where
  "ls_inv E pw hw = (\<lambda>(st, fs). env_good E \<and> keyed E pw hw st \<and> entries_wf (st_entries st))"

lemma ls_get_secret_None_iff: "ls_get_secret E st n = Inr None \<longleftrightarrow> ls_get st n = None"
  by (auto simp: ls_get_secret_def res_simps split: option.splits)

lemma sorted_names:
  assumes "iter_ok E" "entries_wf (st_entries st)"
  shows "distinct (ls_names E st)" "set (ls_names E st) = {n. ls_get_secret E st n \<noteq> Inr None}"
proof -
  have m: "mset (map fst (v_iter E (st_entries st))) = mset (map fst (st_entries st))"
    using assms(1) by (simp add: iter_ok_def)
  from mset_eq_setD [OF m] mset_eq_imp_distinct_iff [OF m] assms(2)
  show "distinct (ls_names E st)" "set (ls_names E st) = {n. ls_get_secret E st n \<noteq> Inr None}"
    by (auto simp: ls_names_def entries_wf_def ls_get_secret_None_iff ls_get_def map_of_eq_None_iff)
qed

interpretation local: secret_store "ls_put_secret E" "\<lambda>s. ls_get_secret E (fst s)"
  "ls_inv E pw hw" "ls_delete_secret E" for E pw hw
proof
  fix s s' c n v r
  assume "ls_inv E pw hw s" "ls_put_secret E c n v s = (r, s')"
  then show "ls_inv E pw hw s'"
    by (cases s; cases s')
       (auto simp: ls_inv_def keyed_def entries_wf_update elim!: ls_put_secret_cases)
next
  fix s s' c n v k
  assume "ls_inv E pw hw s" "ls_put_secret E c n v s = (Inr (), s')"
  then show "ls_get_secret E (fst s') k = (if k = n then Inr (Some v) else ls_get_secret E (fst s) k)"
    using ls_put_get by (cases s; cases s') (auto simp: ls_inv_def env_good_def)
next
  fix s s' c n q
  assume "ls_inv E pw hw s" "ls_delete_secret E c n s = (q, s')"
  then show "ls_inv E pw hw s'"
    by (cases s; cases s') (auto simp: ls_inv_def keyed_def entries_wf_delete elim!: ls_delete_cases)
next
  fix s s' c n b k
  assume "ls_inv E pw hw s" and d: "ls_delete_secret E c n s = (Inr b, s')"
  obtain st fs st' fs' where s: "s = (st, fs)" "s' = (st', fs')" by (cases s; cases s') auto
  have "ls_delete_secret E c n (st, fs) = (Inr b, st', fs')" using d s by simp
  then show "ls_get_secret E (fst s') k = (if k = n then Inr None else ls_get_secret E (fst s) k)"
    by (cases rule: ls_delete_cases) (simp_all add: s ls_get_secret_def ls_get_delete split: option.splits)
next
  fix s s' c n b
  assume "ls_inv E pw hw s" and d: "ls_delete_secret E c n s = (Inr b, s')"
  obtain st fs st' fs' where s: "s = (st, fs)" "s' = (st', fs')" by (cases s; cases s') auto
  have "ls_delete_secret E c n (st, fs) = (Inr b, st', fs')" using d s by simp
  then show "b \<longleftrightarrow> ls_get_secret E (fst s) n \<noteq> Inr None"
    by (cases rule: ls_delete_cases) (auto simp: s ls_get_secret_None_iff map_ok_def split: sum.splits)
qed

subsection \<open>Crashes during a save\<close>

text \<open>
  The steps of \<open>save\<close> as the operating system shows them, between which the process may stop: the temporary file
  is truncated or created, grows byte by byte, and is renamed over the vault in one step.
\<close>

datatype save_pc = Computed | Writing nat | Renamed

inductive save_step :: "rstr \<Rightarrow> bytes \<Rightarrow> save_pc \<times> fs \<Rightarrow> save_pc \<times> fs \<Rightarrow> bool" for path bs where
  save_begin: "save_step path bs (Computed, fs) (Writing 0, fs(tmp_path path \<mapsto> []))"
| save_more: "k < length bs \<Longrightarrow>
    save_step path bs (Writing k, fs) (Writing (Suc k), fs(tmp_path path \<mapsto> take (Suc k) bs))"
| save_rename: "save_step path bs (Writing (length bs), fs)
    (Renamed, (fs(path := fs (tmp_path path)))(tmp_path path := None))"


inductive_simps save_step_Renamed: "save_step path bs (Renamed, fs) t"




text \<open>
  What is on the medium follows later, and \<open>save\<close> does not wait for it: neither the new file nor the directory is
  synced. Besides the steps of the process there are those by which the operating system writes back, at any time and
  in any order, parts of what was written so far, the name of the temporary file, and the renaming. \<open>dk_base\<close> is the
  medium before the save; the new file has the bytes \<open>dk_data\<close> there, under the name \<open>dk_name\<close> if any. Where parts have
  not arrived its bytes may be anything.
\<close>

record disk =
  dk_pc :: save_pc
  dk_view :: fs
  dk_base :: fs
  dk_data :: bytes
  dk_name :: "rstr option"

definition bytes_written :: "bytes \<Rightarrow> save_pc \<Rightarrow> nat" where
  "bytes_written bs pc = (case pc of Computed \<Rightarrow> 0 | Writing k \<Rightarrow> k | Renamed \<Rightarrow> length bs)"

inductive disk_step :: "rstr \<Rightarrow> bytes \<Rightarrow> disk \<Rightarrow> disk \<Rightarrow> bool" for path bs where
  process: "save_step path bs (dk_pc s, dk_view s) (pc, v) \<Longrightarrow>
    disk_step path bs s (s\<lparr>dk_pc := pc, dk_view := v\<rparr>)"
| write_data: "length ds \<le> bytes_written bs (dk_pc s) \<Longrightarrow> disk_step path bs s (s\<lparr>dk_data := ds\<rparr>)"
| write_name: "dk_pc s \<noteq> Computed \<Longrightarrow> dk_name s = None \<Longrightarrow> disk_step path bs s (s\<lparr>dk_name := Some (tmp_path path)\<rparr>)"
| write_rename: "dk_pc s = Renamed \<Longrightarrow> disk_step path bs s (s\<lparr>dk_name := Some path\<rparr>)"

inductive_cases disk_stepE: "disk_step path bs s t"

text \<open>The files after a power loss.\<close>

definition on_medium :: "rstr \<Rightarrow> disk \<Rightarrow> fs" where
  "on_medium path s =
     (case dk_name s of
        None \<Rightarrow> dk_base s
      | Some q \<Rightarrow> if q = path then (dk_base s)(path \<mapsto> dk_data s, tmp_path path := None)
                  else (dk_base s)(q \<mapsto> dk_data s))"

definition disk_start :: "fs \<Rightarrow> disk" where
  "disk_start fs0 = \<lparr>dk_pc = Computed, dk_view = fs0, dk_base = fs0, dk_data = [], dk_name = None\<rparr>"






text \<open>A save without faults is the complete run of these steps.\<close>

lemma save_steps_writing:
  "k \<le> length bs \<Longrightarrow> (save_step path bs)\<^sup>*\<^sup>* (Computed, fs0) (Writing k, fs0(tmp_path path \<mapsto> take k bs))"
proof (induction k)
  case 0
  show ?case unfolding take_0 by (rule r_into_rtranclp) (rule save_begin)
next
  case (Suc k)
  then have "save_step path bs (Writing k, fs0(tmp_path path \<mapsto> take k bs))
      (Writing (Suc k), fs0(tmp_path path \<mapsto> take (Suc k) bs))"
    using save_more [of k bs path "fs0(tmp_path path \<mapsto> take k bs)"] by simp
  with Suc show ?case by (meson Suc_leD rtranclp.rtrancl_into_rtrancl)
qed

lemma save_steps_complete:
  assumes "no_faults c" "vault_bytes E c st = Inr bs" "ls_save E c st fs = (r, fs')"
  shows "(save_step (st_path st) bs)\<^sup>*\<^sup>* (Computed, fs) (Renamed, fs')"
proof -
  let ?p = "st_path st"
  have "(save_step ?p bs)\<^sup>*\<^sup>* (Computed, fs) (Writing (length bs), fs(tmp_path ?p \<mapsto> bs))"
    using save_steps_writing [of "length bs" bs ?p fs] by simp
  moreover have "fs' = ((fs(tmp_path ?p \<mapsto> bs))(?p := (fs(tmp_path ?p \<mapsto> bs)) (tmp_path ?p)))(tmp_path ?p := None)"
    using ls_save_ok [OF assms(1,2), of fs] assms(3) by auto
  ultimately show ?thesis
    using save_rename [of ?p bs "fs(tmp_path ?p \<mapsto> bs)"] by (metis rtranclp.rtrancl_into_rtrancl)
qed

subsection \<open>A concrete vault\<close>

definition demo_master :: bytes where
  "demo_master = pad_to 32 (pad_to 32 [1] @ utf8 (lit ''vault-master''))"

definition demo_value_key :: bytes where
  "demo_value_key = pad_to 32 (demo_master @ utf8 (lit ''simple-secrets/value-key/v1''))"

definition demo_entry :: secret_entry where
  "demo_entry = \<lparr>entry_name = lit ''k'', encrypted_value = demo_value_key @ utf8 (lit ''k'') @ [5]\<rparr>"

definition demo_vault :: vault_env where
  "demo_vault = \<lparr>v_crates = demo_crates, v_codec = table_codec [[], [demo_entry]], v_iter = (\<lambda>m. m)\<rparr>"

definition demo_params :: argon2_params where
  "demo_params = \<lparr>argon_time = 1, argon_memory = 8192, argon_threads = 1\<rparr>"

definition demo_header :: vault_header where
  "demo_header = \<lparr>h_salt = replicate 32 7, h_params = demo_params, h_vdf_iterations = 0\<rparr>"

definition demo_store :: local_store where
  "demo_store = \<lparr>st_path = lit ''v'', st_master_key = demo_master, st_header = demo_header, st_entries = []\<rparr>"

definition demo_full :: local_store where
  "demo_full = demo_store\<lparr>st_entries := [(lit ''k'', demo_entry)]\<rparr>"

definition demo_op :: op_env where
  "demo_op = \<lparr>value_nonce = [], file_nonce = [], create_fault = None, read_fault = None,
     write_fault = None, rename_fault = None, remove_fails = False\<rparr>"

lemma demo_op_simps [simp]:
  "no_faults demo_op" "read_fault demo_op = None" "create_fault demo_op = None"
  by (simp_all add: demo_op_def no_faults_def)

lemma demo_env_good: "env_good demo_vault"
  by (simp add: env_good_def demo_vault_def demo_crates_ok table_codec_ok iter_ok_def)

lemma demo_header_ok: "header_ok demo_header"
  by (simp add: header_ok_def demo_header_def demo_params_def validate_kdf_params_def
      MAX_VDF_ITERATIONS_def)

lemma demo_derive: "derive_key demo_crates [1] (replicate 32 7) demo_params 0 None = Inr demo_master"
  by (simp add: derive_key_def demo_crates_simps demo_master_def)

lemma demo_keyed: "keyed demo_vault [1] None demo_store" "keyed demo_vault [1] None demo_full"
  using demo_header_ok demo_derive
  by (simp_all add: keyed_def demo_full_def demo_store_def demo_header_def demo_vault_def)

lemma demo_inv: "ls_inv demo_vault [1] None (demo_store, fs)" "ls_inv demo_vault [1] None (demo_full, fs)"
  using demo_env_good demo_keyed
  by (simp_all add: ls_inv_def entries_wf_def demo_full_def demo_store_def demo_entry_def)

definition demo_bytes :: "byte \<Rightarrow> bytes" where
  "demo_bytes b = header_to_bytes demo_header @ demo_master @ header_to_bytes demo_header @ [b]"

lemma demo_vault_bytes:
  "vault_bytes demo_vault demo_op demo_store = Inr (demo_bytes 0)"
  "vault_bytes demo_vault demo_op demo_full = Inr (demo_bytes 1)"
  by (simp_all add: vault_bytes_def demo_vault_def demo_full_def demo_store_def demo_crates_simps
      table_codec_def demo_bytes_def as_u8_def Let_def)

lemma demo_bytes_small: "length (demo_bytes b) \<le> MAX_VAULT_LEN"
  by (simp add: demo_bytes_def demo_master_def demo_header_def MAX_VAULT_LEN_def)

lemma demo_valid: "valid_name (lit ''k'')"
  by (rule valid_name_ascii) (simp_all add: ascii_def)

lemma demo_put:
  "ls_put_secret demo_vault demo_op (lit ''k'') [5] (demo_store, fs)
     = (Inr (), demo_full, fs(lit ''v'' \<mapsto> demo_bytes 1, tmp_path (lit ''v'') := None))"
proof -
  have v: "validate_secret_name (lit ''k'') = Inr ()" using demo_valid by simp
  have "value_key demo_crates demo_master = Inr demo_value_key"
    by (simp add: value_key_def demo_crates_simps demo_value_key_def)
  moreover have full: "demo_store\<lparr>st_entries := AList.update (lit ''k'')
      \<lparr>entry_name = lit ''k'', encrypted_value = demo_value_key @ utf8 (lit ''k'') @ [5]\<rparr>
      (st_entries demo_store)\<rparr> = demo_full"
    by (simp add: demo_full_def demo_store_def demo_entry_def)
  moreover have "ls_save demo_vault demo_op demo_full fs
      = (Inr (), fs(lit ''v'' \<mapsto> demo_bytes 1, tmp_path (lit ''v'') := None))"
    using ls_save_ok [OF _ demo_vault_bytes(2), of fs] by (simp add: demo_full_def demo_store_def)
  moreover have "st_master_key demo_store = demo_master" "v_crates demo_vault = demo_crates"
    by (simp_all add: demo_store_def demo_vault_def)
  ultimately show ?thesis
    by (simp add: ls_put_secret_def ls_set_def demo_crates_simps demo_entry_def v
        del: lit_simps validate_secret_name_ok)
qed

text \<open>A vault that was just created opens with its passphrase, and is empty.\<close>

lemma created_opens:
  assumes "env_good E" "ls_create E c path pw salt params vdf hw fs = (Inr st, fs')"
  shows "fs path = None" "keyed E pw hw st \<and> st_entries st = []"
    and "fs' path = Some bs \<Longrightarrow> length bs \<le> MAX_VAULT_LEN \<Longrightarrow> read_fault c' = None
      \<Longrightarrow> \<exists>st'. ls_open E c' path pw hw fs' = Inr st' \<and> same_vault st' st \<and> (\<forall>k. ls_get_secret E st' k = Inr None)"
proof -
  have st: "fs path = None" "keyed E pw hw st" "st_entries st = []" "st_path st = path"
    and sv: "ls_save E c st (fs(path \<mapsto> [])) = (Inr (), fs')"
    using assms(2)
    by (auto simp: ls_create_def keyed_def header_ok_def SALT_LEN_def Let_def
        split: if_splits sum.splits option.splits prod.splits)
  then show "fs path = None" "keyed E pw hw st \<and> st_entries st = []" by simp_all
  assume bs: "fs' path = Some bs" "length bs \<le> MAX_VAULT_LEN" "read_fault c' = None"
  have "vault_bytes E c st = Inr bs" using ls_save_written [OF sv] st(4) bs(1) by auto
  then obtain st' where "ls_open E c' path pw hw fs' = Inr st'" "same_vault st' st"
    using ls_open_vault_bytes [OF assms(1) st(2), of c bs fs' c'] bs st(3,4)
    by (auto simp: entries_wf_def)
  moreover have "ls_get_secret E st k = Inr None" for k
    using st(3) by (simp add: ls_get_secret_def ls_get_def)
  ultimately show "\<exists>st'. ls_open E c' path pw hw fs' = Inr st' \<and> same_vault st' st
      \<and> (\<forall>k. ls_get_secret E st' k = Inr None)"
    using same_vault_get by metis
qed

text \<open>Whatever opens the new file finds it empty.\<close>

lemma created_is_empty:
  assumes "env_good E" "ls_create E c path pw salt params vdf hw fs = (Inr st, fs')"
    and "ls_open E c' path pw hw fs' = Inr st'"
  shows "ls_get_secret E st' k = Inr None"
proof -
  obtain bs where "fs' path = Some bs" "length bs \<le> MAX_VAULT_LEN" "read_fault c' = None"
    using assms(3) by (auto simp: ls_open_def split: option.splits if_splits)
  from created_opens(3) [OF assms(1,2) this] assms(3) show ?thesis by auto
qed

subsection \<open>Properties\<close>

text \<open>C15. The vault header is encoded canonically: a file parses to a header and a ciphertext exactly
  when it is the encoding of that header followed by that ciphertext, the salt has 32 bytes and the
  key-derivation parameters lie in the accepted ranges.\<close>

theorem vault_header_canonical:
  "header_parse data = Inr (h, ct) \<longleftrightarrow>
     data = header_to_bytes h @ ct \<and> length (h_salt h) = 32
     \<and> validate_kdf_params (h_params h) (h_vdf_iterations h) = Inr ()"
  using header_parse_canonical [of data h ct] header_parse_to_bytes [of h ct]
  by (auto simp: header_ok_def)

text \<open>C10. Durability: after \<open>put_secret\<close> succeeds on an open vault, reopening the file with the same
  passphrase yields that secret under its name and every other secret unchanged. The one exception
  is a file that has grown beyond 32 MiB: \<open>save\<close> writes it, and \<open>open\<close> refuses it ever after.\<close>

theorem put_secret_is_durable:
  assumes "ls_inv E pw hw (st, fs)" "ls_put_secret E c n v (st, fs) = (Inr (), st', fs')"
    and "read_fault c' = None"
  shows "\<exists>bs. fs' (st_path st) = Some bs \<and>
    (if length bs \<le> MAX_VAULT_LEN
     then \<exists>st''. ls_open E c' (st_path st) pw hw fs' = Inr st''
       \<and> (\<forall>k. ls_get_secret E st'' k = (if k = n then Inr (Some v) else ls_get_secret E st k))
     else ls_open E c' (st_path st) pw hw fs' = Inl (VaultTooLarge (length bs)))"
proof -
  have inv: "ls_inv E pw hw (st', fs')" using local.put_inv [OF assms(1,2)] .
  have path: "st_path st' = st_path st" and sv: "ls_save E c st' fs = (Inr (), fs')"
    using assms(2) by (auto elim: ls_put_secret_cases)
  obtain bs where bs: "vault_bytes E c st' = Inr bs" "fs' (st_path st) = Some bs"
    using ls_save_written [OF sv] path by auto
  have get: "ls_get_secret E st' k = (if k = n then Inr (Some v) else ls_get_secret E st k)" for k
    using local.put_get [OF assms(1,2)] by simp
  show ?thesis
  proof (cases "length bs \<le> MAX_VAULT_LEN")
    case True
    then obtain st'' where "ls_open E c' (st_path st) pw hw fs' = Inr st''" "same_vault st'' st'"
      using ls_open_vault_bytes [of E pw hw st' c bs fs' c'] inv bs assms(3) path
      by (auto simp: ls_inv_def)
    then show ?thesis using bs True get by (auto simp: same_vault_get)
  next
    case False
    then show ?thesis using bs assms(3) by (simp add: ls_open_def)
  qed
qed

theorem put_secret_is_durable_witness:
  "\<exists>st''. ls_open demo_vault demo_op (lit ''v'') [1] None
      ([lit ''v'' \<mapsto> demo_bytes 1](tmp_path (lit ''v'') := None)) = Inr st''
    \<and> ls_get_secret demo_vault st'' (lit ''k'') = Inr (Some [5])"
proof -
  let ?fs = "[lit ''v'' \<mapsto> demo_bytes 1](tmp_path (lit ''v'') := None)"
  have path: "st_path demo_store = lit ''v''" by (simp add: demo_store_def)
  have "?fs (lit ''v'') = Some (demo_bytes 1)" by (simp del: lit_simps)
  with put_secret_is_durable [OF demo_inv(1) [of Map.empty] demo_put demo_op_simps(2)]
  show ?thesis using demo_bytes_small by (auto simp: path simp del: lit_simps)
qed




text \<open>The exception is real: a power loss soon after a successful save may leave an empty file in the
  place of the vault, and neither the old nor the new one opens.\<close>

lemma power_loss_may_empty_vault:
  assumes "read_fault c' = None"
  shows "\<exists>s. (disk_step path bs)\<^sup>*\<^sup>* (disk_start fs0) s \<and> dk_pc s = Renamed \<and> dk_view s path = Some bs
    \<and> on_medium path s path = Some [] \<and> ls_open E c' path pw hw (on_medium path s) = Inl HeaderTooShort"
proof -
  have lift: "(disk_step path bs)\<^sup>*\<^sup>* (disk_start fs0) ((disk_start fs0)\<lparr>dk_pc := pc, dk_view := v\<rparr>)"
    if "(save_step path bs)\<^sup>*\<^sup>* (Computed, fs0) (pc, v)" for pc v
    using that
  proof (induction rule: rtranclp_induct2)
    case refl
    show ?case by (simp add: disk_start_def)
  next
    case (step pc v pc' v')
    show ?case
      using rtranclp.rtrancl_into_rtrancl [OF step(3) process [of path bs _ pc' v']] step(2) by simp
  qed
  let ?v = "((fs0(tmp_path path \<mapsto> bs))(path := (fs0(tmp_path path \<mapsto> bs)) (tmp_path path)))(tmp_path path := None)"
  let ?r = "(disk_start fs0)\<lparr>dk_pc := Renamed, dk_view := ?v\<rparr>"
  have "(save_step path bs)\<^sup>*\<^sup>* (Computed, fs0) (Writing (length bs), fs0(tmp_path path \<mapsto> bs))"
    using save_steps_writing [of "length bs" bs path fs0] by simp
  from rtranclp.rtrancl_into_rtrancl [OF this save_rename]
  have "(disk_step path bs)\<^sup>*\<^sup>* (disk_start fs0) ?r" by (rule lift)
  moreover have "disk_step path bs ?r (?r\<lparr>dk_name := Some path\<rparr>)" by (rule write_rename) simp
  ultimately have run: "(disk_step path bs)\<^sup>*\<^sup>* (disk_start fs0) (?r\<lparr>dk_name := Some path\<rparr>)"
    by (rule rtranclp.rtrancl_into_rtrancl)
  show ?thesis
    by (rule exI [of _ "?r\<lparr>dk_name := Some path\<rparr>"])
      (use run assms in \<open>simp add: on_medium_def disk_start_def ls_open_def header_parse_def header_consts\<close>)
qed

text \<open>C34. A call that fails leaves the vault on disk as it was: whatever error \<open>put_secret\<close> or
  \<open>delete_secret\<close> returns, the file at the vault's path is unchanged. The open store is not rolled back
  with it: either it is unchanged too, or it already holds the value (or, after \<open>delete_secret\<close>, the
  absence) that the call failed to save, and shows it until it is closed.\<close>

theorem failed_update_keeps_file:
  assumes "aead_aad_ok (v_crates E)"
    and "ls_put_secret E c n v (st, fs) = (Inl e, st', fs') \<and> after = Some v
      \<or> ls_delete_secret E c n (st, fs) = (Inl e, st', fs') \<and> after = None"
  shows "fs' (st_path st) = fs (st_path st)
    \<and> (st' = st \<or> (\<forall>k. ls_get_secret E st' k = (if k = n then Inr after else ls_get_secret E st k)))"
  using assms(2)
proof (elim disjE conjE)
  assume put: "ls_put_secret E c n v (st, fs) = (Inl e, st', fs')" "after = Some v"
  from put(1) have "fs' (st_path st) = fs (st_path st)"
    by (cases rule: ls_put_secret_cases) (auto dest: ls_save_failed_disk)
  then show ?thesis using ls_put_memory [OF assms(1) put(1)] put(2) by auto
next
  assume del: "ls_delete_secret E c n (st, fs) = (Inl e, st', fs')" "after = None"
  from del(1) show ?thesis
  proof (cases rule: ls_delete_cases)
    case (removed q)
    then have "ls_save E c st' fs = (Inl e, fs')" by (cases q) simp_all
    from ls_save_failed_disk [OF this] removed(2) del(2) show ?thesis
      by (simp add: ls_get_secret_def ls_get_delete split: option.splits)
  qed simp
qed

theorem failed_update_keeps_file_witness:
  "\<exists>e fs'. ls_put_secret demo_vault (demo_op\<lparr>write_fault := Some (Some 0, [])\<rparr>) (lit ''k'') [5] (demo_store, Map.empty)
      = (Inl e, demo_full, fs')
    \<and> fs' (lit ''v'') = None \<and> ls_get_secret demo_vault demo_full (lit ''k'') = Inr (Some [5])"
proof -
  let ?c = "demo_op\<lparr>write_fault := Some (Some 0, [])\<rparr>" and ?k = "lit ''k''" and ?M = "Map.empty :: fs"
  have aead: "aead_aad_ok (v_crates demo_vault)" using demo_env_good by (simp add: env_good_def)
  obtain r st' fs' where put: "ls_put_secret demo_vault ?c ?k [5] (demo_store, ?M) = (r, st', fs')"
    by (metis prod.exhaust)
  have "st' = fst (snd (ls_put_secret demo_vault demo_op ?k [5] (demo_store, ?M)))"
    using put by (simp add: ls_put_secret_def ls_set_def Let_def split: sum.splits prod.splits)
  then have st': "st' = demo_full" by (simp add: demo_put del: lit_simps)
  have ne: "st' \<noteq> demo_store" by (simp add: st' demo_full_def demo_store_def)
  have sv: "ls_save demo_vault ?c st' ?M = (r, fs')"
    using put ne by (cases rule: ls_put_secret_cases) simp_all
  have "vault_bytes demo_vault ?c st' = Inr (demo_bytes 1)"
    using demo_vault_bytes(2) by (simp add: st' vault_bytes_def)
  with sv obtain e where "r = Inl e" by (auto simp: ls_save_def fs_write_def Let_def)
  with put st' have put': "ls_put_secret demo_vault ?c ?k [5] (demo_store, ?M) = (Inl e, demo_full, fs')" by simp
  then have "fs' (st_path demo_store) = ?M (st_path demo_store) \<and> (demo_full = demo_store
      \<or> (\<forall>k. ls_get_secret demo_vault demo_full k = (if k = ?k then Inr (Some [5]) else ls_get_secret demo_vault demo_store k)))"
    using failed_update_keeps_file [OF aead] by blast
  with put' ne st' show ?thesis by (auto simp: demo_store_def simp del: lit_simps)
qed

text \<open>C36. \<open>create\<close> never replaces a file: where the path exists it fails and changes nothing on disk.
  Where it succeeds the new vault opens with its passphrase and holds no secret.\<close>

theorem create_never_clobbers:
  assumes "env_good E" "ls_create E c path pw salt params vdf hw fs = (r, fs')"
    and "read_fault c' = None"
  shows "(fs path \<noteq> None \<longrightarrow> (\<exists>e. r = Inl e) \<and> fs' = fs)
    \<and> (\<forall>st bs. r = Inr st \<longrightarrow> fs' path = Some bs \<longrightarrow> length bs \<le> MAX_VAULT_LEN \<longrightarrow>
         fs path = None \<and> (\<exists>st'. ls_open E c' path pw hw fs' = Inr st' \<and> same_vault st' st
           \<and> (\<forall>k. ls_get_secret E st' k = Inr None)))"
proof (intro conjI allI impI)
  assume "fs path \<noteq> None"
  then show "\<exists>e. r = Inl e" "fs' = fs"
    using assms(2) by (auto simp: ls_create_def split: if_splits sum.splits)
next
  fix st bs
  assume r: "r = Inr st" and bs: "fs' path = Some bs" "length bs \<le> MAX_VAULT_LEN"
  note c = created_opens [OF assms(1) assms(2) [unfolded r]]
  then show "fs path = None" "\<exists>st'. ls_open E c' path pw hw fs' = Inr st' \<and> same_vault st' st
      \<and> (\<forall>k. ls_get_secret E st' k = Inr None)"
    using bs assms(3) by blast+
qed

theorem create_never_clobbers_witness:
  "\<exists>st st'. ls_create demo_vault demo_op (lit ''v'') [1] (replicate 32 7) demo_params 0 None Map.empty
      = (Inr st, [lit ''v'' \<mapsto> demo_bytes 0](tmp_path (lit ''v'') := None))
    \<and> ls_open demo_vault demo_op (lit ''v'') [1] None
        ([lit ''v'' \<mapsto> demo_bytes 0](tmp_path (lit ''v'') := None)) = Inr st'
    \<and> ls_get_secret demo_vault st' (lit ''k'') = Inr None"
proof -
  let ?fs = "[lit ''v'' \<mapsto> demo_bytes 0](tmp_path (lit ''v'') := None)"
  have "validate_kdf_params demo_params 0 = Inr ()"
    using demo_header_ok by (simp add: header_ok_def demo_header_def)
  moreover have "ls_save demo_vault demo_op demo_store [lit ''v'' \<mapsto> []] = (Inr (), ?fs)"
    using ls_save_ok [OF _ demo_vault_bytes(1), of "[lit ''v'' \<mapsto> []]"] by (simp add: demo_store_def)
  ultimately have cr: "ls_create demo_vault demo_op (lit ''v'') [1] (replicate 32 7) demo_params 0 None
      Map.empty = (Inr demo_store, ?fs)"
    by (simp add: ls_create_def SALT_LEN_def demo_derive demo_vault_def demo_store_def demo_header_def)
  moreover have "?fs (lit ''v'') = Some (demo_bytes 0)" by (simp del: lit_simps)
  ultimately show ?thesis
    using create_never_clobbers [OF demo_env_good cr demo_op_simps(2)] demo_bytes_small by blast
qed

text \<open>A creation that fails after the path was reserved (in the key derivation or in the first
  save) leaves a file at the path that held none, so that a second attempt fails as well; where the
  key derivation failed the stub is empty and does not open either.\<close>

theorem failed_create_leaves_stub:
  assumes "length salt = 32" "validate_kdf_params params vdf = Inr ()" "fs path = None"
    and "create_fault c = None" "derive_key (v_crates E) pw salt params vdf hw = Inl e"
    and "ls_create E c path pw salt params vdf hw fs = (r, fs')" "read_fault c' = None"
  shows "r = Inl e \<and> fs' = fs(path \<mapsto> [])
    \<and> ls_open E c' path pw hw fs' = Inl HeaderTooShort
    \<and> ls_create E c path pw salt params vdf hw fs' = (Inl (CreateVaultFailed path (lit ''File exists'')), fs')"
proof -
  have "r = Inl e" "fs' = fs(path \<mapsto> [])"
    using assms(1-6) by (auto simp: ls_create_def SALT_LEN_def)
  then show ?thesis
    using assms(1,2,7)
    by (simp add: ls_open_def header_parse_def header_consts ls_create_def)
qed

theorem failed_create_leaves_stub_witness:
  "ls_open (demo_vault\<lparr>v_crates := demo_crates\<lparr>locked_from_bytes := \<lambda>_. Inl (lit ''mlock'')\<rparr>\<rparr>) demo_op
     (lit ''v'') [1] None [lit ''v'' \<mapsto> []] = Inl HeaderTooShort"
proof -
  let ?X = "demo_crates\<lparr>locked_from_bytes := \<lambda>_. Inl (lit ''mlock'')\<rparr>"
  let ?E = "demo_vault\<lparr>v_crates := ?X\<rparr>"
  have v: "validate_kdf_params demo_params 0 = Inr ()"
    using demo_header_ok by (simp add: header_ok_def demo_header_def)
  have d: "derive_key (v_crates ?E) [1] (replicate 32 7) demo_params 0 None
      = Inl (LockedBufferError (lit ''mlock''))"
    by (simp add: derive_key_def demo_crates_simps)
  obtain r fs' where cr: "ls_create ?E demo_op (lit ''v'') [1] (replicate 32 7) demo_params 0 None Map.empty
      = (r, fs')" by force
  from failed_create_leaves_stub [OF _ v _ demo_op_simps(3) d cr demo_op_simps(2)]
  show ?thesis by (auto simp del: lit_simps)
qed

end
