(* ===== verification/GF256.thy ===== *)
theory GF256
  imports Prelude
begin

text \<open>
  The arithmetic of \<open>src/sharing/shamir.rs\<close> on \<open>GF(2^8)\<close> (AES polynomial \<open>0x11B\<close>):
  \<open>gf_add\<close>, the branch-free \<open>gf_mul\<close> with its fixed eight rounds and \<open>gf_inv\<close>, the
  power \<open>a^254\<close>. The lemmas show that these bit-level routines are a field: both are
  additive, multiplication is a commutative monoid, and \<open>gf_inv\<close> inverts every non-zero
  byte. The type \<open>gf\<close> packages them as an instance of the library's class \<open>field\<close>, so that
  the interpolation proofs run on the library's ring automation.
\<close>

unbundle bit_operations_syntax

subsection \<open>The routines of the source\<close>

definition gf_add :: "byte \<Rightarrow> byte \<Rightarrow> byte" where
  "gf_add a b = a XOR b"

fun gf_mul_loop :: "nat \<Rightarrow> byte \<Rightarrow> byte \<Rightarrow> byte \<Rightarrow> byte" where
  "gf_mul_loop 0 a b p = p"
| "gf_mul_loop (Suc n) a b p =
     (let mask = - (b AND 1);
          p' = p XOR (a AND mask);
          reduce_mask = - (drop_bit 7 a);
          a' = push_bit 1 a XOR (0x1B AND reduce_mask);
          b' = drop_bit 1 b
      in gf_mul_loop n a' b' p')"

definition gf_mul :: "byte \<Rightarrow> byte \<Rightarrow> byte" where
  "gf_mul a b = gf_mul_loop 8 a b 0"

fun gf_inv_loop :: "nat \<Rightarrow> byte \<Rightarrow> byte \<Rightarrow> byte" where
  "gf_inv_loop 0 a result = result"
| "gf_inv_loop (Suc n) a result = gf_inv_loop n a (gf_mul (gf_mul result result) a)"

definition gf_inv :: "byte \<Rightarrow> byte" where
  "gf_inv a = (let result = gf_inv_loop 6 a a in gf_mul result result)"

subsection \<open>Masks are branches\<close>

definition xtime :: "byte \<Rightarrow> byte" where
  "xtime a = push_bit 1 a XOR (0x1B AND - (drop_bit 7 a))"

lemma low_bit_mask: "- (b AND 1) = (if bit b 0 then -1 else 0 :: byte)"
  by (simp add: and_one_eq bit_0 odd_iff_mod_2_eq_one)

lemma high_bit_mask: "- (drop_bit 7 a) = (if bit a 7 then -1 else 0 :: byte)"
proof -
  have "drop_bit 7 a = (if bit a 7 then 1 else 0 :: byte)"
  proof (rule bit_word_eqI)
    fix k assume "k < LENGTH(8)"
    then have "k = 0 \<or> 8 \<le> 7 + k" by auto
    then show "bit (drop_bit 7 a) k = bit (if bit a 7 then 1 else 0 :: byte) k"
      by (auto simp: bit_drop_bit_eq bit_1_iff dest: bit_imp_le_length)
  qed
  then show ?thesis by simp
qed

lemma xtime_cases: "xtime a = push_bit 1 a XOR (if bit a 7 then 0x1B else 0)"
  by (simp add: xtime_def high_bit_mask)

lemma gf_mul_loop_Suc:
  "gf_mul_loop (Suc n) a b p =
     gf_mul_loop n (xtime a) (drop_bit 1 b) (p XOR (if bit b 0 then a else 0))"
  by (simp add: Let_def low_bit_mask xtime_def)

declare gf_mul_loop.simps(2) [simp del]

lemma xtime_add: "xtime (a XOR b) = xtime a XOR xtime b"
proof -
  have "push_bit 1 (a XOR b) = push_bit 1 a XOR push_bit 1 b"
    by (rule push_bit_xor)
  then show ?thesis
    by (cases "bit a 7"; cases "bit b 7")
       (simp_all add: xtime_cases bit_xor_iff xor.assoc xor.commute xor.left_commute)
qed

lemma xtime_0 [simp]: "xtime 0 = 0"
  by (simp add: xtime_cases)

subsection \<open>Bilinearity\<close>

lemma xor4: "(a XOR b) XOR (c XOR d) = (a XOR c) XOR (b XOR (d :: byte))"
  by (simp add: ac_simps)

lemma gf_mul_loop_add_left:
  "gf_mul_loop n (a XOR c) b (p XOR q) = gf_mul_loop n a b p XOR gf_mul_loop n c b q"
proof (induction n arbitrary: a b c p q)
  case 0
  then show ?case by simp
next
  case (Suc n)
  show ?case
    by (cases "bit b 0")
       (simp_all add: gf_mul_loop_Suc xtime_add xor4 Suc.IH [symmetric])
qed

lemma gf_mul_loop_add_right:
  "gf_mul_loop n a (b XOR c) (p XOR q) = gf_mul_loop n a b p XOR gf_mul_loop n a c q"
proof (induction n arbitrary: a b c p q)
  case 0
  then show ?case by simp
next
  case (Suc n)
  have "(p XOR q) XOR (if bit (b XOR c) 0 then a else 0)
      = (p XOR (if bit b 0 then a else 0)) XOR (q XOR (if bit c 0 then a else 0))"
    by (auto simp: bit_xor_iff ac_simps)
  then show ?case
    by (simp add: gf_mul_loop_Suc drop_bit_xor Suc.IH [symmetric])
qed

lemma gf_mul_loop_xtime:
  "gf_mul_loop n (xtime a) b (xtime p) = xtime (gf_mul_loop n a b p)"
proof (induction n arbitrary: a b p)
  case 0
  then show ?case by simp
next
  case (Suc n)
  have "xtime p XOR (if bit b 0 then xtime a else 0) = xtime (p XOR (if bit b 0 then a else 0))"
    by (simp add: xtime_add)
  then show ?case by (simp add: gf_mul_loop_Suc Suc.IH)
qed

lemma gf_mul_add_left: "gf_mul (a XOR c) b = gf_mul a b XOR gf_mul c b"
  using gf_mul_loop_add_left [of 8 a c b 0 0] by (simp add: gf_mul_def)

lemma gf_mul_add_right: "gf_mul a (b XOR c) = gf_mul a b XOR gf_mul a c"
  using gf_mul_loop_add_right [of 8 a b c 0 0] by (simp add: gf_mul_def)

lemma gf_mul_xtime: "gf_mul (xtime a) b = xtime (gf_mul a b)"
  using gf_mul_loop_xtime [of 8 a b 0] by (simp add: gf_mul_def)

lemma gf_mul_xtime_pow: "gf_mul ((xtime ^^ j) a) b = (xtime ^^ j) (gf_mul a b)"
  by (induction j) (simp_all add: gf_mul_xtime)

text \<open>An additive function on bytes is fixed by its values on the eight unit bytes.\<close>

definition additive :: "(byte \<Rightarrow> byte) \<Rightarrow> bool" where
  "additive f \<longleftrightarrow> (\<forall>a b. f (a XOR b) = f a XOR f b)"

lemma additive_zero: "additive f \<Longrightarrow> f 0 = 0"
  by (metis additive_def xor_self_eq)

lemma take_bit_Suc_xor:
  "take_bit (Suc n) w = take_bit n w XOR (if bit w n then 2 ^ n else 0 :: byte)"
proof (rule bit_word_eqI)
  fix k assume "k < LENGTH(8)"
  then show "bit (take_bit (Suc n) w) k
      = bit (take_bit n w XOR (if bit w n then 2 ^ n else 0 :: byte)) k"
    by (cases "k = n") (auto simp: bit_take_bit_iff bit_xor_iff bit_exp_iff less_Suc_eq)
qed

lemma additive_eqI:
  assumes f: "additive f" and g: "additive g"
    and basis: "\<And>i. i < 8 \<Longrightarrow> f (2 ^ i) = g (2 ^ i)"
  shows "f w = g w"
proof -
  have "f (take_bit n w) = g (take_bit n w)" if "n \<le> 8" for n
    using that
  proof (induction n)
    case 0
    then show ?case by (simp add: additive_zero f g)
  next
    case (Suc n)
    then show ?case
      using f g basis [of n] by (cases "bit w n") (simp_all add: take_bit_Suc_xor additive_def)
  qed
  from this [of 8] show ?thesis by (simp add: take_bit_word_eq_self)
qed

lemma additive_gf_mul [simp]:
  "additive (gf_mul a)" "additive (\<lambda>a. gf_mul a b)"
  by (simp_all add: additive_def gf_mul_add_left gf_mul_add_right)

lemma less_8_cases: "(i::nat) < 8 \<Longrightarrow> i \<in> {0, 1, 2, 3, 4, 5, 6, 7}"
  by auto

lemma gf_mul_loop_zero: "gf_mul_loop n a 0 p = p"
  by (induction n arbitrary: a p) (simp_all add: gf_mul_loop_Suc)

lemma drop_bit_unit: "Suc i < 8 \<Longrightarrow> drop_bit 1 (2 ^ Suc i :: byte) = 2 ^ i"
  by (rule bit_word_eqI) (auto simp: bit_drop_bit_eq bit_exp_iff simp del: power_Suc)

lemma gf_mul_loop_unit:
  "i < n \<Longrightarrow> i < 8 \<Longrightarrow> gf_mul_loop n a (2 ^ i) p = p XOR (xtime ^^ i) a"
proof (induction n arbitrary: i a p)
  case 0
  then show ?case by simp
next
  case (Suc n)
  show ?case
  proof (cases i)
    case 0
    then show ?thesis by (simp add: gf_mul_loop_Suc gf_mul_loop_zero)
  next
    case (Suc j)
    have "gf_mul_loop (Suc n) a (2 ^ Suc j) p = gf_mul_loop n (xtime a) (2 ^ j) p"
      using Suc Suc.prems drop_bit_unit [of j]
      by (simp add: gf_mul_loop_Suc bit_0 even_power del: power_Suc)
    then show ?thesis
      using Suc Suc.prems Suc.IH [of j "xtime a" p] by (simp add: funpow_swap1)
  qed
qed

lemma gf_mul_unit: "i < 8 \<Longrightarrow> gf_mul a (2 ^ i) = (xtime ^^ i) a"
  by (simp add: gf_mul_def gf_mul_loop_unit)

lemma unit_byte: "i < 8 \<Longrightarrow> (xtime ^^ i) 1 = 2 ^ i"
  by (drule less_8_cases) (auto simp: xtime_cases numeral_eq_Suc)

subsection \<open>Multiplication is a commutative monoid\<close>

lemma gf_mul_one_right [simp]: "gf_mul a 1 = a"
  using gf_mul_unit [of 0 a] by simp

lemma gf_mul_one_left [simp]: "gf_mul 1 b = b"
proof (rule additive_eqI [where f = "gf_mul 1" and g = "\<lambda>b. b"])
  show "additive (\<lambda>b. b)" by (simp add: additive_def)
qed (simp_all add: gf_mul_unit unit_byte)

lemma gf_mul_commute: "gf_mul a b = gf_mul b a"
proof (rule additive_eqI [where f = "gf_mul a" and g = "\<lambda>b. gf_mul b a"])
  fix i :: nat assume i: "i < 8"
  have "gf_mul (2 ^ i) a = gf_mul ((xtime ^^ i) 1) a" by (simp add: unit_byte i)
  also have "\<dots> = (xtime ^^ i) a" by (simp add: gf_mul_xtime_pow)
  finally show "gf_mul a (2 ^ i) = gf_mul (2 ^ i) a" by (simp add: gf_mul_unit i)
qed simp_all

lemma gf_mul_assoc: "gf_mul (gf_mul a b) c = gf_mul a (gf_mul b c)"
proof (rule additive_eqI [where f = "gf_mul (gf_mul a b)" and g = "\<lambda>c. gf_mul a (gf_mul b c)"])
  show "additive (\<lambda>c. gf_mul a (gf_mul b c))"
    by (simp add: additive_def gf_mul_add_right)
next
  fix i :: nat assume i: "i < 8"
  have "gf_mul a (gf_mul b (2 ^ i)) = gf_mul ((xtime ^^ i) b) a"
    by (simp add: gf_mul_unit i gf_mul_commute [of a])
  also have "\<dots> = (xtime ^^ i) (gf_mul a b)"
    by (simp add: gf_mul_xtime_pow gf_mul_commute [of b])
  finally show "gf_mul (gf_mul a b) (2 ^ i) = gf_mul a (gf_mul b (2 ^ i))"
    by (simp add: gf_mul_unit i)
qed simp

lemma gf_mul_zero [simp]: "gf_mul 0 b = 0" "gf_mul a 0 = 0"
  using additive_zero [of "gf_mul a" for a] by (simp_all add: gf_mul_commute [of 0])

subsection \<open>Bytes as a field\<close>

typedef gf = "UNIV :: byte set"
  morphisms byte_of Gf by simp

setup_lifting type_definition_gf

instantiation gf :: comm_ring_1
begin

lift_definition zero_gf :: gf is 0 .

lift_definition one_gf :: gf is 1 .

lift_definition plus_gf :: "gf \<Rightarrow> gf \<Rightarrow> gf" is gf_add .

lift_definition minus_gf :: "gf \<Rightarrow> gf \<Rightarrow> gf" is gf_add .

lift_definition uminus_gf :: "gf \<Rightarrow> gf" is "\<lambda>a. a" .

lift_definition times_gf :: "gf \<Rightarrow> gf \<Rightarrow> gf" is gf_mul .

instance
proof
  fix a b c :: gf
  show "a * b * c = a * (b * c)" by transfer (rule gf_mul_assoc)
  show "a * b = b * a" by transfer (rule gf_mul_commute)
  show "1 * a = a" by transfer simp
  show "a + b + c = a + (b + c)" by transfer (simp add: gf_add_def xor.assoc)
  show "a + b = b + a" by transfer (simp add: gf_add_def xor.commute)
  show "0 + a = a" by transfer (simp add: gf_add_def)
  show "- a + a = 0" by transfer (simp add: gf_add_def)
  show "a - b = a + - b" by transfer (simp add: gf_add_def)
  show "(a + b) * c = a * c + b * c" by transfer (simp add: gf_add_def gf_mul_add_left)
  show "(0 :: gf) \<noteq> 1" by transfer simp
qed

end

lemma byte_of_simps [simp]:
  "byte_of 0 = 0" "byte_of 1 = 1"
  "byte_of (a + b) = gf_add (byte_of a) (byte_of b)"
  "byte_of (a * b) = gf_mul (byte_of a) (byte_of b)"
  by (transfer; simp)+

lemma Gf_simps:
  "Gf 0 = 0" "Gf 1 = 1"
  "Gf (gf_add x y) = Gf x + Gf y"
  "Gf (gf_mul x y) = Gf x * Gf y"
  by (transfer; simp)+

lemma Gf_inj [simp]: "Gf x = Gf y \<longleftrightarrow> x = y"
  by (simp add: Gf_inject)

lemma gf_char2: "(a :: gf) + a = 0"
  by transfer (simp add: gf_add_def)

lemma gf_minus_plus: "(a :: gf) - b = a + b"
  by transfer (simp add: gf_add_def)

text \<open>
  The byte 3 generates the non-zero elements: its powers do not meet 1 before exponent 255.
  Each power costs one \<open>xtime\<close>, so the 255 steps are evaluated directly.
\<close>

fun no_one :: "nat \<Rightarrow> byte \<Rightarrow> bool" where
  "no_one 0 x = True"
| "no_one (Suc n) x = (x \<noteq> 1 \<and> no_one n (xtime x XOR x))"

fun gen_pow :: "nat \<Rightarrow> byte \<Rightarrow> byte" where
  "gen_pow 0 x = x"
| "gen_pow (Suc n) x = gen_pow n (xtime x XOR x)"

lemma no_one_numeral:
  "no_one (numeral k) x = (x \<noteq> 1 \<and> no_one (pred_numeral k) (xtime x XOR x))"
  by (simp add: numeral_eq_Suc)

lemma gen_pow_numeral:
  "gen_pow (numeral k) x = gen_pow (pred_numeral k) (xtime x XOR x)"
  by (simp add: numeral_eq_Suc)

lemma no_one_254: "no_one 254 3"
  by (simp add: no_one_numeral xtime_def)

lemma gen_pow_254: "gen_pow 254 3 = 1"
  by (simp add: gen_pow_numeral xtime_def)

lemma gf_mul_three: "gf_mul 3 y = xtime y XOR y"
proof -
  have "gf_mul 3 y = gf_mul y (2 ^ 1 XOR 2 ^ 0)" by (simp add: gf_mul_commute)
  also have "\<dots> = xtime y XOR y"
    unfolding gf_mul_add_right by (simp only: gf_mul_unit) simp
  finally show ?thesis .
qed

lemma no_one_powers: "no_one n (byte_of (Gf 3 ^ k)) \<Longrightarrow> j < n \<Longrightarrow> Gf 3 ^ (k + j) \<noteq> 1"
proof (induction n arbitrary: k j)
  case 0
  then show ?case by simp
next
  case (Suc n)
  have step: "byte_of (Gf 3 ^ Suc k) = xtime (byte_of (Gf 3 ^ k)) XOR byte_of (Gf 3 ^ k)"
    by (simp add: Gf_inverse gf_mul_three)
  show ?case
  proof (cases j)
    case 0
    with Suc.prems show ?thesis
      by (metis add.right_neutral byte_of_simps(2) no_one.simps(2))
  next
    case (Suc i)
    with Suc.prems step have "no_one n (byte_of (Gf 3 ^ Suc k))" and "i < n"
      by simp_all
    then have "Gf 3 ^ (Suc k + i) \<noteq> 1" by (rule Suc.IH)
    with Suc show ?thesis by simp
  qed
qed

lemma gen_pow_powers: "gen_pow n (byte_of (Gf 3 ^ k)) = byte_of (Gf 3 ^ (k + n))"
proof (induction n arbitrary: k)
  case 0
  then show ?case by simp
next
  case (Suc n)
  have "xtime (byte_of (Gf 3 ^ k)) XOR byte_of (Gf 3 ^ k) = byte_of (Gf 3 ^ Suc k)"
    by (simp add: Gf_inverse gf_mul_three)
  with Suc.IH [of "Suc k"] show ?case by simp
qed

lemma three_order: "Gf 3 ^ 255 = 1"
proof -
  have "byte_of (Gf 3 ^ (1 + 254)) = byte_of 1"
    using gen_pow_powers [of 254 1] gen_pow_254 by (simp add: Gf_inverse)
  then show ?thesis by (simp only: byte_of_inject) simp
qed

lemma three_not_one: "0 < k \<Longrightarrow> k < 255 \<Longrightarrow> Gf 3 ^ k \<noteq> 1"
  using no_one_powers [of 254 1 "k - 1"] no_one_254 by (simp add: Gf_inverse)

lemma three_powers_inj: "inj_on (\<lambda>k. Gf 3 ^ k) {..<255}"
proof -
  have False if "i < j" "j < 255" "Gf 3 ^ i = Gf 3 ^ j" for i j :: nat
  proof -
    have "Gf 3 ^ (j - i + 255) = Gf 3 ^ j * Gf 3 ^ (255 - i)"
      using that(1,2) by (simp flip: power_add)
    also have "\<dots> = Gf 3 ^ i * Gf 3 ^ (255 - i)"
      by (simp only: that)
    also have "\<dots> = Gf 3 ^ 255"
      using that(1,2) by (simp flip: power_add)
    finally have "Gf 3 ^ (j - i) = 1"
      by (simp add: power_add three_order)
    moreover from that(1,2) have "0 < j - i" "j - i < 255" by linarith+
    ultimately show False using three_not_one by blast
  qed
  then show ?thesis
    by (intro inj_onI) (metis lessThan_iff linorder_neqE_nat)
qed

lemma card_gf: "card (UNIV :: gf set) = 256"
proof -
  have "UNIV = Gf ` UNIV" by (metis byte_of_inverse surjI surj_def)
  then have "card (UNIV :: gf set) = card (UNIV :: byte set)"
    by (metis Gf_inj card_image injI)
  then show ?thesis by (simp add: card_word)
qed

lemma finite_gf [simp]: "finite (UNIV :: gf set)"
  by (rule card_ge_0_finite) (simp add: card_gf)

lemma nonzero_is_power: "(a :: gf) \<noteq> 0 \<Longrightarrow> \<exists>k. a = Gf 3 ^ k"
proof -
  assume a: "a \<noteq> 0"
  have nz: "Gf 3 ^ k \<noteq> 0" for k
  proof
    assume "Gf 3 ^ k = 0"
    then have "(Gf 3 ^ k) ^ 255 = 0" by simp
    moreover have "(Gf 3 ^ k) ^ 255 = 1"
      by (metis mult.commute power_mult power_one three_order)
    ultimately show False by simp
  qed
  let ?P = "(\<lambda>k. Gf 3 ^ k) ` {..<255}"
  have "card ?P = 255" by (simp add: card_image three_powers_inj)
  moreover have "?P \<subseteq> UNIV - {0}" using nz by auto
  moreover have "card (UNIV - {0 :: gf}) = 255" by (simp add: card_gf)
  ultimately have "?P = UNIV - {0}"
    by (intro card_subset_eq) auto
  with a show ?thesis by (metis DiffI UNIV_I image_iff singletonD)
qed

lemma gf_fermat: "(a :: gf) \<noteq> 0 \<Longrightarrow> a ^ 255 = 1"
  using nonzero_is_power [of a] three_order
  by (metis mult.commute power_mult power_one)

subsection \<open>The inverse and the field instance\<close>

lemma Gf_inv_loop: "Gf (gf_inv_loop n a r) = Gf r ^ (2 ^ n) * Gf a ^ (2 ^ n - 1)"
proof (induction n arbitrary: r)
  case 0
  then show ?case by simp
next
  case (Suc n)
  have e: "2 ^ n + (2 ^ n - 1) = 2 ^ Suc n - (1::nat)"
    by simp
  have "Gf (gf_inv_loop (Suc n) a r) = (Gf r * Gf r * Gf a) ^ (2 ^ n) * Gf a ^ (2 ^ n - 1)"
    by (simp add: Suc.IH Gf_simps)
  also have "\<dots> = (Gf r ^ (2 ^ n) * Gf r ^ (2 ^ n)) * (Gf a ^ (2 ^ n) * Gf a ^ (2 ^ n - 1))"
    by (simp only: power_mult_distrib mult.assoc)
  also have "\<dots> = Gf r ^ (2 ^ Suc n) * Gf a ^ (2 ^ n + (2 ^ n - 1))"
    by (simp only: power_add [symmetric] power_Suc mult_2)
  finally show ?case by (simp only: e)
qed

lemma Gf_inv: "Gf (gf_inv a) = Gf a ^ 254"
  by (simp add: gf_inv_def Let_def Gf_simps Gf_inv_loop flip: power_add)

instantiation gf :: field
begin

lift_definition inverse_gf :: "gf \<Rightarrow> gf" is gf_inv .

definition divide_gf :: "gf \<Rightarrow> gf \<Rightarrow> gf" where
  "a div b = a * inverse (b :: gf)"

instance
proof
  fix a b :: gf
  have inv: "inverse a = a ^ 254" for a :: gf
    using Gf_inv [of "byte_of a"] by (simp add: byte_of_inverse inverse_gf_def)
  show "a \<noteq> 0 \<Longrightarrow> inverse a * a = 1"
    using gf_fermat [of a] by (simp add: inv flip: power_Suc2)
  show "inverse (0 :: gf) = 0" by (simp add: inv)
  show "a div b = a * inverse b" by (rule divide_gf_def)
qed

end

lemma byte_of_inverse_gf [simp]: "byte_of (inverse a) = gf_inv (byte_of a)"
  by transfer simp

lemma Gf_gf_inv: "Gf (gf_inv x) = inverse (Gf x)"
  by transfer simp

lemmas Gf_hom = Gf_simps Gf_gf_inv

lemma gf_inv_correct: "a \<noteq> 0 \<Longrightarrow> gf_mul a (gf_inv a) = 1"
proof -
  assume "a \<noteq> 0"
  then have "Gf a \<noteq> 0" using Gf_simps(1) Gf_inj by metis
  then have "Gf (gf_mul a (gf_inv a)) = Gf 1" by (simp add: Gf_hom)
  then show ?thesis by (simp only: Gf_inj)
qed

subsection \<open>Properties\<close>

text \<open>C27. The branch-free byte routines are the arithmetic of a field with 256 elements:
  multiplication is associative, commutative and distributes over \<open>gf_add\<close>, 1 is its unit,
  and \<open>gf_inv\<close>, the fixed ladder for \<open>a^254\<close>, gives the inverse of every non-zero byte
  and 0 for 0.\<close>

theorem gf_routines_form_a_field:
  "gf_mul (gf_mul a b) c = gf_mul a (gf_mul b c)
   \<and> gf_mul a b = gf_mul b a
   \<and> gf_mul a (gf_add b c) = gf_add (gf_mul a b) (gf_mul a c)
   \<and> gf_mul 1 a = a
   \<and> gf_mul a (gf_inv a) = (if a = 0 then 0 else 1)"
proof -
  have "gf_mul a (gf_inv a) = (if a = 0 then 0 else 1)" using gf_inv_correct [of a] by simp
  then show ?thesis
    using gf_mul_assoc [of a b c] gf_mul_commute [of a b]
    by (simp add: gf_mul_add_right gf_add_def)
qed

end
