(* ===== verification/Interpolation.thy ===== *)
theory Interpolation
  imports Main
begin

text \<open>
  Polynomial functions over a field, as coefficient lists, and the two facts secret sharing
  rests on: a polynomial function of degree below \<open>n\<close> with \<open>n\<close> distinct roots vanishes, so its
  value anywhere is the Lagrange combination of its values at \<open>n\<close> or more distinct points; and
  fewer than \<open>n\<close> values put no constraint on its value at another point.
\<close>

subsection \<open>Coefficient lists\<close>

fun poly :: "'a::field list \<Rightarrow> 'a \<Rightarrow> 'a" where
  "poly [] x = 0"
| "poly (c # cs) x = c + x * poly cs x"

definition polyfun :: "nat \<Rightarrow> ('a::field \<Rightarrow> 'a) \<Rightarrow> bool" where
  "polyfun n f \<longleftrightarrow> (\<exists>cs. length cs = n \<and> f = poly cs)"

lemma polyfun_poly: "polyfun (length cs) (poly cs)"
  by (auto simp: polyfun_def)

lemma poly_append_zeros: "poly (cs @ replicate k 0) x = poly cs x"
proof (induction cs)
  case Nil
  then show ?case by (induction k) auto
qed simp

lemma polyfun_mono: "polyfun n f \<Longrightarrow> n \<le> m \<Longrightarrow> polyfun m f"
proof -
  assume "polyfun n f" and le: "n \<le> m"
  then obtain cs where "length cs = n" "f = poly cs" by (auto simp: polyfun_def)
  then have "length (cs @ replicate (m - n) 0) = m" "f = poly (cs @ replicate (m - n) 0)"
    using le by (auto simp: poly_append_zeros)
  then show ?thesis unfolding polyfun_def by blast
qed

lemma poly_map2_add:
  "length cs = length ds \<Longrightarrow> poly (map2 (+) cs ds) x = poly cs x + poly ds x"
  by (induction cs ds rule: list_induct2) (simp_all add: algebra_simps)

lemma poly_map_mult: "poly (map ((*) a) cs) x = a * poly cs x"
  by (induction cs) (simp_all add: algebra_simps)

lemma polyfun_add: "polyfun n f \<Longrightarrow> polyfun n g \<Longrightarrow> polyfun n (\<lambda>x. f x + g x)"
proof -
  assume "polyfun n f" "polyfun n g"
  then obtain cs ds where "length cs = n" "f = poly cs" "length ds = n" "g = poly ds"
    by (auto simp: polyfun_def)
  then have "length (map2 (+) cs ds) = n" "(\<lambda>x. f x + g x) = poly (map2 (+) cs ds)"
    by (auto simp: poly_map2_add)
  then show ?thesis unfolding polyfun_def by blast
qed

lemma polyfun_smult: "polyfun n f \<Longrightarrow> polyfun n (\<lambda>x. a * f x)"
proof -
  assume "polyfun n f"
  then obtain cs where "length cs = n" "f = poly cs" by (auto simp: polyfun_def)
  then have "length (map ((*) a) cs) = n" "(\<lambda>x. a * f x) = poly (map ((*) a) cs)"
    by (auto simp: poly_map_mult)
  then show ?thesis unfolding polyfun_def by blast
qed

lemma polyfun_times_var: "polyfun n f \<Longrightarrow> polyfun (Suc n) (\<lambda>x. x * f x)"
proof -
  assume "polyfun n f"
  then obtain cs where "length cs = n" "f = poly cs" by (auto simp: polyfun_def)
  then have "length (0 # cs) = Suc n" "(\<lambda>x. x * f x) = poly (0 # cs)" by auto
  then show ?thesis unfolding polyfun_def by blast
qed

lemma polyfun_times_linear: "polyfun n f \<Longrightarrow> polyfun (Suc n) (\<lambda>x. (x - a) * f x)"
proof -
  assume f: "polyfun n f"
  have "polyfun (Suc n) (\<lambda>x. x * f x + (- a) * f x)"
    using polyfun_times_var [OF f] polyfun_mono [OF polyfun_smult [OF f], of "Suc n" "- a"]
    by (intro polyfun_add) auto
  then show ?thesis by (simp add: algebra_simps)
qed

lemma polyfun_const: "polyfun (Suc 0) (\<lambda>x. a)"
proof -
  have "length [a] = Suc 0" "(\<lambda>x. a) = poly [a]" by auto
  then show ?thesis unfolding polyfun_def by blast
qed

lemma polyfun_zero: "polyfun n (\<lambda>x :: 'a::field. 0)"
proof -
  have "(\<lambda>x. 0) = poly (replicate n (0::'a))"
    using poly_append_zeros [of "[] :: 'a list" n] by (simp add: fun_eq_iff)
  then show ?thesis using polyfun_poly [of "replicate n (0::'a)"] by simp
qed

lemma polyfun_sum:
  "finite I \<Longrightarrow> (\<And>i. i \<in> I \<Longrightarrow> polyfun n (f i)) \<Longrightarrow> polyfun n (\<lambda>x. \<Sum>i\<in>I. f i x)"
proof (induction I rule: finite_induct)
  case empty
  then show ?case by (simp add: polyfun_zero)
next
  case (insert i I)
  then show ?case using polyfun_add [of n "f i"] by simp
qed

lemma polyfun_prod_linear:
  "finite J \<Longrightarrow> polyfun (Suc (card J)) (\<lambda>x. \<Prod>j\<in>J. (x - a j))"
  by (induction J rule: finite_induct) (simp_all add: polyfun_const polyfun_times_linear)

subsection \<open>Roots\<close>

text \<open>Synthetic division by \<open>x - r\<close>.\<close>

fun quot :: "'a::field list \<Rightarrow> 'a \<Rightarrow> 'a list" where
  "quot [] r = []"
| "quot [c] r = []"
| "quot (c # d # cs) r = poly (d # cs) r # quot (d # cs) r"

lemma length_quot [simp]: "length (quot cs r) = length cs - 1"
  by (induction cs r rule: quot.induct) auto

lemma poly_quot: "poly cs x = (x - r) * poly (quot cs r) x + poly cs r"
proof (induction cs r rule: quot.induct)
  case (3 c d cs r)
  have "poly (c # d # cs) x = c + x * ((x - r) * poly (quot (d # cs) r) x + poly (d # cs) r)"
    using 3 by simp
  also have "\<dots> = (x - r) * (poly (d # cs) r + x * poly (quot (d # cs) r) x)
      + (c + r * poly (d # cs) r)"
    by (simp only: algebra_simps)
  also have "\<dots> = (x - r) * poly (quot (c # d # cs) r) x + poly (c # d # cs) r"
    by (simp only: quot.simps poly.simps)
  finally show ?case .
qed simp_all

lemma poly_roots_zero:
  "distinct rs \<Longrightarrow> length cs \<le> length rs \<Longrightarrow> (\<And>r. r \<in> set rs \<Longrightarrow> poly cs r = 0)
     \<Longrightarrow> poly cs x = 0"
proof (induction rs arbitrary: cs x)
  case Nil
  then show ?case by simp
next
  case (Cons r rs)
  have "poly cs r = 0" using Cons.prems by simp
  then have q: "poly cs y = (y - r) * poly (quot cs r) y" for y
    using poly_quot [of cs y r] by simp
  have "poly (quot cs r) s = 0" if "s \<in> set rs" for s
    using Cons.prems that q [of s] by auto
  moreover have "length (quot cs r) \<le> length rs" using Cons.prems by simp
  ultimately have "poly (quot cs r) x = 0" using Cons.IH Cons.prems by auto
  with q show ?case by simp
qed

lemma polyfun_roots_zero:
  "polyfun n f \<Longrightarrow> distinct rs \<Longrightarrow> n \<le> length rs \<Longrightarrow> (\<And>r. r \<in> set rs \<Longrightarrow> f r = 0) \<Longrightarrow> f x = 0"
  unfolding polyfun_def using poly_roots_zero by blast

subsection \<open>Lagrange interpolation\<close>

definition lagrange_basis :: "'a::field list \<Rightarrow> nat \<Rightarrow> 'a \<Rightarrow> 'a" where
  "lagrange_basis xs i t = (\<Prod>j\<in>{..<length xs} - {i}. (t - xs ! j) / (xs ! i - xs ! j))"

lemma lagrange_basis_at:
  assumes "distinct xs" "i < length xs" "k < length xs"
  shows "lagrange_basis xs i (xs ! k) = (if i = k then 1 else 0)"
proof (cases "i = k")
  case True
  with assms show ?thesis
    by (auto simp: lagrange_basis_def nth_eq_iff_index_eq intro!: prod.neutral)
next
  case False
  with assms show ?thesis
    by (auto simp: lagrange_basis_def intro!: prod_zero bexI [of _ k])
qed

lemma polyfun_lagrange_basis:
  assumes "i < length xs"
  shows "polyfun (length xs) (lagrange_basis xs i)"
proof -
  let ?J = "{..<length xs} - {i}"
  have "Suc (card ?J) = length xs" using assms by simp
  then have "polyfun (length xs) (\<lambda>t. \<Prod>j\<in>?J. (t - xs ! j))"
    using polyfun_prod_linear [of ?J "\<lambda>j. xs ! j"] by simp
  then have "polyfun (length xs)
      (\<lambda>t. inverse (\<Prod>j\<in>?J. (xs ! i - xs ! j)) * (\<Prod>j\<in>?J. (t - xs ! j)))"
    by (rule polyfun_smult)
  moreover have "(\<lambda>t. inverse (\<Prod>j\<in>?J. (xs ! i - xs ! j)) * (\<Prod>j\<in>?J. (t - xs ! j)))
      = lagrange_basis xs i"
    by (rule ext) (simp add: lagrange_basis_def prod_dividef field_simps)
  ultimately show ?thesis by simp
qed

theorem lagrange:
  assumes f: "polyfun n f" and d: "distinct xs" and n: "n \<le> length xs"
  shows "(\<Sum>i<length xs. f (xs ! i) * lagrange_basis xs i t) = f t"
proof -
  let ?g = "\<lambda>t. (\<Sum>i<length xs. f (xs ! i) * lagrange_basis xs i t)"
  have "polyfun (length xs) ?g"
    by (intro polyfun_sum polyfun_smult polyfun_lagrange_basis) auto
  then have "polyfun (length xs) (\<lambda>t. ?g t + (- 1) * f t)"
    by (intro polyfun_add polyfun_smult polyfun_mono [OF f n])
  moreover have "?g r + (- 1) * f r = 0" if "r \<in> set xs" for r
  proof -
    from that obtain k where k: "k < length xs" "r = xs ! k" by (auto simp: in_set_conv_nth)
    have "?g (xs ! k) = (\<Sum>i<length xs. if i = k then f (xs ! k) else 0)"
      by (rule sum.cong) (auto simp: lagrange_basis_at [OF d] k)
    with k show ?thesis by simp
  qed
  ultimately have "?g t + (- 1) * f t = 0"
    using polyfun_roots_zero [of "length xs" _ xs t] d by blast
  then show ?thesis by simp
qed

subsection \<open>Fewer values than coefficients\<close>

text \<open>
  A coefficient list that moves the value at 0 by \<open>v\<close> and leaves the values at fewer than \<open>n\<close>
  given non-zero points alone.
\<close>

lemma shift_exists:
  fixes xs :: "'a::field list"
  assumes "0 \<notin> set xs" "length xs < n"
  shows "\<exists>ds. length ds = n \<and> poly ds 0 = v \<and> (\<forall>x\<in>set xs. poly ds x = 0)"
proof -
  define J where "J = {..<length xs}"
  define f where "f x = (\<Prod>j\<in>J. (x - xs ! j))" for x
  have c: "f 0 \<noteq> 0" using assms(1) by (auto simp: f_def J_def in_set_conv_nth)
  have root: "f x = 0" if "x \<in> set xs" for x
    using that by (auto simp: f_def J_def in_set_conv_nth)
  have "polyfun (Suc (length xs)) f"
    using polyfun_prod_linear [of J "\<lambda>j. xs ! j"] by (simp add: f_def [abs_def] J_def)
  then have "polyfun n f"
    using assms(2) by (rule polyfun_mono [OF _ Suc_leI])
  then have "polyfun n (\<lambda>x. (v / f 0) * f x)" by (rule polyfun_smult)
  then obtain ds where ds: "length ds = n" "poly ds = (\<lambda>x. (v / f 0) * f x)"
    unfolding polyfun_def by metis
  have "poly ds 0 = v" using ds c by simp
  moreover have "poly ds x = 0" if "x \<in> set xs" for x
    using ds root that by simp
  ultimately show ?thesis using ds by blast
qed

end
