(* ===== verification/Threshold.thy ===== *)
theory Threshold
  imports Prelude
begin

text \<open>
  The interface of a threshold sharing scheme, which \<open>sharing::shamir\<close>, \<open>sharing::multisig\<close> and
  the share tokens of \<open>cli::sharing\<close> all offer: \<open>dist\<close> deals a secret to \<open>n\<close> holders with
  threshold \<open>m\<close>, \<open>recon\<close> recovers it. The environment holds whatever else an instance depends
  on (randomness, keys, linked cryptography), and \<open>env_ok\<close> what it must satisfy. The client
  lemmas are proved once here and are inherited by every instance.
\<close>

locale threshold_scheme =
  fixes dist :: "'env \<Rightarrow> 'sec \<Rightarrow> nat \<Rightarrow> nat \<Rightarrow> 'e + 'sh list"
    and recon :: "'env \<Rightarrow> 'sh list \<Rightarrow> 'e + 'sec"
    and env_ok :: "'env \<Rightarrow> bool"
  assumes dist_count: "env_ok \<Gamma> \<Longrightarrow> dist \<Gamma> s m n = Inr shs \<Longrightarrow> length shs = n"
    and dist_bounds: "env_ok \<Gamma> \<Longrightarrow> dist \<Gamma> s m n = Inr shs \<Longrightarrow> 2 \<le> m \<and> m \<le> n"
    and dist_distinct: "env_ok \<Gamma> \<Longrightarrow> dist \<Gamma> s m n = Inr shs \<Longrightarrow> distinct shs"
    and recon_quorum:
      "env_ok \<Gamma> \<Longrightarrow> dist \<Gamma> s m n = Inr shs \<Longrightarrow> set sub \<subseteq> set shs \<Longrightarrow> distinct sub
         \<Longrightarrow> m \<le> length sub \<Longrightarrow> recon \<Gamma> sub = Inr s"
begin

text \<open>Holders are picked by position: any \<open>m\<close> or more of them, in any order.\<close>

lemma recon_positions:
  assumes "env_ok \<Gamma>" "dist \<Gamma> s m n = Inr shs"
    and "distinct is" "\<forall>i\<in>set is. i < n" "m \<le> length is"
  shows "recon \<Gamma> (map (\<lambda>i. shs ! i) is) = Inr s"
proof (rule recon_quorum [OF assms(1,2)])
  have len: "length shs = n" using assms by (blast intro: dist_count)
  then show "set (map (\<lambda>i. shs ! i) is) \<subseteq> set shs" using assms(4) by auto
  have "distinct shs" using assms by (blast intro: dist_distinct)
  then show "distinct (map (\<lambda>i. shs ! i) is)"
    using assms(3,4) len by (auto simp: distinct_map inj_on_def nth_eq_iff_index_eq)
qed (use assms in simp)

lemma recon_all:
  assumes "env_ok \<Gamma>" "dist \<Gamma> s m n = Inr shs"
  shows "recon \<Gamma> shs = Inr s"
proof (rule recon_quorum [OF assms])
  show "distinct shs" using assms by (rule dist_distinct)
  have "length shs = n" using assms by (rule dist_count)
  then show "m \<le> length shs" using dist_bounds [OF assms] by simp
qed simp

text \<open>Losing up to \<open>n - m\<close> shares loses nothing.\<close>

lemma recon_after_loss:
  assumes "env_ok \<Gamma>" "dist \<Gamma> s m n = Inr shs" "finite lost" "card lost \<le> n - m"
  shows "recon \<Gamma> (filter (\<lambda>x. x \<notin> lost) shs) = Inr s"
proof (rule recon_quorum [OF assms(1,2)])
  have d: "distinct shs" using assms by (blast intro: dist_distinct)
  then show "distinct (filter (\<lambda>x. x \<notin> lost) shs)" by simp
  have len: "length shs = n" using assms by (blast intro: dist_count)
  have "length (filter (\<lambda>x. x \<notin> lost) shs) = card (set shs - lost)"
    using d distinct_card [of "filter (\<lambda>x. x \<notin> lost) shs"] by (simp add: set_diff_eq)
  moreover have "card (set shs) - card lost \<le> card (set shs - lost)"
    using assms(3) by (rule diff_card_le_card_Diff)
  moreover have "card (set shs) = n" using d len by (simp add: distinct_card)
  ultimately show "m \<le> length (filter (\<lambda>x. x \<notin> lost) shs)"
    using assms(4) dist_bounds [OF assms(1,2)] by linarith
qed auto

lemma quorums_agree:
  assumes "env_ok \<Gamma>" "dist \<Gamma> s m n = Inr shs"
    and "set a \<subseteq> set shs" "distinct a" "m \<le> length a"
    and "set b \<subseteq> set shs" "distinct b" "m \<le> length b"
  shows "recon \<Gamma> a = recon \<Gamma> b"
  using recon_quorum [OF assms(1,2)] assms(3-) by simp

end

end
