(* ===== verification/Shamir.thy ===== *)
theory Shamir
  imports GF256 Interpolation Errors Threshold "HOL-Library.Stream"
begin

text \<open>
  \<open>src/sharing/shamir.rs\<close>: dealing a secret byte by byte with fresh random polynomials over
  \<open>GF(2^8)\<close>, and Lagrange reconstruction at 0. \<open>rand::thread_rng()\<close> is an endless stream of
  bytes; \<open>fill_bytes\<close> takes its next ones. The main lemmas: any \<open>m\<close> distinct shares
  reconstruct the secret, \<open>reconstruct\<close> succeeds exactly on consistent share lists, and the
  view of fewer than \<open>m\<close> holders is explained by equally many random choices for every secret
  of the same length.
\<close>

subsection \<open>The routines of the source\<close>

record share =
  share_index :: byte
  share_data :: bytes

text \<open>
  \<open>eval_poly\<close> starts from the last coefficient and works down; the source unwraps
  \<open>coeffs.last()\<close>, and its only caller passes \<open>m \<ge> 2\<close> coefficients.
\<close>

definition eval_poly :: "bytes \<Rightarrow> byte \<Rightarrow> byte" where
  "eval_poly coeffs x =
     fold (\<lambda>i result. gf_add (gf_mul result x) (coeffs ! i))
       (rev [0..<length coeffs - 1]) (last coeffs)"

fun split_loop :: "(nat \<times> byte) list \<Rightarrow> nat \<Rightarrow> byte stream \<Rightarrow> share list \<Rightarrow> share list" where
  "split_loop [] m rng shares = shares"
| "split_loop ((byte_idx, b) # rest) m rng shares =
     (let coeffs = b # stake (m - 1) rng;
          shares' = map (\<lambda>s. s\<lparr>share_data :=
                     (share_data s)[byte_idx := eval_poly coeffs (share_index s)]\<rparr>) shares
      in split_loop rest m (sdrop (m - 1) rng) shares')"

definition shamir_split :: "bytes \<Rightarrow> nat \<Rightarrow> nat \<Rightarrow> byte stream \<Rightarrow> error + share list" where
  "shamir_split secret m n rng =
     (if \<not> (2 \<le> m \<and> m \<le> 255) then Inl (ThresholdRange m)
      else if n < m \<or> n > 255 then Inl (SharesRange n)
      else if secret = [] then Inl SecretEmpty
      else
        let shares = map (\<lambda>i. \<lparr>share_index = as_u8 (i + 1),
                              share_data = replicate (length secret) 0\<rparr>) [0..<n]
        in Inr (split_loop (enumerate 0 secret) m rng shares))"

text \<open>The index checks of \<open>reconstruct\<close>: no zero, no index seen before.\<close>

fun check_indices :: "byte set \<Rightarrow> share list \<Rightarrow> error option" where
  "check_indices seen [] = None"
| "check_indices seen (s # ss) =
     (if share_index s = 0 then Some ShareIndexZero
      else if share_index s \<in> seen then Some (DuplicateShareIndex (share_index s))
      else check_indices (insert (share_index s) seen) ss)"

text \<open>The numerator and denominator of the basis polynomial of share \<open>i\<close> at 0.\<close>

fun basis_loop :: "nat \<Rightarrow> byte \<Rightarrow> (nat \<times> share) list \<Rightarrow> byte \<Rightarrow> byte \<Rightarrow> byte \<times> byte" where
  "basis_loop i xi [] num den = (num, den)"
| "basis_loop i xi ((j, sj) # rest) num den =
     (if i = j then basis_loop i xi rest num den
      else
        let xj = share_index sj
        in basis_loop i xi rest (gf_mul num xj) (gf_mul den (gf_add xi xj)))"

fun value_loop :: "share list \<Rightarrow> nat \<Rightarrow> (nat \<times> share) list \<Rightarrow> byte \<Rightarrow> byte" where
  "value_loop shares byte_idx [] val = val"
| "value_loop shares byte_idx ((i, si) # rest) val =
     (let xi = share_index si;
          yi = share_data si ! byte_idx;
          (num, den) = basis_loop i xi (enumerate 0 shares) 1 1;
          li = gf_mul num (gf_inv den)
      in value_loop shares byte_idx rest (gf_add val (gf_mul yi li)))"

definition shamir_reconstruct :: "share list \<Rightarrow> error + bytes" where
  "shamir_reconstruct shares =
     (if length shares < 2 then Inl NeedTwoShares
      else
        let data_len = length (share_data (shares ! 0)) in
        case find (\<lambda>s. length (share_data s) \<noteq> data_len) (tl shares) of
          Some s \<Rightarrow> Inl (ShareLengthMismatch (length (share_data s)) data_len)
        | None \<Rightarrow>
            (case check_indices {} shares of
               Some e \<Rightarrow> Inl e
             | None \<Rightarrow>
                 Inr (map (\<lambda>byte_idx. value_loop shares byte_idx (enumerate 0 shares) 0)
                   [0..<data_len])))"

subsection \<open>Evaluation is polynomial evaluation in the field\<close>

lemma eval_poly_single: "eval_poly [c] x = c"
  by (simp add: eval_poly_def)

lemma eval_poly_Cons:
  assumes "cs \<noteq> []"
  shows "eval_poly (c # cs) x = gf_add (gf_mul (eval_poly cs x) x) c"
proof -
  obtain n where n: "length cs = Suc n" using assms by (cases cs) auto
  have "[0..<Suc n] = 0 # map Suc [0..<n]" by (simp add: map_Suc_upt upt_conv_Cons del: upt_Suc)
  then have "rev [0..<Suc n] = map Suc (rev [0..<n]) @ [0]" by (simp add: rev_map)
  with n assms show ?thesis
    by (simp add: eval_poly_def fold_map comp_def del: upt_Suc)
qed

lemma Gf_eval_poly: "cs \<noteq> [] \<Longrightarrow> Gf (eval_poly cs x) = poly (map Gf cs) (Gf x)"
proof (induction cs)
  case Nil
  then show ?case by simp
next
  case (Cons c cs)
  then show ?case
    by (cases "cs = []")
       (simp_all add: eval_poly_single eval_poly_Cons Gf_hom Gf_simps algebra_simps)
qed

subsection \<open>What \<open>split\<close> deals\<close>

definition chunk :: "nat \<Rightarrow> byte stream \<Rightarrow> nat \<Rightarrow> bytes" where
  "chunk m rng k = stake (m - 1) (sdrop (k * (m - 1)) rng)"

lemma chunk_0: "chunk m rng 0 = stake (m - 1) rng"
  by (simp add: chunk_def)

lemma chunk_Suc: "chunk m (sdrop (m - 1) rng) k = chunk m rng (Suc k)"
  by (simp add: chunk_def add.commute)

lemma length_chunk [simp]: "length (chunk m rng k) = m - 1"
  by (simp add: chunk_def)

lemma split_loop_shape:
  "length (split_loop es m rng shares) = length shares"
  "i < length shares \<Longrightarrow> share_index (split_loop es m rng shares ! i) = share_index (shares ! i)"
  "i < length shares \<Longrightarrow>
     length (share_data (split_loop es m rng shares ! i)) = length (share_data (shares ! i))"
  by (induction es m rng shares rule: split_loop.induct) (simp_all add: Let_def)

lemma split_loop_nth:
  assumes "i < length shares" "d + length secret \<le> length (share_data (shares ! i))"
  shows "share_data (split_loop (enumerate d secret) m rng shares ! i) ! k =
     (if d \<le> k \<and> k < d + length secret
      then eval_poly (secret ! (k - d) # chunk m rng (k - d)) (share_index (shares ! i))
      else share_data (shares ! i) ! k)"
  using assms
proof (induction secret arbitrary: d rng shares)
  case Nil
  then show ?case by auto
next
  case (Cons b secret)
  let ?sh = "map (\<lambda>s. s\<lparr>share_data :=
      (share_data s)[d := eval_poly (b # stake (m - 1) rng) (share_index s)]\<rparr>) shares"
  have "i < length ?sh" "Suc d + length secret \<le> length (share_data (?sh ! i))"
    using Cons.prems by simp_all
  note IH = Cons.IH [OF this, of "sdrop (m - 1) rng"]
  consider "k = d" | "Suc d \<le> k" "k < Suc d + length secret"
    | "k \<noteq> d" "\<not> (Suc d \<le> k \<and> k < Suc d + length secret)" by blast
  then show ?case
  proof cases
    case 1
    then show ?thesis using Cons.prems IH by (simp add: Let_def chunk_0)
  next
    case 2
    then obtain j where j: "k = Suc (d + j)" using less_natE less_eq_Suc_le by blast
    with 2 show ?thesis using Cons.prems IH by (simp add: Let_def chunk_Suc [unfolded One_nat_def])
  next
    case 3
    then show ?thesis using Cons.prems IH by (auto simp: Let_def)
  qed
qed

lemma shamir_split_Inr_iff:
  "(\<exists>shares. shamir_split secret m n rng = Inr shares)
     \<longleftrightarrow> 2 \<le> m \<and> m \<le> n \<and> n \<le> 255 \<and> secret \<noteq> []"
  by (auto simp: shamir_split_def Let_def)

lemma shamir_split_shape:
  assumes "shamir_split secret m n rng = Inr shares"
  shows "length shares = n"
    and "2 \<le> m" "m \<le> n" "n \<le> 255" "secret \<noteq> []"
    and "i < n \<Longrightarrow> share_index (shares ! i) = as_u8 (i + 1)"
    and "i < n \<Longrightarrow> length (share_data (shares ! i)) = length secret"
    and "i < n \<Longrightarrow> k < length secret \<Longrightarrow>
           share_data (shares ! i) ! k = eval_poly (secret ! k # chunk m rng k) (as_u8 (i + 1))"
  using assms
  by (auto simp: shamir_split_def Let_def split_loop_shape split_loop_nth split: if_splits)

subsection \<open>What \<open>reconstruct\<close> computes\<close>

definition points :: "share list \<Rightarrow> gf list" where
  "points shares = map (Gf \<circ> share_index) shares"

lemma length_points [simp]: "length (points shares) = length shares"
  by (simp add: points_def)

lemma basis_loop_prod:
  "Gf (fst (basis_loop i xi ps num den))
     = Gf num * (\<Prod>(j, s)\<leftarrow>ps. if i = j then 1 else Gf (share_index s))"
  "Gf (snd (basis_loop i xi ps num den))
     = Gf den * (\<Prod>(j, s)\<leftarrow>ps. if i = j then 1 else Gf xi + Gf (share_index s))"
  by (induction i xi ps num den rule: basis_loop.induct)
     (simp_all add: Let_def Gf_simps algebra_simps)

lemma prod_list_enumerate:
  fixes f :: "nat \<Rightarrow> 'b \<Rightarrow> gf"
  shows "(\<Prod>(j, s)\<leftarrow>enumerate 0 ss. f j s) = (\<Prod>j<length ss. f j (ss ! j))"
  by (simp add: prod.list_conv_set_nth nth_enumerate_eq atLeast0LessThan)

lemma prod_skip:
  "(\<Prod>j<(n::nat). if i = j then 1 else (h j :: gf)) = (\<Prod>j\<in>{..<n} - {i}. h j)"
proof -
  have "(\<Prod>j<n. if i = j then 1 else h j) = (\<Prod>j\<in>{..<n} - {i}. if i = j then 1 else h j)"
    by (rule prod.mono_neutral_right) auto
  also have "\<dots> = (\<Prod>j\<in>{..<n} - {i}. h j)" by (rule prod.cong) auto
  finally show ?thesis .
qed

lemma basis_loop_lagrange:
  assumes "i < length shares"
    and "basis_loop i (share_index (shares ! i)) (enumerate 0 shares) 1 1 = (num, den)"
  shows "Gf (gf_mul num (gf_inv den)) = lagrange_basis (points shares) i 0"
proof -
  let ?x = "\<lambda>j. Gf (share_index (shares ! j))" and ?J = "{..<length shares} - {i}"
  have "Gf num = (\<Prod>j\<in>?J. ?x j)" "Gf den = (\<Prod>j\<in>?J. ?x i + ?x j)"
    using basis_loop_prod [of i "share_index (shares ! i)" "enumerate 0 shares" 1 1] assms(2)
    by (simp_all add: prod_list_enumerate prod_skip Gf_simps)
  moreover have "lagrange_basis (points shares) i 0
      = (\<Prod>j\<in>?J. ?x j) / (\<Prod>j\<in>?J. ?x i + ?x j)"
    using assms(1)
    by (simp add: lagrange_basis_def points_def gf_minus_plus flip: prod_dividef)
  ultimately show ?thesis
    by (simp add: Gf_hom divide_inverse)
qed

lemma value_loop_sum:
  assumes "d + length rest = length shares" "rest = drop d shares"
  shows "Gf (value_loop shares k (enumerate d rest) val)
    = Gf val + (\<Sum>i=d..<length shares.
        Gf (share_data (shares ! i) ! k) * lagrange_basis (points shares) i 0)"
  using assms
proof (induction rest arbitrary: d val)
  case Nil
  then show ?case by simp
next
  case (Cons s rest)
  have d: "d < length shares" using Cons.prems(1) by simp
  have s: "s = shares ! d" "rest = drop (Suc d) shares"
    using Cons.prems(2) by (metis nth_via_drop, metis drop_Suc list.sel(3) tl_drop)
  obtain num den where nd:
      "basis_loop d (share_index s) (enumerate 0 shares) 1 1 = (num, den)"
    by fastforce
  have "Suc d + length rest = length shares" using Cons.prems(1) by simp
  note IH = Cons.IH [OF this s(2)]
  have "Gf (gf_mul num (gf_inv den)) = lagrange_basis (points shares) d 0"
    using basis_loop_lagrange [OF d] nd s by simp
  then show ?case
    using IH nd s d
    by (simp add: Let_def Gf_simps sum.atLeast_Suc_lessThan [OF d] add.assoc)
qed

lemma value_loop_lagrange:
  "Gf (value_loop shares k (enumerate 0 shares) 0)
    = (\<Sum>i<length shares. Gf (share_data (shares ! i) ! k) * lagrange_basis (points shares) i 0)"
  by (simp add: value_loop_sum Gf_simps atLeast0LessThan)

lemma check_indices_None_iff:
  "check_indices seen ss = None \<longleftrightarrow>
     0 \<notin> share_index ` set ss \<and> distinct (map share_index ss) \<and> share_index ` set ss \<inter> seen = {}"
  by (induction seen ss rule: check_indices.induct) auto

text \<open>\<open>reconstruct\<close> succeeds exactly on two or more shares of one length with distinct non-zero indices.\<close>

definition consistent :: "share list \<Rightarrow> bool" where
  "consistent ss \<longleftrightarrow>
     2 \<le> length ss \<and> (\<forall>s\<in>set ss. length (share_data s) = length (share_data (hd ss)))
     \<and> 0 \<notin> share_index ` set ss \<and> distinct (map share_index ss)"

lemma find_None_tl:
  "2 \<le> length ss \<Longrightarrow>
     find (\<lambda>s. length (share_data s) \<noteq> length (share_data (ss ! 0))) (tl ss) = None
     \<longleftrightarrow> (\<forall>s\<in>set ss. length (share_data s) = length (share_data (hd ss)))"
  by (cases ss) (auto simp: find_None_iff)

lemma shamir_reconstruct_consistent:
  assumes "consistent ss"
  shows "shamir_reconstruct ss =
    Inr (map (\<lambda>k. value_loop ss k (enumerate 0 ss) 0) [0..<length (share_data (hd ss))])"
proof -
  have "hd ss = ss ! 0" using assms by (cases ss) (auto simp: consistent_def)
  with assms find_None_tl [of ss] show ?thesis
    by (auto simp: shamir_reconstruct_def consistent_def Let_def check_indices_None_iff
        split: option.splits)
qed

lemma shamir_reconstruct_inconsistent:
  assumes "\<not> consistent ss"
  shows "\<exists>e. shamir_reconstruct ss = Inl e"
  using assms find_None_tl [of ss]
  by (auto simp: shamir_reconstruct_def consistent_def Let_def check_indices_None_iff
      split: option.splits)

subsection \<open>Any quorum recovers the secret\<close>

lemma split_share_cases:
  assumes "shamir_split secret m n rng = Inr shares" "s \<in> set shares"
  obtains i where "i < n" "s = shares ! i" "share_index s = as_u8 (i + 1)"
    "length (share_data s) = length secret"
    "\<And>k. k < length secret \<Longrightarrow>
       share_data s ! k = eval_poly (secret ! k # chunk m rng k) (share_index s)"
  using assms shamir_split_shape [OF assms(1)] by (metis in_set_conv_nth)

lemma split_index_inj:
  assumes "shamir_split secret m n rng = Inr shares"
  shows "inj_on share_index (set shares)"
proof (rule inj_onI)
  fix s t assume st: "s \<in> set shares" "t \<in> set shares" "share_index s = share_index t"
  obtain i where i: "i < n" "s = shares ! i" "share_index s = as_u8 (i + 1)"
    using split_share_cases [OF assms st(1)] by metis
  obtain j where j: "j < n" "t = shares ! j" "share_index t = as_u8 (j + 1)"
    using split_share_cases [OF assms st(2)] by metis
  have "n \<le> 255" using shamir_split_shape(4) [OF assms] .
  then have "i + 1 = j + 1"
    using i j st(3) as_u8_eq_iff [of "i + 1" "j + 1"] by simp
  then show "s = t" using i j by simp
qed

lemma split_distinct:
  assumes "shamir_split secret m n rng = Inr shares"
  shows "distinct shares"
proof -
  have "shares ! i \<noteq> shares ! j" if "i < n" "j < n" "i \<noteq> j" for i j
  proof -
    have "n \<le> 255" using shamir_split_shape(4) [OF assms] .
    then have "as_u8 (i + 1) \<noteq> as_u8 (j + 1)" using that by (simp add: as_u8_eq_iff)
    then show ?thesis using that shamir_split_shape(6) [OF assms] by metis
  qed
  then show ?thesis using shamir_split_shape(1) [OF assms] by (simp add: distinct_conv_nth)
qed

lemma quorum_consistent:
  assumes sp: "shamir_split secret m n rng = Inr shares"
    and sub: "set sub \<subseteq> set shares" "distinct sub" "2 \<le> length sub"
  shows "consistent sub" "length (share_data (hd sub)) = length secret"
proof -
  have len: "\<forall>s\<in>set sub. length (share_data s) = length secret"
    using split_share_cases [OF sp] sub(1) by (metis subsetD)
  moreover have "sub \<noteq> []" using sub(3) by auto
  ultimately show hd: "length (share_data (hd sub)) = length secret" by simp
  have "share_index s \<noteq> 0" if s: "s \<in> set shares" for s
  proof -
    obtain i where "i < n" "share_index s = as_u8 (i + 1)"
      using split_share_cases [OF sp s] by metis
    then show ?thesis
      using shamir_split_shape(4) [OF sp] as_u8_eq_iff [of "i + 1" 0] by (simp add: as_u8_def)
  qed
  moreover have "inj_on share_index (set sub)"
    using split_index_inj [OF sp] sub(1) by (rule inj_on_subset)
  ultimately show "consistent sub"
    using sub len hd by (auto simp: consistent_def distinct_map)
qed

lemma quorum_byte:
  assumes sp: "shamir_split secret m n rng = Inr shares"
    and sub: "set sub \<subseteq> set shares" "distinct sub" "m \<le> length sub"
    and k: "k < length secret"
  shows "value_loop sub k (enumerate 0 sub) 0 = secret ! k"
proof -
  let ?cs = "secret ! k # chunk m rng k" and ?xs = "points sub"
  have m: "2 \<le> m" using shamir_split_shape(2) [OF sp] .
  have at: "Gf (share_data (sub ! i) ! k) = poly (map Gf ?cs) (?xs ! i)" if i: "i < length sub" for i
  proof -
    have "sub ! i \<in> set shares" using sub(1) i by (auto dest: nth_mem)
    then have "share_data (sub ! i) ! k = eval_poly ?cs (share_index (sub ! i))"
      using split_share_cases [OF sp] k by metis
    with i show ?thesis by (simp add: Gf_eval_poly points_def del: poly.simps)
  qed
  have "consistent sub" using quorum_consistent(1) [OF sp sub(1,2)] sub(3) m by simp
  then have "distinct ?xs"
    by (auto simp: points_def consistent_def distinct_map inj_on_def)
  moreover have "polyfun m (poly (map Gf ?cs))"
    using polyfun_poly [of "map Gf ?cs"] m by simp
  ultimately have "(\<Sum>i<length ?xs. poly (map Gf ?cs) (?xs ! i) * lagrange_basis ?xs i 0)
      = poly (map Gf ?cs) 0"
    using sub(3) by (intro lagrange) (simp_all del: poly.simps list.map)
  moreover have "Gf (value_loop sub k (enumerate 0 sub) 0)
      = (\<Sum>i<length ?xs. poly (map Gf ?cs) (?xs ! i) * lagrange_basis ?xs i 0)"
    unfolding value_loop_lagrange using at by (intro sum.cong) simp_all
  ultimately have "Gf (value_loop sub k (enumerate 0 sub) 0) = Gf (secret ! k)" by simp
  then show ?thesis by simp
qed

lemma shamir_quorum:
  assumes "shamir_split secret m n rng = Inr shares"
    and "set sub \<subseteq> set shares" "distinct sub" "m \<le> length sub"
  shows "shamir_reconstruct sub = Inr secret"
proof -
  have "2 \<le> length sub" using assms(4) shamir_split_shape(2) [OF assms(1)] by simp
  note c = quorum_consistent [OF assms(1-3) this]
  have "map (\<lambda>k. value_loop sub k (enumerate 0 sub) 0) [0..<length secret] = secret"
    using quorum_byte [OF assms] by (intro nth_equalityI) auto
  with c show ?thesis by (simp add: shamir_reconstruct_consistent)
qed

interpretation shamir_scheme: threshold_scheme
  "\<lambda>rng secret m n. shamir_split secret m n rng" "\<lambda>rng. shamir_reconstruct" "\<lambda>_. True"
proof
  fix rng secret m n shs sub
  assume "shamir_split secret m n rng = Inr shs"
  note sh = shamir_split_shape [OF this]
  show "length shs = n" by (rule sh(1))
  show "2 \<le> m \<and> m \<le> n" using sh by simp
qed (auto intro: split_distinct shamir_quorum)

subsection \<open>Fewer than \<open>m\<close> shares say nothing\<close>

text \<open>
  For two secret bytes and fewer than \<open>m\<close> indices there is a mask of the random coefficients
  that turns every dealing of the one into a dealing of the other with the same share values.
\<close>

lemma mask_exists:
  assumes "0 \<notin> set xs" "length xs < m"
  shows "\<exists>es. length es = m - 1 \<and>
    (\<forall>cs x. length cs = m - 1 \<longrightarrow> x \<in> set xs \<longrightarrow>
       eval_poly (t # map2 gf_add cs es) x = eval_poly (s # cs) x)"
proof -
  have "0 \<notin> set (map Gf xs)" using assms(1) by (auto simp flip: Gf_simps(1))
  then obtain ds where ds: "length ds = m" "poly ds 0 = Gf t - Gf s"
      "\<forall>x\<in>set xs. poly ds (Gf x) = 0"
    using shift_exists [of "map Gf xs" m "Gf t - Gf s"] assms(2) by auto
  then obtain fs where fs: "ds = (Gf t - Gf s) # fs" "length fs = m - 1"
    using assms(2) by (cases ds) auto
  have "eval_poly (t # map2 gf_add cs (map byte_of fs)) x = eval_poly (s # cs) x"
    if cs: "length cs = m - 1" and x: "x \<in> set xs" for cs x
  proof -
    have "map Gf (t # map2 gf_add cs (map byte_of fs)) = map2 (+) (map Gf (s # cs)) ds"
      using cs fs by (auto intro!: nth_equalityI simp: Gf_simps byte_of_inverse)
    then have "poly (map Gf (t # map2 gf_add cs (map byte_of fs))) (Gf x)
        = poly (map Gf (s # cs)) (Gf x) + poly ds (Gf x)"
      using cs fs assms(2) ds(1) by (simp only:) (rule poly_map2_add, simp)
    then have "Gf (eval_poly (t # map2 gf_add cs (map byte_of fs)) x) = Gf (eval_poly (s # cs) x)"
      using ds(3) x by (simp add: Gf_eval_poly del: poly.simps list.map)
    then show ?thesis by simp
  qed
  then show ?thesis using fs by (intro exI [of _ "map byte_of fs"]) simp
qed

definition split_view :: "bytes \<Rightarrow> nat \<Rightarrow> nat \<Rightarrow> byte stream \<Rightarrow> nat list \<Rightarrow> share list option" where
  "split_view secret m n rng holders =
     (case shamir_split secret m n rng of
        Inl _ \<Rightarrow> None
      | Inr shares \<Rightarrow> Some (map (\<lambda>i. shares ! i) holders))"

lemma block_end_le: "(k::nat) < len \<Longrightarrow> k * w + w \<le> w * len"
  using mult_le_mono1 [of "Suc k" len w] by (simp add: mult.commute add.commute)

lemma chunk_shift:
  assumes "length d = (m - 1) * len" "k < len"
  shows "chunk m (d @- rest) k = take (m - 1) (drop (k * (m - 1)) d)"
  using block_end_le [OF assms(2), of "m - 1"] unfolding chunk_def
  by (simp only: sdrop_shift stake_shift assms(1) length_drop) simp

text \<open>The masks of all bytes, laid out in the order the bytes are drawn.\<close>

definition mask_layout :: "nat \<Rightarrow> nat \<Rightarrow> (nat \<Rightarrow> bytes) \<Rightarrow> bytes" where
  "mask_layout w len es = map (\<lambda>p. es (p div w) ! (p mod w)) [0..<w * len]"

lemma chunk_mask:
  assumes "length d = w * len" "k < len" "length (es k) = w"
  shows "take w (drop (k * w) (map2 gf_add d (mask_layout w len es)))
    = map2 gf_add (take w (drop (k * w) d)) (es k)"
proof -
  have le: "k * w + w \<le> w * len" using assms(2) by (rule block_end_le)
  show ?thesis
    using assms le by (intro nth_equalityI) (auto simp: mask_layout_def)
qed

lemma gf_add_cancel [simp]: "gf_add (gf_add a b) b = a"
  by (simp add: gf_add_def xor.assoc)

lemma map2_gf_add_cancel:
  "length d = length e \<Longrightarrow> map2 gf_add (map2 gf_add d e) e = d"
  by (induction d e rule: list_induct2) auto

lemma split_view_mask:
  assumes ok: "2 \<le> m" "m \<le> n" "n \<le> 255" "s \<noteq> []" "length t = length s"
    and holders: "\<forall>i\<in>set holders. i < n"
    and es: "\<And>k. k < length s \<Longrightarrow> length (es k) = m - 1"
      "\<And>k cs x. k < length s \<Longrightarrow> length cs = m - 1 \<Longrightarrow> x \<in> set (map (\<lambda>i. as_u8 (i + 1)) holders)
         \<Longrightarrow> eval_poly (t ! k # map2 gf_add cs (es k)) x = eval_poly (s ! k # cs) x"
    and d: "length d = (m - 1) * length s"
  shows "split_view t m n (map2 gf_add d (mask_layout (m - 1) (length s) es) @- rest) holders
    = split_view s m n (d @- rest) holders"
proof -
  let ?e = "mask_layout (m - 1) (length s) es"
  have le: "length ?e = (m - 1) * length s" by (simp add: mask_layout_def)
  have "t \<noteq> []" using ok by auto
  then obtain A where A: "shamir_split t m n (map2 gf_add d ?e @- rest) = Inr A"
    using ok shamir_split_Inr_iff by blast
  obtain B where B: "shamir_split s m n (d @- rest) = Inr B"
    using ok shamir_split_Inr_iff by blast
  note a = shamir_split_shape [OF A] and b = shamir_split_shape [OF B]
  have "A ! i = B ! i" if i: "i \<in> set holders" for i
  proof -
    have n: "i < n" using holders i by blast
    have "share_data (A ! i) ! k = share_data (B ! i) ! k" if k: "k < length s" for k
    proof -
      have c: "chunk m (map2 gf_add d ?e @- rest) k
          = map2 gf_add (take (m - 1) (drop (k * (m - 1)) d)) (es k)"
        using chunk_shift [of "map2 gf_add d ?e" m "length s" k rest]
          chunk_mask [of d "m - 1" "length s" k es] d le k es(1) [OF k] by simp
      have c': "chunk m (d @- rest) k = take (m - 1) (drop (k * (m - 1)) d)"
        using chunk_shift [of d m "length s" k rest] d k by simp
      have "length (chunk m (d @- rest) k) = m - 1" by simp
      then show ?thesis
        using a(8) [OF n, of k] b(8) [OF n, of k] k ok(5) i c c'
          es(2) [OF k, of "chunk m (d @- rest) k" "as_u8 (i + 1)"] by simp
    qed
    then have "share_data (A ! i) = share_data (B ! i)"
      using a(7) [OF n] b(7) [OF n] ok(5) by (intro nth_equalityI) auto
    then show ?thesis using a(6) [OF n] b(6) [OF n] by simp
  qed
  with A B show ?thesis by (simp add: split_view_def)
qed

lemma holder_indices_nonzero:
  "n \<le> 255 \<Longrightarrow> \<forall>i\<in>set holders. i < n \<Longrightarrow> 0 \<notin> set (map (\<lambda>i. as_u8 (i + 1)) holders)"
proof
  assume n: "n \<le> 255" and h: "\<forall>i\<in>set holders. i < n"
  assume "0 \<in> set (map (\<lambda>i. as_u8 (i + 1)) holders)"
  then obtain i where "i < n" "as_u8 (i + 1) = as_u8 0"
    using h by (auto simp: as_u8_numeral)
  with n show False by (simp add: as_u8_eq_iff del: add_0)
qed

lemma shamir_view_count:
  assumes len: "length t = length s" and holders: "\<forall>i\<in>set holders. i < n" "length holders < m"
  shows "card {d. length d = (m - 1) * length s \<and> split_view s m n (d @- rest) holders = view}
    = card {d. length d = (m - 1) * length t \<and> split_view t m n (d @- rest) holders = view}"
proof (cases "2 \<le> m \<and> m \<le> n \<and> n \<le> 255 \<and> s \<noteq> []")
  case False
  with len have "split_view s m n (d @- rest) holders = None"
      "split_view t m n (d @- rest) holders = None" for d
    using shamir_split_Inr_iff [of s m n "d @- rest"] shamir_split_Inr_iff [of t m n "d @- rest"]
    by (auto simp: split_view_def split: sum.splits)
  with len show ?thesis by simp
next
  case True
  let ?xs = "map (\<lambda>i. as_u8 (i + 1)) holders"
  have "0 \<notin> set ?xs" using holder_indices_nonzero True holders(1) by blast
  then have "\<forall>k. \<exists>es. length es = m - 1 \<and> (\<forall>cs x. length cs = m - 1 \<longrightarrow> x \<in> set ?xs \<longrightarrow>
       eval_poly (t ! k # map2 gf_add cs es) x = eval_poly (s ! k # cs) x)"
    using mask_exists [of ?xs m] holders(2) by simp
  then obtain es where es: "\<And>k. length (es k) = m - 1"
      "\<And>k cs x. length cs = m - 1 \<Longrightarrow> x \<in> set ?xs \<Longrightarrow>
         eval_poly (t ! k # map2 gf_add cs (es k)) x = eval_poly (s ! k # cs) x"
    by metis
  let ?h = "\<lambda>d. map2 gf_add d (mask_layout (m - 1) (length s) es)"
  have lay: "length (mask_layout (m - 1) (length s) es) = (m - 1) * length s"
    by (simp add: mask_layout_def)
  have view: "split_view t m n (?h d @- rest) holders = split_view s m n (d @- rest) holders"
    if "length d = (m - 1) * length s" for d
    using split_view_mask [of m n s t holders es d] True len holders(1) es that by blast
  have inv: "?h (?h d) = d" if "length d = (m - 1) * length s" for d
    using that lay by (simp add: map2_gf_add_cancel)
  have view': "split_view s m n (?h d @- rest) holders = split_view t m n (d @- rest) holders"
    if "length d = (m - 1) * length s" for d
    using view [of "?h d"] inv that lay by simp
  show ?thesis
    by (rule bij_betw_same_card [OF bij_betw_byWitness [where f = ?h and f' = ?h]])
       (use view view' inv lay len in auto)
qed

subsection \<open>Properties\<close>

text \<open>C1. Splitting with any parameters the source accepts succeeds, and reconstructing from the
  shares at any \<open>m\<close> or more distinct positions, in any order, returns exactly the secret,
  whatever random bytes the generator produced.\<close>

theorem shamir_any_quorum_recovers:
  assumes "2 \<le> m" "m \<le> n" "n \<le> 255" "secret \<noteq> []"
    and "distinct is" "\<forall>i\<in>set is. i < n" "m \<le> length is"
  shows "\<exists>shares. shamir_split secret m n rng = Inr shares
    \<and> shamir_reconstruct (map (\<lambda>i. shares ! i) is) = Inr secret"
proof -
  obtain shares where "shamir_split secret m n rng = Inr shares"
    using assms(1-4) shamir_split_Inr_iff by blast
  with assms shamir_scheme.recon_positions [of secret m n rng shares "is"] show ?thesis by auto
qed

theorem shamir_any_quorum_recovers_witness:
  "\<exists>shares. shamir_split [7, 42] 2 3 (sconst 5) = Inr shares
    \<and> shamir_reconstruct (map (\<lambda>i. shares ! i) [2, 0]) = Inr [7, 42]"
  using shamir_any_quorum_recovers [of 2 3 "[7, 42]" "[2, 0]" "sconst 5"] by simp

text \<open>C2. Perfect secrecy below the threshold: for two secrets of one length, the view of fewer
  than \<open>m\<close> holders (the shares they receive, or that dealing failed) arises from exactly as many
  of the random byte strings that \<open>split\<close> draws. Uniform randomness therefore leaves the
  holders' view independent of the secret, except for its length.\<close>

theorem shamir_below_threshold_secrecy:
  assumes "length t = length s" "\<forall>i\<in>set holders. i < n" "length holders < m"
  shows "card {d. length d = (m - 1) * length s \<and> split_view s m n (d @- rest) holders = view}
    = card {d. length d = (m - 1) * length s \<and> split_view t m n (d @- rest) holders = view}"
  using shamir_view_count [OF assms] assms(1) by simp

theorem shamir_below_threshold_secrecy_witness:
  "card {d. length d = 1 \<and> split_view [7] 2 3 (d @- sconst 0) [2]
      = Some [\<lparr>share_index = 3, share_data = [28]\<rparr>]}
    = card {d. length d = 1 \<and> split_view [200] 2 3 (d @- sconst 0) [2]
      = Some [\<lparr>share_index = 3, share_data = [28]\<rparr>]}"
  using shamir_below_threshold_secrecy [of "[200]" "[7]" "[2]" 3 2 "sconst 0"
      "Some [\<lparr>share_index = 3, share_data = [28]\<rparr>]"] by simp

text \<open>C24. \<open>reconstruct\<close> returns bytes exactly on share lists it must accept: two or more shares,
  all of one length, with indices that are non-zero and pairwise different. On every other list
  it returns an error, the length errors before the index errors.\<close>

theorem shamir_reconstruct_total:
  "is_ok (shamir_reconstruct ss) \<longleftrightarrow>
     2 \<le> length ss \<and> list_all (\<lambda>s. length (share_data s) = length (share_data (hd ss))) ss
     \<and> 0 \<notin> share_index ` set ss \<and> distinct (map share_index ss)"
  using shamir_reconstruct_consistent [of ss] shamir_reconstruct_inconsistent [of ss]
  by (cases "consistent ss") (auto simp: consistent_def list_all_iff)

text \<open>Losing shares: after a split, reconstruction from whatever remains once at most
  \<open>n - m\<close> of the shares are lost still returns the secret.\<close>

theorem shamir_survives_loss:
  assumes "shamir_split secret m n rng = Inr shares" "finite lost" "card lost \<le> n - m"
  shows "shamir_reconstruct (filter (\<lambda>s. s \<notin> lost) shares) = Inr secret"
  using shamir_scheme.recon_after_loss [OF _ assms] by simp

theorem shamir_survives_loss_witness:
  "\<exists>shares. shamir_split [7, 42] 2 3 (sconst 5) = Inr shares
    \<and> shamir_reconstruct (filter (\<lambda>s. s \<notin> {shares ! 1}) shares) = Inr [7, 42]"
proof -
  obtain shares where sp: "shamir_split [7, 42] 2 3 (sconst 5) = Inr shares"
    using shamir_split_Inr_iff [of "[7, 42]" 2 3 "sconst 5"] by auto
  from shamir_survives_loss [OF sp, of "{shares ! 1}"] sp show ?thesis by simp
qed

end
