(* ===== verification/Multisig.thy ===== *)
theory Multisig
  imports Shamir Externals
begin

text \<open>
  \<open>src/sharing/multisig.rs\<close>: the authenticated layer over \<open>Shamir\<close>. The secret is shared with
  an integrity tag, every share has a SHA-512 commitment and travels in a blob encrypted to its
  custodian. The lemmas show that a quorum of custodians recovers the secret, and that an accepted
  reconstruction of a quorum's size is the dealt secret unless a presented blob collides with a
  dealt share under SHA-512. Wiping of buffers is not modelled: it has no observable result.
\<close>

subsection \<open>The routines of the source\<close>

record split_result =
  blobs :: "bytes list"
  commitments :: "bytes list"
  threshold :: nat
  total :: nat

definition SECRET_TAG_LEN :: nat where
  "SECRET_TAG_LEN = 32"

definition SECRET_TAG_DOMAIN :: bytes where
  "SECRET_TAG_DOMAIN = utf8 (lit ''simple-secrets/multisig/secret-tag/v1'')"

definition secret_tag :: "crates \<Rightarrow> bytes \<Rightarrow> bytes" where
  "secret_tag X secret =
     take SECRET_TAG_LEN (sha512 X (SECRET_TAG_DOMAIN
       @ to_le 8 (word_of_nat (length secret) :: u64) @ secret))"

definition commit :: "crates \<Rightarrow> share \<Rightarrow> bytes" where
  "commit X s = sha512 X ([share_index s] @ share_data s)"

definition verify_commitment :: "crates \<Rightarrow> share \<Rightarrow> bytes \<Rightarrow> bool" where
  "verify_commitment X s commitment = (commit X s = commitment)"

definition commit_all :: "crates \<Rightarrow> share list \<Rightarrow> bytes list" where
  "commit_all X shares = map (commit X) shares"

text \<open>The nonce that \<open>encrypt\<close> draws is the third argument.\<close>

definition create_blob :: "crates \<Rightarrow> share \<Rightarrow> bytes \<Rightarrow> bytes \<Rightarrow> rstr + bytes" where
  "create_blob X s nonce custodian_key =
     encrypt X custodian_key nonce ([share_index s] @ share_data s)"

definition open_blob :: "crates \<Rightarrow> bytes \<Rightarrow> bytes \<Rightarrow> rstr + share" where
  "open_blob X blob custodian_key =
     and_then (decrypt X custodian_key blob) (\<lambda>plain.
       case plain of
         [] \<Rightarrow> Inl (lit ''DecryptionFailed(empty blob)'')
       | index # data \<Rightarrow> Inr \<lparr>share_index = index, share_data = data\<rparr>)"

definition split_secret ::
  "crates \<Rightarrow> byte stream \<Rightarrow> (nat \<Rightarrow> bytes) \<Rightarrow> bytes \<Rightarrow> nat \<Rightarrow> nat \<Rightarrow> bytes list
     \<Rightarrow> error + split_result" where
  "split_secret X rng nonces secret m n custodian_keys =
     (if length custodian_keys \<noteq> n then Inl (CustodianKeyCount n (length custodian_keys))
      else
        let payload = secret @ secret_tag X secret in
        and_then (shamir_split payload m n rng) (\<lambda>shares.
        let cs = commit_all X shares in
        and_then (collect_res (\<lambda>(i, s).
            map_err (CreateBlobFailed i) (create_blob X s (nonces i) (custodian_keys ! i)))
          (enumerate 0 shares)) (\<lambda>bs.
        Inr \<lparr>blobs = bs, commitments = cs, threshold = m, total = n\<rparr>)))"

fun check_commitments :: "crates \<Rightarrow> bytes list \<Rightarrow> share list \<Rightarrow> error + unit" where
  "check_commitments X cs [] = Inr ()"
| "check_commitments X cs (s # shares) =
     (let idx = unat (share_index s) - 1 in
      if length cs \<le> idx then Inl (CommitmentRange (share_index s))
      else if \<not> verify_commitment X s (cs ! idx) then Inl (CommitmentFailed (share_index s))
      else check_commitments X cs shares)"

definition reconstruct_secret ::
  "crates \<Rightarrow> bytes list \<Rightarrow> bytes list \<Rightarrow> bytes list \<Rightarrow> error + bytes" where
  "reconstruct_secret X blbs custodian_keys cs =
     (if length blbs \<noteq> length custodian_keys
      then Inl (BlobKeyMismatch (length blbs) (length custodian_keys))
      else
        and_then (collect_res (\<lambda>(i, blob).
            map_err (OpenBlobFailed i) (open_blob X blob (custodian_keys ! i)))
          (enumerate 0 blbs)) (\<lambda>shares.
        and_then (check_commitments X cs shares) (\<lambda>_.
        and_then (shamir_reconstruct shares) (\<lambda>payload.
          if length payload < SECRET_TAG_LEN then Inl PayloadTooShort
          else
            let split_at = length payload - SECRET_TAG_LEN in
            if drop split_at payload \<noteq> secret_tag X (take split_at payload)
            then Inl IntegrityFailed
            else Inr (take split_at payload)))))"

subsection \<open>Sealing and checking single shares\<close>

lemma open_create_blob:
  "aead_ok X \<Longrightarrow> create_blob X s r k = Inr b \<Longrightarrow> open_blob X b k = Inr s"
  by (auto simp: create_blob_def open_blob_def dest: aead_okD)

lemma length_secret_tag: "digest_lengths X \<Longrightarrow> length (secret_tag X s) = 32"
  by (simp add: secret_tag_def SECRET_TAG_LEN_def digest_lengthsD)

lemma check_commitments_ok:
  "check_commitments X cs shares = Inr () \<longleftrightarrow>
     (\<forall>s\<in>set shares. unat (share_index s) - 1 < length cs
        \<and> commit X s = cs ! (unat (share_index s) - 1))"
  by (induction shares) (auto simp: Let_def verify_commitment_def)

lemma share_enc_inj:
  "[share_index s] @ share_data s = [share_index t] @ share_data t \<Longrightarrow> s = (t :: share)"
  by (cases s; cases t) simp

subsection \<open>What \<open>split_secret\<close> deals\<close>

lemma split_secret_parts:
  assumes "split_secret X rng nonces secret m n keys = Inr r"
  obtains shares where "shamir_split (secret @ secret_tag X secret) m n rng = Inr shares"
    "length keys = n" "commitments r = map (commit X) shares" "length (blobs r) = n"
    "threshold r = m" "total r = n"
    "\<And>i. i < n \<Longrightarrow> create_blob X (shares ! i) (nonces i) (keys ! i) = Inr (blobs r ! i)"
proof -
  obtain shares where sh: "shamir_split (secret @ secret_tag X secret) m n rng = Inr shares"
    and keys: "length keys = n" and cs: "commitments r = map (commit X) shares"
    and tt: "threshold r = m" "total r = n"
    and bs: "collect_res (\<lambda>(i, s). map_err (CreateBlobFailed i)
        (create_blob X s (nonces i) (keys ! i))) (enumerate 0 shares) = Inr (blobs r)"
    using assms
    by (auto simp: split_secret_def Let_def commit_all_def res_simps split: if_splits)
  have len: "length shares = n" using shamir_split_shape(1) [OF sh] .
  show ?thesis
  proof (rule that [OF sh keys cs _ tt])
    show "length (blobs r) = n" using collect_res_length [OF bs] len by simp
    fix i assume "i < n"
    then show "create_blob X (shares ! i) (nonces i) (keys ! i) = Inr (blobs r ! i)"
      using collect_res_nth [OF bs, of i] len by (simp add: nth_enumerate_eq res_simps)
  qed
qed

lemma opened_shares:
  assumes "aead_ok X"
    and "\<And>i. i < n \<Longrightarrow> create_blob X (shares ! i) (nonces i) (keys ! i) = Inr (bs ! i)"
    and "\<forall>i\<in>set is. i < n"
  shows "collect_res (\<lambda>(j, blob). map_err (OpenBlobFailed j)
      (open_blob X blob (map (\<lambda>i. keys ! i) is ! j))) (enumerate 0 (map (\<lambda>i. bs ! i) is))
    = Inr (map (\<lambda>i. shares ! i) is)"
proof -
  let ?f = "\<lambda>(j, blob). map_err (OpenBlobFailed j) (open_blob X blob (map (\<lambda>i. keys ! i) is ! j))"
  have "?f (j, bs ! (is ! j)) = Inr (shares ! (is ! j))" if "j < length is" for j
    using that assms open_create_blob [OF assms(1) assms(2)] by (simp add: nth_mem)
  then have "list_all2 (\<lambda>x y. ?f x = Inr y) (enumerate 0 (map (\<lambda>i. bs ! i) is))
      (map (\<lambda>i. shares ! i) is)"
    by (auto simp: list_all2_conv_all_nth nth_enumerate_eq)
  then show ?thesis by (simp only: collect_res_Inr_iff)
qed

lemma dealt_commitments_check:
  assumes sp: "shamir_split payload m n rng = Inr shares" and sub: "set ss \<subseteq> set shares"
  shows "check_commitments X (map (commit X) shares) ss = Inr ()"
proof -
  have "unat (share_index s) - 1 < length shares \<and>
      commit X s = map (commit X) shares ! (unat (share_index s) - 1)" if "s \<in> set ss" for s
  proof -
    have s: "s \<in> set shares" using that sub by blast
    obtain i where i: "i < n" "s = shares ! i" "share_index s = as_u8 (i + 1)"
      using split_share_cases [OF sp s] by blast
    moreover have "n \<le> 255" "length shares = n" using shamir_split_shape [OF sp] by blast+
    ultimately have "unat (share_index s) - 1 = i" by simp
    then show ?thesis using i \<open>length shares = n\<close> by simp
  qed
  then show ?thesis by (simp add: check_commitments_ok)
qed

subsection \<open>A quorum of custodians recovers the secret\<close>

lemma multisig_quorum:
  assumes X: "aead_ok X" "digest_lengths X"
    and sp: "split_secret X rng nonces secret m n keys = Inr r"
    and "is": "distinct is" "\<forall>i\<in>set is. i < n" "m \<le> length is"
  shows "reconstruct_secret X (map (\<lambda>i. blobs r ! i) is) (map (\<lambda>i. keys ! i) is) (commitments r)
    = Inr secret"
proof -
  obtain shares where sh: "shamir_split (secret @ secret_tag X secret) m n rng = Inr shares"
    and cs: "commitments r = map (commit X) shares"
    and bl: "\<And>i. i < n \<Longrightarrow> create_blob X (shares ! i) (nonces i) (keys ! i) = Inr (blobs r ! i)"
    using split_secret_parts [OF sp] by blast
  let ?ss = "map (\<lambda>i. shares ! i) is"
  have "set ?ss \<subseteq> set shares" using "is"(2) shamir_split_shape(1) [OF sh] by auto
  note chk = dealt_commitments_check [OF sh this, of X]
  have "shamir_reconstruct ?ss = Inr (secret @ secret_tag X secret)"
    using shamir_scheme.recon_positions [OF _ sh "is"] by simp
  moreover have "length (secret_tag X secret) = 32" using X(2) by (rule length_secret_tag)
  ultimately show ?thesis
    using opened_shares [OF X(1) bl "is"(2)] chk cs
    by (simp add: reconstruct_secret_def SECRET_TAG_LEN_def)
qed

text \<open>
  A custodian's kit holds the blob, the key it was encrypted to and the published commitments. In
  this form \<open>multisig\<close> is an instance of \<open>threshold_scheme\<close>.
\<close>

record kit =
  kit_blob :: bytes
  kit_key :: bytes
  kit_commitments :: "bytes list"

record deal_env =
  env_crates :: crates
  env_rng :: "byte stream"
  env_nonces :: "nat \<Rightarrow> bytes"
  env_keys :: "bytes list"

definition kits_of :: "bytes list \<Rightarrow> split_result \<Rightarrow> kit list" where
  "kits_of keys r = map2 (\<lambda>b k. \<lparr>kit_blob = b, kit_key = k, kit_commitments = commitments r\<rparr>)
     (blobs r) keys"

definition deal_kits :: "deal_env \<Rightarrow> bytes \<Rightarrow> nat \<Rightarrow> nat \<Rightarrow> error + kit list" where
  "deal_kits E secret m n =
     map_ok (kits_of (env_keys E))
       (split_secret (env_crates E) (env_rng E) (env_nonces E) secret m n (env_keys E))"

definition recover_kits :: "deal_env \<Rightarrow> kit list \<Rightarrow> error + bytes" where
  "recover_kits E ks =
     reconstruct_secret (env_crates E) (map kit_blob ks) (map kit_key ks)
       (case ks of [] \<Rightarrow> [] | k # _ \<Rightarrow> kit_commitments k)"

definition env_law :: "deal_env \<Rightarrow> bool" where
  "env_law E \<longleftrightarrow> aead_ok (env_crates E) \<and> digest_lengths (env_crates E)"

lemma deal_kits_nth:
  assumes "deal_kits E s m n = Inr ks"
  obtains r where "split_secret (env_crates E) (env_rng E) (env_nonces E) s m n (env_keys E) = Inr r"
    "length ks = n" "2 \<le> m" "m \<le> n"
    "\<And>i. i < n \<Longrightarrow> ks ! i =
       \<lparr>kit_blob = blobs r ! i, kit_key = env_keys E ! i, kit_commitments = commitments r\<rparr>"
proof -
  obtain r where r: "split_secret (env_crates E) (env_rng E) (env_nonces E) s m n (env_keys E) = Inr r"
    and ks: "ks = kits_of (env_keys E) r"
    using assms by (auto simp: deal_kits_def res_simps)
  obtain shares where
      sh: "shamir_split (s @ secret_tag (env_crates E) s) m n (env_rng E) = Inr shares"
    and len: "length (blobs r) = n" "length (env_keys E) = n"
    using split_secret_parts [OF r] by blast
  show ?thesis
    by (rule that [OF r]) (use ks len shamir_split_shape [OF sh] in \<open>auto simp: kits_of_def\<close>)
qed

lemma deal_kits_distinct:
  assumes "env_law E" "deal_kits E s m n = Inr ks"
  shows "distinct ks"
proof -
  let ?X = "env_crates E"
  obtain r where r: "split_secret ?X (env_rng E) (env_nonces E) s m n (env_keys E) = Inr r"
    and len: "length ks = n"
    and nth: "\<And>i. i < n \<Longrightarrow> ks ! i =
       \<lparr>kit_blob = blobs r ! i, kit_key = env_keys E ! i, kit_commitments = commitments r\<rparr>"
    using deal_kits_nth [OF assms(2)] by metis
  obtain shares where sh: "shamir_split (s @ secret_tag ?X s) m n (env_rng E) = Inr shares"
    and bl: "\<And>i. i < n \<Longrightarrow>
       create_blob ?X (shares ! i) (env_nonces E i) (env_keys E ! i) = Inr (blobs r ! i)"
    using split_secret_parts [OF r] by blast
  have op: "i < n \<Longrightarrow> open_blob ?X (blobs r ! i) (env_keys E ! i) = Inr (shares ! i)" for i
    using assms(1) bl by (auto simp: env_law_def intro: open_create_blob)
  have "distinct shares" "length shares = n"
    using split_distinct [OF sh] shamir_split_shape(1) [OF sh] by blast+
  then have "shares ! i \<noteq> shares ! j" if "i < n" "j < n" "i \<noteq> j" for i j
    using that by (simp add: nth_eq_iff_index_eq)
  then have "ks ! i \<noteq> ks ! j" if "i < n" "j < n" "i \<noteq> j" for i j
    using that op [of i] op [of j] by (auto simp: nth)
  then show ?thesis using len by (simp add: distinct_conv_nth)
qed

lemma recover_kits_quorum:
  assumes "env_law E" "deal_kits E s m n = Inr ks"
    and sub: "set sub \<subseteq> set ks" "distinct sub" "m \<le> length sub"
  shows "recover_kits E sub = Inr s"
proof -
  let ?X = "env_crates E"
  obtain r where r: "split_secret ?X (env_rng E) (env_nonces E) s m n (env_keys E) = Inr r"
    and len: "length ks = n" and m: "2 \<le> m"
    and nth: "\<And>i. i < n \<Longrightarrow> ks ! i =
       \<lparr>kit_blob = blobs r ! i, kit_key = env_keys E ! i, kit_commitments = commitments r\<rparr>"
    using deal_kits_nth [OF assms(2)] by metis
  have "\<forall>k\<in>set sub. \<exists>i<n. k = ks ! i" using sub(1) len by (metis in_set_conv_nth subsetD)
  then obtain f where f: "\<And>k. k \<in> set sub \<Longrightarrow> f k < n \<and> k = ks ! f k" by metis
  let ?is = "map f sub"
  have "inj_on f (set sub)" by (rule inj_onI) (metis f)
  then have "is": "distinct ?is" "\<forall>i\<in>set ?is. i < n" "m \<le> length ?is"
    using sub f by (auto simp: distinct_map)
  have "k \<in> set sub \<Longrightarrow> k =
      \<lparr>kit_blob = blobs r ! f k, kit_key = env_keys E ! f k, kit_commitments = commitments r\<rparr>" for k
    using f nth by metis
  then have kit: "k \<in> set sub \<Longrightarrow> kit_blob k = blobs r ! f k \<and> kit_key k = env_keys E ! f k
      \<and> kit_commitments k = commitments r" for k
    by (metis kit.select_convs)
  have "map kit_blob sub = map (\<lambda>i. blobs r ! i) ?is" "map kit_key sub = map (\<lambda>i. env_keys E ! i) ?is"
    using kit by simp_all
  moreover have "(case sub of [] \<Rightarrow> [] | k # _ \<Rightarrow> kit_commitments k) = commitments r"
    using kit sub(3) m by (cases sub) auto
  moreover have "reconstruct_secret ?X (map (\<lambda>i. blobs r ! i) ?is) (map (\<lambda>i. env_keys E ! i) ?is)
      (commitments r) = Inr s"
    using assms(1) by (intro multisig_quorum [OF _ _ r "is"]) (simp_all add: env_law_def)
  ultimately show ?thesis by (simp only: recover_kits_def)
qed

interpretation multisig_scheme: threshold_scheme deal_kits recover_kits env_law
proof
  fix E s m n ks
  assume "env_law E" "deal_kits E s m n = Inr ks"
  from deal_kits_nth [OF this(2)]
  show "length ks = n" and "2 \<le> m \<and> m \<le> n" by metis+
qed (auto intro: deal_kits_distinct recover_kits_quorum)

subsection \<open>Accepted reconstructions\<close>

text \<open>
  A presented blob collides when it opens to a share other than a dealt one with the same SHA-512
  commitment.
\<close>

definition collides :: "crates \<Rightarrow> share list \<Rightarrow> bytes \<Rightarrow> bytes \<Rightarrow> bool" where
  "collides X shares b k =
     (case open_blob X b k of
        Inl _ \<Rightarrow> False
      | Inr t \<Rightarrow> list_ex (\<lambda>s. s \<noteq> t \<and> commit X s = commit X t) shares)"

lemma reconstruct_secret_parts:
  assumes "reconstruct_secret X bs ks cs = Inr s"
  obtains os payload where "length os = length bs"
    "\<And>i. i < length bs \<Longrightarrow> open_blob X (bs ! i) (ks ! i) = Inr (os ! i)"
    "check_commitments X cs os = Inr ()" "shamir_reconstruct os = Inr payload"
    "payload = s @ secret_tag X s" "length ks = length bs"
proof -
  obtain os payload where
      os: "collect_res (\<lambda>(i, blob). map_err (OpenBlobFailed i) (open_blob X blob (ks ! i)))
        (enumerate 0 bs) = Inr os"
    and chk: "check_commitments X cs os = Inr ()" and rc: "shamir_reconstruct os = Inr payload"
    and tag: "s = take (length payload - SECRET_TAG_LEN) payload"
      "drop (length payload - SECRET_TAG_LEN) payload
         = secret_tag X (take (length payload - SECRET_TAG_LEN) payload)"
    and ks: "length ks = length bs"
    using assms by (auto simp: reconstruct_secret_def Let_def res_simps split: if_splits)
  show ?thesis
  proof (rule that [OF _ _ chk rc _ ks])
    show "length os = length bs" using collect_res_length [OF os] by simp
    show "payload = s @ secret_tag X s" using tag by (metis append_take_drop_id)
    fix i assume "i < length bs"
    then show "open_blob X (bs ! i) (ks ! i) = Inr (os ! i)"
      using collect_res_nth [OF os, of i] by (simp add: nth_enumerate_eq res_simps)
  qed
qed

lemma reconstruct_binding:
  assumes X: "digest_lengths X"
    and sh: "shamir_split (secret @ secret_tag X secret) m n rng = Inr shares"
    and rc: "reconstruct_secret X bs ks (map (commit X) shares) = Inr s"
    and len: "m \<le> length bs"
    and nc: "\<forall>i<length bs. \<not> collides X shares (bs ! i) (ks ! i)"
  shows "s = secret"
proof -
  obtain os payload where os: "length os = length bs"
    "\<And>i. i < length bs \<Longrightarrow> open_blob X (bs ! i) (ks ! i) = Inr (os ! i)"
    and chk: "check_commitments X (map (commit X) shares) os = Inr ()"
    and pl: "shamir_reconstruct os = Inr payload" "payload = s @ secret_tag X s"
    using reconstruct_secret_parts [OF rc] by metis
  have "t \<in> set shares" if t: "t \<in> set os" for t
  proof -
    obtain i where i: "i < length bs" "t = os ! i" using t os(1) by (metis in_set_conv_nth)
    let ?j = "unat (share_index t) - 1"
    have j: "?j < length shares" "commit X t = commit X (shares ! ?j)"
      using chk t by (auto simp: check_commitments_ok)
    moreover have "\<not> collides X shares (bs ! i) (ks ! i)" using nc i by blast
    then have "\<forall>u\<in>set shares. u = t \<or> commit X u \<noteq> commit X t"
      using i os(2) [OF i(1)] by (auto simp: collides_def list_ex_iff)
    ultimately show ?thesis by (metis nth_mem)
  qed
  moreover have "consistent os"
    using pl(1) shamir_reconstruct_inconsistent [of os] by fastforce
  then have "distinct os" by (auto simp: consistent_def distinct_map)
  ultimately have "shamir_reconstruct os = Inr (secret @ secret_tag X secret)"
    using len os(1) by (intro shamir_quorum [OF sh]) auto
  with pl have "s @ secret_tag X s = secret @ secret_tag X secret" by simp
  then show ?thesis using length_secret_tag [OF X] by (metis append_eq_append_conv)
qed

subsection \<open>A dealing at concrete values\<close>

lemma split_secret_ok:
  assumes "\<forall>k r p. is_ok (encrypt X k r p)" "digest_lengths X"
    and "2 \<le> m" "m \<le> n" "n \<le> 255" "length keys = n"
  shows "\<exists>r. split_secret X rng nonces secret m n keys = Inr r"
proof -
  have "secret @ secret_tag X secret \<noteq> []" using length_secret_tag [OF assms(2), of secret] by auto
  then obtain shares where sh: "shamir_split (secret @ secret_tag X secret) m n rng = Inr shares"
    using assms(3-5) shamir_split_Inr_iff by blast
  have "\<forall>s k r. \<exists>b. create_blob X s r k = Inr b" using assms(1) by (auto simp: create_blob_def is_ok_iff)
  then obtain f where f: "\<And>s k r. create_blob X s r k = Inr (f s k r)" by metis
  have "collect_res (\<lambda>(i, s). map_err (CreateBlobFailed i) (create_blob X s (nonces i) (keys ! i)))
      (enumerate 0 shares) = Inr (map (\<lambda>(i, s). f s (keys ! i) (nonces i)) (enumerate 0 shares))"
    by (rule collect_res_map_Inr) (auto simp: f)
  with sh assms(6) show ?thesis by (simp add: split_secret_def Let_def)
qed

lemma demo_dealing: "\<exists>r. split_secret demo_crates (sconst 5) (\<lambda>_. []) [9, 7] 2 3 [[1], [2], [3]] = Inr r"
  by (rule split_secret_ok) (simp_all add: demo_crates_ok demo_crates_simps)

subsection \<open>Properties\<close>

text \<open>C3. With a working AEAD and SHA-512 output of its length, the blobs and keys of any \<open>m\<close> or
  more distinct custodians, in any order, reconstruct exactly the secret that was split.\<close>

theorem multisig_quorum_recovers:
  assumes "aead_ok X" "digest_lengths X"
    and "split_secret X rng nonces secret m n keys = Inr r"
    and "distinct is" "\<forall>i\<in>set is. i < n" "m \<le> length is"
  shows "reconstruct_secret X (map (\<lambda>i. blobs r ! i) is) (map (\<lambda>i. keys ! i) is) (commitments r)
    = Inr secret"
  using assms by (rule multisig_quorum)

theorem multisig_quorum_recovers_witness:
  "\<exists>r. split_secret demo_crates (sconst 5) (\<lambda>_. []) [9, 7] 2 3 [[1], [2], [3]] = Inr r
    \<and> reconstruct_secret demo_crates [blobs r ! 2, blobs r ! 0] [[3], [1]] (commitments r)
      = Inr [9, 7]"
  using demo_dealing
    multisig_quorum_recovers [OF demo_crates_ok(3,1), of "sconst 5" "\<lambda>_. []" "[9, 7]" 2 3
      "[[1], [2], [3]]" _ "[2, 0]"] by auto

text \<open>C4. Binding to the commitments: against the commitments of a dealing, an adversary who
  chooses all the blobs and keys, at least \<open>m\<close> of them, either gets an error, or the secret that
  was dealt, or has exhibited a blob that opens to a share which collides with a dealt one under
  SHA-512.\<close>

theorem multisig_accepts_only_dealt_secret:
  assumes "digest_lengths X"
    and "shamir_split (secret @ secret_tag X secret) m n rng = Inr shares"
    and "m \<le> length bs"
    and "\<forall>i<length bs. \<not> collides X shares (bs ! i) (ks ! i)"
  shows "reconstruct_secret X bs ks (commit_all X shares) \<in> range Inl \<union> {Inr secret}"
  using reconstruct_binding [OF assms(1,2) _ assms(3,4)]
  by (cases "reconstruct_secret X bs ks (commit_all X shares)") (auto simp: commit_all_def)

lemma demo_commit_index: "hd (commit demo_crates s) = share_index s"
  by (simp add: commit_def demo_crates_simps pad_to_def)

theorem multisig_accepts_only_dealt_secret_witness:
  "\<exists>shares. shamir_split ([9] @ secret_tag demo_crates [9]) 2 3 (sconst 5) = Inr shares
    \<and> reconstruct_secret demo_crates
        [[1] @ [1] @ share_data (shares ! 0), [2] @ [3] @ share_data (shares ! 2)] [[1], [2]]
        (commit_all demo_crates shares)
      \<in> range Inl \<union> {Inr [9]}"
proof -
  have "secret_tag demo_crates [9] \<noteq> []"
    using length_secret_tag [OF demo_crates_ok(1), of "[9]"] by auto
  then obtain shares where
      sh: "shamir_split ([9] @ secret_tag demo_crates [9]) 2 3 (sconst 5) = Inr shares"
    using shamir_split_Inr_iff [of "[9] @ secret_tag demo_crates [9]" 2 3 "sconst 5"] by auto
  let ?bs = "[[1] @ [1] @ share_data (shares ! 0), [2] @ [3] @ share_data (shares ! 2)]"
  have len: "length shares = 3" and ix: "share_index (shares ! 0) = 1" "share_index (shares ! 2) = 3"
    using shamir_split_shape(1,6) [OF sh] by (simp_all add: as_u8_def)
  then have op: "open_blob demo_crates (?bs ! 0) [1] = Inr (shares ! 0)"
      "open_blob demo_crates (?bs ! 1) [2] = Inr (shares ! 2)"
    by (simp_all add: open_blob_def demo_crates_simps demo_open_def flip: ix)
  have "s = t" if "s \<in> set shares" "t \<in> set shares" "commit demo_crates s = commit demo_crates t" for s t
    using that split_index_inj [OF sh] demo_commit_index by (metis inj_onD)
  moreover have "shares ! 0 \<in> set shares" "shares ! 2 \<in> set shares" using len by simp_all
  ultimately have "\<forall>i<length ?bs. \<not> collides demo_crates shares (?bs ! i) ([[1], [2]] ! i)"
    using op by (auto simp: collides_def list_ex_iff less_Suc_eq)
  from multisig_accepts_only_dealt_secret [OF demo_crates_ok(1) sh _ this] sh show ?thesis by auto
qed

text \<open>Whatever \<open>reconstruct_secret\<close> returns passed every check: each blob opened under its
  key to a share whose commitment is published at its index, and the reconstructed payload is the
  returned secret followed by its own integrity tag.\<close>

theorem multisig_result_is_checked:
  assumes "reconstruct_secret X bs ks cs = Inr s"
  shows "\<exists>os. length os = length bs
    \<and> (\<forall>i<length bs. open_blob X (bs ! i) (ks ! i) = Inr (os ! i))
    \<and> (\<forall>t\<in>set os. commit X t = cs ! (unat (share_index t) - 1))
    \<and> shamir_reconstruct os = Inr (s @ secret_tag X s)"
proof -
  obtain os payload where "length os = length bs"
    "\<And>i. i < length bs \<Longrightarrow> open_blob X (bs ! i) (ks ! i) = Inr (os ! i)"
    "check_commitments X cs os = Inr ()"
    "shamir_reconstruct os = Inr payload" "payload = s @ secret_tag X s"
    using reconstruct_secret_parts [OF assms] by metis
  then show ?thesis by (intro exI [of _ os]) (auto simp: check_commitments_ok)
qed

theorem multisig_result_is_checked_witness:
  "\<exists>r os. split_secret demo_crates (sconst 5) (\<lambda>_. []) [9, 7] 2 3 [[1], [2], [3]] = Inr r
    \<and> length os = 2
    \<and> shamir_reconstruct os = Inr ([9, 7] @ secret_tag demo_crates [9, 7])"
proof -
  obtain r where r: "split_secret demo_crates (sconst 5) (\<lambda>_. []) [9, 7] 2 3 [[1], [2], [3]] = Inr r"
    using demo_dealing by blast
  have "reconstruct_secret demo_crates [blobs r ! 2, blobs r ! 0] [[3], [1]] (commitments r)
      = Inr [9, 7]"
    using multisig_quorum [OF demo_crates_ok(3,1) r, of "[2, 0]"] by simp
  from multisig_result_is_checked [OF this] r show ?thesis by (simp add: numeral_2_eq_2) blast
qed

end
