(* ===== verification/Bits.thy ===== *)
theory Bits
  imports Prelude
begin

text \<open>
  Words and byte strings as streams of bits, highest bit first. The passphrase generator and the
  base32 codec both move bits between groups of different sizes; their proofs compare bit streams.
\<close>

unbundle bit_operations_syntax

subsection \<open>The bit stream\<close>

definition byte_bits :: "byte \<Rightarrow> bool list" where
  "byte_bits b = map (\<lambda>k. bit b (7 - k)) [0..<8]"

definition bit_stream :: "bytes \<Rightarrow> bool list" where
  "bit_stream bs = concat (map byte_bits bs)"

definition bits_value :: "bool list \<Rightarrow> nat" where
  "bits_value bs = foldl (\<lambda>v b. 2 * v + of_bool b) 0 bs"

lemma length_byte_bits [simp]: "length (byte_bits b) = 8"
  by (simp add: byte_bits_def)

lemma length_bit_stream [simp]: "length (bit_stream bs) = 8 * length bs"
  by (induction bs) (simp_all add: bit_stream_def)

lemma bit_stream_nth: "k < 8 * length bs \<Longrightarrow> bit_stream bs ! k = bit (bs ! (k div 8)) (7 - k mod 8)"
proof (induction bs arbitrary: k)
  case Nil
  then show ?case by simp
next
  case (Cons b bs)
  show ?case
  proof (cases "k < 8")
    case True
    then show ?thesis by (simp add: bit_stream_def nth_append) (simp add: byte_bits_def)
  next
    case False
    then obtain j where j: "k = j + 8" by (metis add.commute le_Suc_ex not_less)
    then have "k div 8 = Suc (j div 8)" "k mod 8 = j mod 8" by simp_all
    with j Cons show ?thesis
      by (simp add: bit_stream_def nth_append)
  qed
qed

lemma byte_bits_inj: "byte_bits a = byte_bits b \<Longrightarrow> a = b"
proof (rule bit_word_eqI)
  fix n assume eq: "byte_bits a = byte_bits b" and "n < LENGTH(8)"
  then have "7 - n < 8" "7 - (7 - n) = n" by auto
  then have "byte_bits a ! (7 - n) = bit a n" "byte_bits b ! (7 - n) = bit b n"
    by (simp_all add: byte_bits_def)
  with eq show "bit a n = bit b n" by simp
qed

lemma bit_stream_inj: "length a = length b \<Longrightarrow> bit_stream a = bit_stream b \<Longrightarrow> a = b"
  by (induction a b rule: list_induct2) (auto simp: bit_stream_def dest: byte_bits_inj)

lemma foldl_bits: "foldl (\<lambda>v b. 2 * v + of_bool b) i bs = i * 2 ^ length bs + bits_value bs"
proof (induction bs arbitrary: i)
  case Nil
  then show ?case by (simp add: bits_value_def)
next
  case (Cons b bs)
  from Cons [of "2 * i + of_bool b"] Cons [of "of_bool b"] show ?case
    by (simp add: bits_value_def algebra_simps)
qed

lemma bits_value_Cons: "bits_value (b # bs) = of_bool b * 2 ^ length bs + bits_value bs"
  using foldl_bits [of "of_bool b" bs] by (simp add: bits_value_def)

lemma bits_value_less: "bits_value bs < 2 ^ length bs"
proof (induction bs)
  case Nil
  then show ?case by (simp add: bits_value_def)
next
  case (Cons b bs)
  then show ?case by (cases b) (auto simp: bits_value_Cons)
qed

lemma bits_value_inj: "length a = length b \<Longrightarrow> bits_value a = bits_value b \<Longrightarrow> a = b"
proof (induction a b rule: list_induct2)
  case Nil
  then show ?case by simp
next
  case (Cons x xs y ys)
  have "bits_value xs < 2 ^ length xs" "bits_value ys < 2 ^ length xs"
    using bits_value_less [of xs] bits_value_less [of ys] Cons.hyps by simp_all
  with Cons show ?case by (cases x; cases y) (auto simp: bits_value_Cons)
qed

subsection \<open>Low-order bits of an accumulator\<close>

definition low_bits :: "nat \<Rightarrow> 'a::len word \<Rightarrow> bool list" where
  "low_bits n w = map (bit w) (rev [0..<n])"

lemma length_low_bits [simp]: "length (low_bits n w) = n"
  by (simp add: low_bits_def)

lemma low_bits_0 [simp]: "low_bits 0 w = []"
  by (simp add: low_bits_def)

lemma low_bits_nth: "k < n \<Longrightarrow> low_bits n w ! k = bit w (n - 1 - k)"
  by (simp add: low_bits_def rev_nth)

lemma byte_bits_low_bits: "byte_bits b = low_bits 8 b"
  by (rule nth_equalityI) (simp_all add: byte_bits_def low_bits_nth)

lemma low_bits_cong: "(\<And>k. k < n \<Longrightarrow> bit v k = bit w k) \<Longrightarrow> low_bits n v = low_bits n w"
  by (simp add: low_bits_def)

lemma low_bits_take_drop: "low_bits (m + n) w = low_bits m (drop_bit n w) @ low_bits n w"
  by (rule nth_equalityI)
     (auto simp: low_bits_nth nth_append bit_drop_bit_eq intro!: arg_cong [where f = "bit w"])

lemma low_bits_append:
  assumes "n + k \<le> LENGTH('a)" "\<And>j. k \<le> j \<Longrightarrow> \<not> bit v j"
  shows "low_bits (n + k) (push_bit k w OR v :: 'a::len word) = low_bits n w @ low_bits k v"
proof -
  have "low_bits n (drop_bit k (push_bit k w OR v)) = low_bits n w"
    using assms by (intro low_bits_cong) (auto simp: bit_simps add.commute)
  moreover have "low_bits k (push_bit k w OR v) = low_bits k v"
    by (intro low_bits_cong) (auto simp: bit_simps)
  ultimately show ?thesis by (simp add: low_bits_take_drop)
qed

lemma low_bits_ucast:
  "n \<le> LENGTH('b) \<Longrightarrow> n \<le> LENGTH('a) \<Longrightarrow>
     low_bits n (ucast (w :: 'a::len word) :: 'b::len word) = low_bits n w"
  by (rule low_bits_cong) (simp add: bit_ucast_iff)

lemma low_bits_mask: "low_bits n (w AND mask n :: 'a::len word) = low_bits n (w :: 'a word)"
  by (rule low_bits_cong) (auto simp: bit_simps dest: bit_imp_le_length)

lemma low_bits_zero: "low_bits k (0 :: 'a::len word) = replicate k False"
  by (rule nth_equalityI) (simp_all add: low_bits_nth)

lemma low_bits_push: "n + k \<le> LENGTH('a) \<Longrightarrow>
    low_bits (n + k) (push_bit k w :: 'a::len word) = low_bits n w @ replicate k False"
  using low_bits_append [of n k "0 :: 'a word" w] by (simp add: low_bits_zero)

lemma bits_value_low_bits: "bits_value (low_bits n w) = unat (take_bit n w)"
proof (induction n)
  case 0
  then show ?case by (simp add: bits_value_def)
next
  case (Suc n)
  have "low_bits (Suc n) w = bit w n # low_bits n w" by (simp add: low_bits_def)
  moreover have "unat (take_bit (Suc n) w) = of_bool (bit w n) * 2 ^ n + unat (take_bit n w)"
    by (simp add: unsigned_take_bit_eq take_bit_Suc_from_most bit_unsigned_iff bit_imp_le_length)
  ultimately show ?case using Suc by (simp add: bits_value_Cons)
qed

end
