(* ===== verification/Passphrase.thy ===== *)
theory Passphrase
  imports Errors Bits
begin

text \<open>
  \<open>src/core/passphrase.rs\<close>: words are chosen by reading \<open>log2\<close> of the list's length bits per
  word from a random byte string, the first bit of a byte being its highest. The lemmas relate the
  index arithmetic of the source to the plain stream of bits, from which the uniformity of the
  selection follows by counting.
\<close>

unbundle bit_operations_syntax

subsection \<open>The routines of the source\<close>

text \<open>The bundled word list is a text file of the repository; the functions take its contents.\<close>

definition default_wordlist :: "rstr \<Rightarrow> rstr list" where
  "default_wordlist txt = filter (\<lambda>l. l \<noteq> []) (map trim (lines txt))"

text \<open>\<open>usize::trailing_zeros\<close> and \<open>usize::is_power_of_two\<close>.\<close>

fun trailing_zeros :: "nat \<Rightarrow> nat" where
  "trailing_zeros n =
     (if n = 0 then 64 else if n mod 2 = 1 then 0 else Suc (trailing_zeros (n div 2)))"

declare trailing_zeros.simps [simp del]

definition is_power_of_two :: "nat \<Rightarrow> bool" where
  "is_power_of_two n \<longleftrightarrow> n \<noteq> 0 \<and> n = 2 ^ trailing_zeros n"

definition entropy_bits :: "nat \<Rightarrow> nat \<Rightarrow> nat" where
  "entropy_bits wordlist_len count =
     (if is_power_of_two wordlist_len \<and> wordlist_len > 1
      then trailing_zeros wordlist_len * count else 0)"

fun read_index :: "bytes \<Rightarrow> nat \<Rightarrow> nat \<Rightarrow> nat \<Rightarrow> nat \<times> nat" where
  "read_index random 0 bit_pos idx = (idx, bit_pos)"
| "read_index random (Suc bits) bit_pos idx =
     (let byte = random ! (bit_pos div 8);
          b = drop_bit (7 - bit_pos mod 8) byte AND 1
      in read_index random bits (bit_pos + 1) (push_bit 1 idx OR unat b))"

fun select_loop :: "rstr list \<Rightarrow> bytes \<Rightarrow> nat \<Rightarrow> nat \<Rightarrow> nat \<Rightarrow> rstr list" where
  "select_loop wordlist random bits 0 bit_pos = []"
| "select_loop wordlist random bits (Suc count) bit_pos =
     (let (idx, bit_pos') = read_index random bits bit_pos 0
      in (wordlist ! idx) # select_loop wordlist random bits count bit_pos')"

definition select_words :: "rstr list \<Rightarrow> nat \<Rightarrow> bytes \<Rightarrow> error + rstr list" where
  "select_words wordlist count random =
     (let len = length wordlist in
      if \<not> is_power_of_two len \<or> len \<le> 1 then Inl WordlistNotPowerOfTwo
      else
        let bits = trailing_zeros len; needed_bits = count * bits in
        if length random * 8 < needed_bits
        then Inl (NeedRandomness ((needed_bits + 7) div 8) (length random))
        else Inr (select_loop wordlist random bits count 0))"

definition required_random_bytes :: "nat \<Rightarrow> nat \<Rightarrow> nat" where
  "required_random_bytes wordlist_len count =
     (if \<not> is_power_of_two wordlist_len \<or> wordlist_len \<le> 1 then 0
      else (trailing_zeros wordlist_len * count + 7) div 8)"

subsection \<open>The loops read the bit stream\<close>

lemma read_bit: "unat (drop_bit j b AND 1 :: byte) = of_bool (bit b j)"
  by (simp add: and_one_eq bit_iff_odd_drop_bit odd_iff_mod_2_eq_one)

lemma push_or_bit: "push_bit 1 (i::nat) OR of_bool b = 2 * i + of_bool b"
  by (cases b) (simp_all add: or_Suc_0_eq push_bit_eq_mult mult.commute)

lemma read_index_stream:
  assumes "bit_pos + bits \<le> 8 * length random"
  shows "read_index random bits bit_pos idx =
    (foldl (\<lambda>v b. 2 * v + of_bool b) idx (take bits (drop bit_pos (bit_stream random))), bit_pos + bits)"
  using assms
proof (induction bits arbitrary: bit_pos idx)
  case 0
  then show ?case by simp
next
  case (Suc bits)
  then have "drop bit_pos (bit_stream random)
      = bit (random ! (bit_pos div 8)) (7 - bit_pos mod 8) # drop (Suc bit_pos) (bit_stream random)"
    using bit_stream_nth [of bit_pos random] by (simp flip: Cons_nth_drop_Suc)
  with Suc.IH [of "Suc bit_pos"] Suc.prems show ?case
    by (simp add: Let_def read_bit push_or_bit [simplified])
qed

definition word_index :: "nat \<Rightarrow> bytes \<Rightarrow> nat \<Rightarrow> nat" where
  "word_index bits random i = bits_value (take bits (drop (i * bits) (bit_stream random)))"

lemma select_loop_stream:
  assumes "bit_pos + count * bits \<le> 8 * length random"
  shows "select_loop wordlist random bits count bit_pos =
    map (\<lambda>i. wordlist ! bits_value (take bits (drop (bit_pos + i * bits) (bit_stream random)))) [0..<count]"
  using assms
proof (induction count arbitrary: bit_pos)
  case 0
  then show ?case by simp
next
  case (Suc count)
  have "select_loop wordlist random bits count (bit_pos + bits) =
      map (\<lambda>i. wordlist ! bits_value (take bits (drop (bit_pos + Suc i * bits) (bit_stream random)))) [0..<count]"
    using Suc.IH [of "bit_pos + bits"] Suc.prems by (simp add: algebra_simps)
  moreover have "read_index random bits bit_pos 0
      = (bits_value (take bits (drop bit_pos (bit_stream random))), bit_pos + bits)"
    using read_index_stream [of bit_pos bits random 0] Suc.prems by (simp add: bits_value_def)
  ultimately show ?case
    by (simp add: upt_conv_Cons map_Suc_upt [symmetric] comp_def del: upt_Suc)
qed

subsection \<open>Counting random strings\<close>

lemma card_bools: "card {q :: bool list. length q = n} = 2 ^ n"
  using card_lists_length_eq [of "UNIV :: bool set" n] by simp

lemma bit_stream_inj_on: "inj_on bit_stream {r. length r = L}"
  by (rule inj_onI) (simp add: bit_stream_inj)

lemma bit_stream_image: "bit_stream ` {r. length r = L} = {q. length q = 8 * L}"
proof (rule card_subset_eq)
  show "finite {q :: bool list. length q = 8 * L}"
    using finite_lists_length_eq [of "UNIV :: bool set" "8 * L"] by simp
  have "card (bit_stream ` {r. length r = L}) = card {r :: bytes. length r = L}"
    by (rule card_image) (rule bit_stream_inj_on)
  also have "\<dots> = 256 ^ L"
    using card_lists_length_eq [of "UNIV :: byte set" L] by (simp add: card_word)
  also have "\<dots> = 2 ^ (8 * L)" by (simp add: power_mult)
  finally show "card (bit_stream ` {r. length r = L}) = card {q :: bool list. length q = 8 * L}"
    by (simp add: card_bools)
qed auto

lemma bit_stream_obtain: "length q = 8 * L \<Longrightarrow> \<exists>r. length r = L \<and> bit_stream r = q"
proof -
  assume "length q = 8 * L"
  then have "q \<in> bit_stream ` {r. length r = L}" unfolding bit_stream_image by simp
  then show ?thesis by auto
qed

lemma card_prefix:
  assumes "length p = N" "N \<le> 8 * L"
  shows "card {r. length r = L \<and> take N (bit_stream r) = p} = 2 ^ (8 * L - N)"
proof -
  have "q \<in> bit_stream ` {r. length r = L \<and> take N (bit_stream r) = p}"
    if "length q = 8 * L" "take N q = p" for q
    using bit_stream_obtain [OF that(1)] that(2) by auto
  then have "bit_stream ` {r. length r = L \<and> take N (bit_stream r) = p}
      = {q. length q = 8 * L \<and> take N q = p}"
    by auto
  also have "\<dots> = (\<lambda>t. p @ t) ` {t. length t = 8 * L - N}"
  proof (intro set_eqI iffI)
    fix q assume "q \<in> {q. length q = 8 * L \<and> take N q = p}"
    then have "length q = 8 * L" "p = take N q" by simp_all
    then have "q = p @ drop N q" "length (drop N q) = 8 * L - N" by simp_all
    then show "q \<in> (\<lambda>t. p @ t) ` {t. length t = 8 * L - N}" by blast
  qed (use assms in auto)
  finally have im: "bit_stream ` {r. length r = L \<and> take N (bit_stream r) = p}
      = (\<lambda>t. p @ t) ` {t. length t = 8 * L - N}" .
  have "card {r. length r = L \<and> take N (bit_stream r) = p}
      = card (bit_stream ` {r. length r = L \<and> take N (bit_stream r) = p})"
    using bit_stream_inj_on [of L] by (intro card_image [symmetric]) (rule inj_on_subset, auto)
  also have "\<dots> = 2 ^ (8 * L - N)"
    unfolding im by (subst card_image) (auto intro: inj_onI simp: card_bools)
  finally show ?thesis .
qed

definition words_of :: "rstr list \<Rightarrow> nat \<Rightarrow> nat \<Rightarrow> bool list \<Rightarrow> rstr list" where
  "words_of wl bits count q = map (\<lambda>i. wl ! bits_value (take bits (drop (i * bits) q))) [0..<count]"

lemma chunks_eq:
  assumes "length p = count * bits" "length q = count * bits"
    and "\<And>i. i < count \<Longrightarrow> take bits (drop (i * bits) p) = take bits (drop (i * bits) q)"
  shows "p = q"
  using assms
proof (induction count arbitrary: p q)
  case 0
  then show ?case by simp
next
  case (Suc count)
  have "drop bits p = drop bits q"
  proof (rule Suc.IH)
    fix i assume "i < count"
    then show "take bits (drop (i * bits) (drop bits p)) = take bits (drop (i * bits) (drop bits q))"
      using Suc.prems(3) [of "Suc i"] by (simp add: add.commute)
  qed (use Suc.prems in simp_all)
  moreover have "take bits p = take bits q" using Suc.prems(3) [of 0] by simp
  ultimately show ?case by (metis append_take_drop_id)
qed

lemma words_of_bij:
  assumes "distinct wl" "length wl = 2 ^ bits"
  shows "bij_betw (words_of wl bits count) {q. length q = count * bits}
    {ws. length ws = count \<and> set ws \<subseteq> set wl}"
proof -
  have lt: "bits_value (take bits (drop (i * bits) q)) < length wl" for i q
    using bits_value_less [of "take bits (drop (i * bits) q)"] assms(2)
    by (metis length_take min.cobounded2 order_less_le_trans power_increasing_iff one_less_numeral_iff semiring_norm(76))
  have inj: "inj_on (words_of wl bits count) {q. length q = count * bits}"
  proof (rule inj_onI)
    fix p q assume pq: "p \<in> {q. length q = count * bits}" "q \<in> {q. length q = count * bits}"
      and eq: "words_of wl bits count p = words_of wl bits count q"
    show "p = q"
    proof (rule chunks_eq)
      fix i assume i: "i < count"
      then have "wl ! bits_value (take bits (drop (i * bits) p)) = wl ! bits_value (take bits (drop (i * bits) q))"
        using eq by (simp add: words_of_def)
      then have "bits_value (take bits (drop (i * bits) p)) = bits_value (take bits (drop (i * bits) q))"
        using assms(1) lt by (simp add: nth_eq_iff_index_eq)
      then show "take bits (drop (i * bits) p) = take bits (drop (i * bits) q)"
        using pq by (intro bits_value_inj) simp_all
    qed (use pq in auto)
  qed
  let ?T = "{ws. set ws \<subseteq> set wl \<and> length ws = count}"
  have "words_of wl bits count ` {q. length q = count * bits} = ?T"
  proof (rule card_subset_eq)
    show "finite ?T" by (rule finite_lists_length_eq) simp
    show "words_of wl bits count ` {q. length q = count * bits} \<subseteq> ?T"
      using lt by (auto simp: words_of_def)
    show "card (words_of wl bits count ` {q. length q = count * bits}) = card ?T"
      using assms inj
      by (simp add: card_image card_bools card_lists_length_eq distinct_card power_mult mult.commute)
  qed
  with inj show ?thesis by (simp add: bij_betw_def conj_commute)
qed

lemma select_words_words_of:
  assumes "length wl = 2 ^ bits" "0 < bits" "is_power_of_two (length wl)" "count * bits \<le> 8 * length r"
  shows "select_words wl count r = Inr (words_of wl bits count (take (count * bits) (bit_stream r)))"
proof -
  have tz: "trailing_zeros (length wl) = bits"
    using assms(1,3) by (simp add: is_power_of_two_def)
  have "take bits (drop (i * bits) (take (count * bits) (bit_stream r)))
      = take bits (drop (i * bits) (bit_stream r))" if "i < count" for i
  proof -
    have "bits \<le> count * bits - i * bits"
      using that mult_le_mono1 [of 1 "count - i" bits] by (simp add: diff_mult_distrib)
    then show ?thesis by (simp add: drop_take min_absorb1)
  qed
  moreover have "1 < length wl" using assms(1,2) one_less_power [of "2::nat" bits] by simp
  ultimately show ?thesis
    using assms tz select_loop_stream [of 0 count bits r wl]
    by (simp add: select_words_def words_of_def Let_def mult.commute)
qed

lemma trailing_zeros_power: "trailing_zeros (2 ^ k) = k"
  by (induction k) (simp_all add: trailing_zeros.simps [of "Suc 0"] trailing_zeros.simps [of "2 * m" for m])

lemma is_power_of_two_power [simp]: "is_power_of_two (2 ^ k)"
  by (simp add: is_power_of_two_def trailing_zeros_power)

subsection \<open>Properties\<close>

text \<open>Uniform selection: over all random strings of a length that suffices, every sequence of
  \<open>count\<close> words from a list of \<open>2^bits\<close> distinct words is selected by exactly the same number of
  them, so no passphrase is more likely than another.\<close>

theorem select_words_uniform:
  assumes "distinct wordlist" "length wordlist = 2 ^ bits" "0 < bits"
    and "required_random_bytes (length wordlist) count \<le> L"
    and "length ws = count" "set ws \<subseteq> set wordlist"
  shows "card {random. length random = L \<and> select_words wordlist count random = Inr ws}
    = 2 ^ (8 * L - bits * count)"
proof -
  have N: "count * bits \<le> 8 * L"
    using assms(2-4) one_less_power [of "2::nat" bits]
    by (simp add: required_random_bytes_def trailing_zeros_power mult.commute split: if_splits)
  obtain p where p: "length p = count * bits" "words_of wordlist bits count p = ws"
    using bij_betw_imp_surj_on [OF words_of_bij [OF assms(1,2), of count]] assms(5,6)
    by (metis (mono_tags, lifting) image_iff mem_Collect_eq)
  have "select_words wordlist count r = Inr ws \<longleftrightarrow> take (count * bits) (bit_stream r) = p"
    if "length r = L" for r
  proof -
    have "length (take (count * bits) (bit_stream r)) = count * bits" using that N by simp
    then have "words_of wordlist bits count (take (count * bits) (bit_stream r)) = ws
        \<longleftrightarrow> take (count * bits) (bit_stream r) = p"
      using words_of_bij [OF assms(1,2), of count] p by (auto simp: bij_betw_def dest: inj_onD)
    then show ?thesis
      using select_words_words_of [OF assms(2,3), of count r] that N assms(2) by simp
  qed
  then have "{r. length r = L \<and> select_words wordlist count r = Inr ws}
      = {r. length r = L \<and> take (count * bits) (bit_stream r) = p}" by auto
  then show ?thesis using card_prefix [OF p(1) N] by (simp add: mult.commute)
qed

theorem select_words_uniform_witness:
  "card {random. length random = 1
     \<and> select_words [lit ''able'', lit ''zoo''] 3 random = Inr [lit ''zoo'', lit ''able'', lit ''zoo'']}
   = 32"
proof -
  have "lit ''able'' \<noteq> lit ''zoo''" by (simp add: ascii_def)
  moreover have "trailing_zeros (Suc (Suc 0)) = 1"
    using trailing_zeros_power [of 1] by (simp add: numeral_2_eq_2)
  moreover from this have "is_power_of_two (Suc (Suc 0))" by (simp add: is_power_of_two_def)
  ultimately show ?thesis
    using select_words_uniform [of "[lit ''able'', lit ''zoo'']" 1 3 1 "[lit ''zoo'', lit ''able'', lit ''zoo'']"]
    by (simp add: required_random_bytes_def)
qed

text \<open>The amounts agree: \<open>required_random_bytes\<close> is the least length with which \<open>select_words\<close>
  succeeds, it covers \<open>entropy_bits\<close>, and a successful selection has \<open>count\<close> words.\<close>

theorem required_random_bytes_suffices:
  "(is_ok (select_words wordlist count random) \<longleftrightarrow>
      is_power_of_two (length wordlist) \<and> 1 < length wordlist
      \<and> required_random_bytes (length wordlist) count \<le> length random)
   \<and> required_random_bytes (length wordlist) count
       = (entropy_bits (length wordlist) count + 7) div 8"
proof -
  have "(n + 7) div 8 \<le> l \<longleftrightarrow> n \<le> l * 8" for n l :: nat by linarith
  then show ?thesis
    by (auto simp: select_words_def required_random_bytes_def entropy_bits_def Let_def not_less
        mult.commute)
qed

end
