(* ===== verification/Manager.thy ===== *)
theory Manager
  imports VaultDurability RamStore Multisig Passphrase
begin

text \<open>
  \<open>src/core/manager.rs\<close> and \<open>src/core/entropy.rs\<close>: the facade that owns the entropy source, the
  vault (open or locked) and the in-memory store. The source is a function from the number of the
  call and the requested length to what it fills in. The rejection loop of \<open>generate_password\<close> need
  not end for every source, so it is a partial function: \<open>None\<close> is a call that never returns.
\<close>

record manager_env =
  m_source :: "nat \<Rightarrow> nat \<Rightarrow> rstr + bytes"
  m_vault_env :: vault_env
  m_wordlist :: rstr

record manager =
  mg_vault :: "local_store option"
  mg_ram :: ram_store
  mg_calls :: nat

definition manager_new :: manager where
  "manager_new = \<lparr>mg_vault = None, mg_ram = ram_new, mg_calls = 0\<rparr>"

subsection \<open>Randomness\<close>

text \<open>The buffer starts as zeros; the source overwrites it from the start, never beyond its length.\<close>

definition random_bytes :: "manager_env \<Rightarrow> nat \<Rightarrow> nat \<Rightarrow> error + bytes" where
  "random_bytes M k len =
     map_err EntropyFailed (map_ok (\<lambda>bs. take len (bs @ replicate len 0)) (m_source M k len))"

definition generate_passphrase :: "manager_env \<Rightarrow> nat \<Rightarrow> nat \<Rightarrow> error + rstr" where
  "generate_passphrase M k word_count =
     (let wordlist = default_wordlist (m_wordlist M);
          need = required_random_bytes (length wordlist) word_count
      in and_then (random_bytes M k need) (\<lambda>random.
         and_then (select_words wordlist word_count random) (\<lambda>words.
         Inr (case words of [] \<Rightarrow> []
              | w # ws \<Rightarrow> w @ concat (map (\<lambda>x. ascii CHR '' '' # x) ws)))))"

fun pick_loop :: "bytes \<Rightarrow> nat \<Rightarrow> nat \<Rightarrow> nat \<Rightarrow> bytes \<Rightarrow> bytes \<Rightarrow> bytes" where
  "pick_loop charset n limit len [] out = out"
| "pick_loop charset n limit len (b # bs) out =
     (if unat b < limit
      then let out' = out @ [charset ! (unat b mod n)] in
           if length out' = len then out' else pick_loop charset n limit len bs out'
      else pick_loop charset n limit len bs out)"

partial_function (option) password_loop ::
  "manager_env \<Rightarrow> bytes \<Rightarrow> nat \<Rightarrow> nat \<Rightarrow> nat \<Rightarrow> nat \<Rightarrow> bytes \<Rightarrow> ((error + bytes) \<times> nat) option" where
  "password_loop M charset n limit len k out =
     (if length out < len
      then case random_bytes M k len of
             Inl e \<Rightarrow> Some (Inl e, Suc k)
           | Inr bs \<Rightarrow> password_loop M charset n limit len (Suc k) (pick_loop charset n limit len bs out)
      else Some (Inr out, k))"

definition generate_password ::
  "manager_env \<Rightarrow> nat \<Rightarrow> nat \<Rightarrow> bytes \<Rightarrow> ((error + rstr) \<times> nat) option" where
  "generate_password M k len charset =
     (let n = length charset in
      if n = 0 \<or> n > 256 then Some (Inl CharsetSize, k)
      else
        let limit = (256 div n) * n in
        case password_loop M charset n limit len k [] of
          None \<Rightarrow> None
        | Some (r, k') \<Rightarrow> Some (and_then r (\<lambda>out. ok_or CharsetNotAscii (from_utf8 out)), k'))"

subsection \<open>Vault lifecycle\<close>

definition mg_create_vault ::
  "manager_env \<Rightarrow> op_env \<Rightarrow> rstr \<Rightarrow> bytes \<Rightarrow> argon2_params \<Rightarrow> u64 \<Rightarrow> bytes option \<Rightarrow> manager \<times> fs
     \<Rightarrow> (error + unit) \<times> manager \<times> fs" where
  "mg_create_vault M c path passphrase params vdf_iterations hardware_key = (\<lambda>(mg, fs).
     let mg1 = mg\<lparr>mg_calls := Suc (mg_calls mg)\<rparr> in
     case random_bytes M (mg_calls mg) 32 of
       Inl e \<Rightarrow> (Inl e, mg1, fs)
     | Inr salt \<Rightarrow>
         (case ls_create (m_vault_env M) c path passphrase salt params vdf_iterations hardware_key fs of
            (Inl e, fs') \<Rightarrow> (Inl e, mg1, fs')
          | (Inr store, fs') \<Rightarrow> (Inr (), mg1\<lparr>mg_vault := Some store\<rparr>, fs')))"

definition mg_open_vault ::
  "manager_env \<Rightarrow> op_env \<Rightarrow> rstr \<Rightarrow> bytes \<Rightarrow> bytes option \<Rightarrow> manager \<times> fs
     \<Rightarrow> (error + unit) \<times> manager \<times> fs" where
  "mg_open_vault M c path passphrase hardware_key = (\<lambda>(mg, fs).
     case ls_open (m_vault_env M) c path passphrase hardware_key fs of
       Inl e \<Rightarrow> (Inl e, mg, fs)
     | Inr store \<Rightarrow> (Inr (), mg\<lparr>mg_vault := Some store\<rparr>, fs))"

definition mg_lock :: "manager \<Rightarrow> manager" where
  "mg_lock mg = mg\<lparr>mg_vault := None\<rparr>"

definition mg_is_unlocked :: "manager \<Rightarrow> bool" where
  "mg_is_unlocked mg \<longleftrightarrow> mg_vault mg \<noteq> None"

subsection \<open>Secrets\<close>

definition mg_put_secret ::
  "manager_env \<Rightarrow> op_env \<Rightarrow> rstr \<Rightarrow> bytes \<Rightarrow> manager \<times> fs \<Rightarrow> (error + unit) \<times> manager \<times> fs" where
  "mg_put_secret M c name plaintext = (\<lambda>(mg, fs).
     case mg_vault mg of
       None \<Rightarrow> (Inl VaultLocked, mg, fs)
     | Some st \<Rightarrow>
         (case ls_put_secret (m_vault_env M) c name plaintext (st, fs) of
            (r, st', fs') \<Rightarrow> (r, mg\<lparr>mg_vault := Some st'\<rparr>, fs')))"

definition mg_get_secret :: "manager_env \<Rightarrow> manager \<Rightarrow> rstr \<Rightarrow> error + bytes option" where
  "mg_get_secret M mg name =
     and_then (ok_or VaultLocked (mg_vault mg)) (\<lambda>st. ls_get_secret (m_vault_env M) st name)"

definition mg_secret_names :: "manager_env \<Rightarrow> manager \<Rightarrow> error + rstr list" where
  "mg_secret_names M mg =
     and_then (ok_or VaultLocked (mg_vault mg)) (\<lambda>st. Inr (ls_names (m_vault_env M) st))"

definition mg_delete_secret ::
  "manager_env \<Rightarrow> op_env \<Rightarrow> rstr \<Rightarrow> manager \<times> fs \<Rightarrow> (error + bool) \<times> manager \<times> fs" where
  "mg_delete_secret M c name = (\<lambda>(mg, fs).
     case mg_vault mg of
       None \<Rightarrow> (Inl VaultLocked, mg, fs)
     | Some st \<Rightarrow>
         (case ls_delete_secret (m_vault_env M) c name (st, fs) of
            (r, st', fs') \<Rightarrow> (r, mg\<lparr>mg_vault := Some st'\<rparr>, fs')))"

definition mg_put_ram :: "rstr \<Rightarrow> bytes \<Rightarrow> manager \<Rightarrow> manager" where
  "mg_put_ram name value mg = mg\<lparr>mg_ram := ram_set name value (mg_ram mg)\<rparr>"

definition mg_get_ram :: "manager \<Rightarrow> rstr \<Rightarrow> bytes option" where
  "mg_get_ram mg name = ram_get (mg_ram mg) name"

definition mg_clear_ram :: "manager \<Rightarrow> manager" where
  "mg_clear_ram mg = mg\<lparr>mg_ram := ram_clear (mg_ram mg)\<rparr>"

definition mg_share_secret ::
  "manager_env \<Rightarrow> byte stream \<Rightarrow> (nat \<Rightarrow> bytes) \<Rightarrow> bytes \<Rightarrow> nat \<Rightarrow> nat \<Rightarrow> bytes list
     \<Rightarrow> error + split_result" where
  "mg_share_secret M rng nonces secret m n custodian_keys =
     split_secret (v_crates (m_vault_env M)) rng nonces secret m n custodian_keys"

definition mg_reconstruct_secret ::
  "manager_env \<Rightarrow> bytes list \<Rightarrow> bytes list \<Rightarrow> bytes list \<Rightarrow> error + bytes" where
  "mg_reconstruct_secret M blbs custodian_keys cs =
     reconstruct_secret (v_crates (m_vault_env M)) blbs custodian_keys cs"

subsection \<open>The manager is a secret store\<close>

definition mg_inv :: "manager_env \<Rightarrow> bytes \<Rightarrow> bytes option \<Rightarrow> manager \<times> fs \<Rightarrow> bool" where
  "mg_inv M pw hw = (\<lambda>(mg, fs).
     case mg_vault mg of None \<Rightarrow> True | Some st \<Rightarrow> ls_inv (m_vault_env M) pw hw (st, fs))"

lemma mg_put_cases:
  assumes "mg_put_secret M c n v (mg, fs) = (r, mg', fs')"
  obtains (locked) "mg_vault mg = None" "r = Inl VaultLocked" "mg' = mg" "fs' = fs"
  | (opened) st st' where "mg_vault mg = Some st" "mg' = mg\<lparr>mg_vault := Some st'\<rparr>"
    "ls_put_secret (m_vault_env M) c n v (st, fs) = (r, st', fs')"
  using assms by (auto simp: mg_put_secret_def split: option.splits prod.splits)

lemma mg_delete_cases:
  assumes "mg_delete_secret M c n (mg, fs) = (r, mg', fs')"
  obtains (locked) "mg_vault mg = None" "r = Inl VaultLocked" "mg' = mg" "fs' = fs"
  | (opened) st st' where "mg_vault mg = Some st" "mg' = mg\<lparr>mg_vault := Some st'\<rparr>"
    "ls_delete_secret (m_vault_env M) c n (st, fs) = (r, st', fs')"
  using assms by (auto simp: mg_delete_secret_def split: option.splits prod.splits)

interpretation mgr: secret_store "mg_put_secret M" "\<lambda>s. mg_get_secret M (fst s)"
  "mg_inv M pw hw" "mg_delete_secret M" for M pw hw
proof
  fix s s' c n v r
  assume inv: "mg_inv M pw hw s" and op: "mg_put_secret M c n v s = (r, s')"
  obtain mg fs mg' fs' where s: "s = (mg, fs)" "s' = (mg', fs')" by (cases s; cases s') auto
  have "mg_put_secret M c n v (mg, fs) = (r, mg', fs')" using op s by simp
  then show "mg_inv M pw hw s'"
    by (cases rule: mg_put_cases) (use inv s local.put_inv in \<open>auto simp: mg_inv_def\<close>)
next
  fix s s' c n v k
  assume inv: "mg_inv M pw hw s" and op: "mg_put_secret M c n v s = (Inr (), s')"
  obtain mg fs mg' fs' where s: "s = (mg, fs)" "s' = (mg', fs')" by (cases s; cases s') auto
  have "mg_put_secret M c n v (mg, fs) = (Inr (), mg', fs')" using op s by simp
  then show "mg_get_secret M (fst s') k = (if k = n then Inr (Some v) else mg_get_secret M (fst s) k)"
  proof (cases rule: mg_put_cases)
    case (opened st st')
    then show ?thesis
      using inv s local.put_get [OF _ opened(3), of pw hw k] by (simp add: mg_inv_def mg_get_secret_def)
  qed simp
next
  fix s s' c n r
  assume inv: "mg_inv M pw hw s" and op: "mg_delete_secret M c n s = (r, s')"
  obtain mg fs mg' fs' where s: "s = (mg, fs)" "s' = (mg', fs')" by (cases s; cases s') auto
  have "mg_delete_secret M c n (mg, fs) = (r, mg', fs')" using op s by simp
  then show "mg_inv M pw hw s'"
    by (cases rule: mg_delete_cases) (use inv s local.del_inv in \<open>auto simp: mg_inv_def\<close>)
next
  fix s s' c n b k
  assume inv: "mg_inv M pw hw s" and op: "mg_delete_secret M c n s = (Inr b, s')"
  obtain mg fs mg' fs' where s: "s = (mg, fs)" "s' = (mg', fs')" by (cases s; cases s') auto
  have "mg_delete_secret M c n (mg, fs) = (Inr b, mg', fs')" using op s by simp
  then show "mg_get_secret M (fst s') k = (if k = n then Inr None else mg_get_secret M (fst s) k)"
  proof (cases rule: mg_delete_cases)
    case (opened st st')
    then show ?thesis
      using inv s local.del_get [OF _ opened(3), of pw hw k] by (simp add: mg_inv_def mg_get_secret_def)
  qed simp
next
  fix s s' c n b
  assume inv: "mg_inv M pw hw s" and op: "mg_delete_secret M c n s = (Inr b, s')"
  obtain mg fs mg' fs' where s: "s = (mg, fs)" "s' = (mg', fs')" by (cases s; cases s') auto
  have "mg_delete_secret M c n (mg, fs) = (Inr b, mg', fs')" using op s by simp
  then show "b \<longleftrightarrow> mg_get_secret M (fst s) n \<noteq> Inr None"
  proof (cases rule: mg_delete_cases)
    case (opened st st')
    then show ?thesis
      using inv s local.del_result [OF _ opened(3), of pw hw] by (simp add: mg_inv_def mg_get_secret_def)
  qed simp
qed

subsection \<open>The rejection loop\<close>

lemma pick_loop_props:
  assumes "length out < len"
  shows "length out \<le> length (pick_loop charset n limit len bs out)"
    and "length (pick_loop charset n limit len bs out) \<le> len"
    and "0 < n \<Longrightarrow> n \<le> length charset \<Longrightarrow> set out \<subseteq> set charset
           \<Longrightarrow> set (pick_loop charset n limit len bs out) \<subseteq> set charset"
    and "\<exists>b\<in>set bs. unat b < limit \<Longrightarrow> length out < length (pick_loop charset n limit len bs out)"
    and "\<forall>b\<in>set bs. limit \<le> unat b \<Longrightarrow> pick_loop charset n limit len bs out = out"
  using assms
proof (induction bs arbitrary: out)
  case Nil
  { case 1 then show ?case by simp }
  { case 2 then show ?case by simp }
  { case 3 then show ?case by simp }
  { case 4 then show ?case by simp }
  { case 5 then show ?case by simp }
next
  case (Cons b bs)
  { case (1 out)
    let ?out = "out @ [charset ! (unat b mod n)]"
    from 1 show ?case
      using Cons.IH(1) [of ?out] Cons.IH(1) [of out] by (auto simp: Let_def) }
  { case (2 out)
    let ?out = "out @ [charset ! (unat b mod n)]"
    from 2 show ?case
      using Cons.IH(2) [of ?out] Cons.IH(2) [of out] by (auto simp: Let_def) }
  { case (3 out)
    let ?out = "out @ [charset ! (unat b mod n)]"
    have "unat b mod n < length charset"
      using 3 mod_less_divisor [of n "unat b"] by linarith
    then have "charset ! (unat b mod n) \<in> set charset" by simp
    with 3 show ?case
      using Cons.IH(3) [of ?out] Cons.IH(3) [of out] by (auto simp: Let_def) }
  { case (4 out)
    let ?out = "out @ [charset ! (unat b mod n)]"
    from 4 show ?case
      using Cons.IH(1) [of ?out] Cons.IH(4) [of out] by (auto simp: Let_def) }
  { case (5 out)
    then show ?case using Cons.IH(5) [of out] by auto }
qed

text \<open>A source that never fails and, from any call on, sooner or later delivers an acceptable byte.\<close>

definition productive :: "manager_env \<Rightarrow> nat \<Rightarrow> nat \<Rightarrow> bool" where
  "productive M limit len \<longleftrightarrow>
     (\<forall>k. is_ok (random_bytes M k len))
     \<and> (\<forall>k. \<exists>j\<ge>k. \<exists>bs. random_bytes M j len = Inr bs \<and> (\<exists>b\<in>set bs. unat b < limit))"

lemma password_loop_advance:
  assumes ok: "\<forall>k. is_ok (random_bytes M k len)" and out: "length out < len"
    and j: "random_bytes M (k + d) len = Inr bs" "\<exists>b\<in>set bs. unat b < limit"
    and cs: "0 < n" "n \<le> length charset" "set out \<subseteq> set charset"
  shows "\<exists>k' out'. password_loop M charset n limit len k out = password_loop M charset n limit len k' out'
    \<and> length out < length out' \<and> length out' \<le> len \<and> set out' \<subseteq> set charset"
  using j(1)
proof (induction d arbitrary: k)
  case 0
  with out have "password_loop M charset n limit len k out
      = password_loop M charset n limit len (Suc k) (pick_loop charset n limit len bs out)"
    by (subst password_loop.simps) simp
  then show ?case using pick_loop_props [OF out] cs j(2) by blast
next
  case (Suc d)
  obtain bs' where bs': "random_bytes M k len = Inr bs'" using ok is_ok_iff by metis
  with out have step: "password_loop M charset n limit len k out
      = password_loop M charset n limit len (Suc k) (pick_loop charset n limit len bs' out)"
    by (subst password_loop.simps) simp
  show ?case
  proof (cases "\<exists>b\<in>set bs'. unat b < limit")
    case True
    with step show ?thesis using pick_loop_props [OF out] cs by blast
  next
    case False
    then have "pick_loop charset n limit len bs' out = out"
      using pick_loop_props(5) [OF out] not_less by blast
    with step Suc.IH [of "Suc k"] Suc.prems show ?thesis by simp
  qed
qed

lemma password_loop_returns:
  assumes "productive M limit len" "0 < n" "n \<le> length charset" "set out \<subseteq> set charset"
    and "length out \<le> len"
  shows "\<exists>r k'. password_loop M charset n limit len k out = Some (Inr r, k')
    \<and> length r = len \<and> set r \<subseteq> set charset"
  using assms(4,5)
proof (induction "len - length out" arbitrary: out k rule: less_induct)
  case less
  show ?case
  proof (cases "length out < len")
    case False
    with less.prems have "password_loop M charset n limit len k out = Some (Inr out, k)"
      by (subst password_loop.simps) simp
    with False less.prems show ?thesis by simp
  next
    case True
    obtain j bs where "k \<le> j" "random_bytes M j len = Inr bs" "\<exists>b\<in>set bs. unat b < limit"
      using assms(1) unfolding productive_def by blast
    then obtain k' out' where step: "password_loop M charset n limit len k out = password_loop M charset n limit len k' out'"
      "length out < length out'" "length out' \<le> len" "set out' \<subseteq> set charset"
      using password_loop_advance [OF _ True, of M k "j - k" bs limit n charset] assms(1-3) less.prems(1)
      by (auto simp: productive_def)
    have "len - length out' < len - length out" using step(2,3) by simp
    from less.hyps [OF this step(4,3)] step(1) show ?thesis by simp
  qed
qed

lemma from_utf8_ascii_bytes:
  "\<forall>b\<in>set bs. unat b < 128 \<Longrightarrow> from_utf8 bs = Some (map (\<lambda>b. rchr (unat b)) bs)"
proof (induction bs)
  case Nil
  then show ?case by simp
next
  case (Cons b bs)
  then have "decode_char (b # bs) = Some (rchr (unat b), bs)" by (simp add: decode_char_def Let_def)
  then show ?case using Cons by (simp add: from_utf8.simps [of "b # bs"])
qed

text \<open>Below the cut-off every index of the charset is hit by the same number of byte values.\<close>

lemma accepted_bytes_count:
  assumes "0 < n" "n \<le> 256" "i < n"
  shows "card {b :: byte. unat b < (256 div n) * n \<and> unat b mod n = i} = 256 div n"
proof -
  let ?S = "{b :: byte. unat b < (256 div n) * n \<and> unat b mod n = i}"
  have lt: "q * n + i < (256 div n) * n" if "q < 256 div n" for q
  proof -
    have "q * n + i < Suc q * n" using assms(3) by simp
    also have "\<dots> \<le> (256 div n) * n" using that by (intro mult_le_mono1) simp
    finally show ?thesis .
  qed
  have le: "(256 div n) * n \<le> 256" by simp
  have u: "unat (word_of_nat (q * n + i) :: byte) = q * n + i" if "q < 256 div n" for q
    using order_less_le_trans [OF lt [OF that] le] by (simp only: unat_of_nat take_bit_eq_mod) simp
  have "?S = (\<lambda>q. word_of_nat (q * n + i)) ` {..<256 div n}"
  proof (intro set_eqI iffI)
    fix b assume b: "b \<in> ?S"
    then have "unat b = unat b div n * n + i" by (auto simp: mult.commute)
    then have "b = word_of_nat (unat b div n * n + i)" by (metis of_nat_unat ucast_id)
    moreover have "unat b div n < 256 div n" using b by (simp add: less_mult_imp_div_less)
    ultimately show "b \<in> (\<lambda>q. word_of_nat (q * n + i)) ` {..<256 div n}" by blast
  next
    fix b assume "b \<in> (\<lambda>q. word_of_nat (q * n + i) :: byte) ` {..<256 div n}"
    then obtain q where "q < 256 div n" "b = word_of_nat (q * n + i)" by blast
    then show "b \<in> ?S" using lt u assms(3) by simp
  qed
  moreover have "inj_on (\<lambda>q. word_of_nat (q * n + i) :: byte) {..<256 div n}"
  proof (rule inj_onI)
    fix p q assume pq: "p \<in> {..<256 div n}" "q \<in> {..<256 div n}"
      and "word_of_nat (p * n + i) = (word_of_nat (q * n + i) :: byte)"
    then have "p * n + i = q * n + i" using u by (metis lessThan_iff)
    then show "p = q" using assms(1) by simp
  qed
  ultimately show ?thesis by (simp add: card_image)
qed

subsection \<open>The vault on disk\<close>

definition mg_synced :: "manager_env \<Rightarrow> rstr \<Rightarrow> manager \<times> fs \<Rightarrow> bool" where
  "mg_synced M path = (\<lambda>(mg, fs). \<exists>st c bs. mg_vault mg = Some st \<and> st_path st = path
     \<and> vault_bytes (m_vault_env M) c st = Inr bs \<and> fs path = Some bs)"

lemma mg_put_synced:
  assumes "mg_synced M path (mg, fs)" "mg_put_secret M c n v (mg, fs) = (Inr (), s')"
  shows "mg_synced M path s'"
proof -
  obtain mg' fs' where s': "s' = (mg', fs')" by force
  with assms(2) have "mg_put_secret M c n v (mg, fs) = (Inr (), mg', fs')" by simp
  then show ?thesis
  proof (cases rule: mg_put_cases)
    case (opened st st')
    from opened(3) have "ls_save (m_vault_env M) c st' fs = (Inr (), fs')" "st_path st' = st_path st"
      by (auto elim: ls_put_secret_cases)
    with ls_save_written [OF this(1)] opened(1,2) assms(1) s' show ?thesis
      by (auto simp: mg_synced_def)
  qed simp
qed

lemma mg_delete_synced:
  assumes "mg_synced M path (mg, fs)" "mg_delete_secret M c n (mg, fs) = (Inr b, s')"
  shows "mg_synced M path s'"
proof -
  obtain mg' fs' where s': "s' = (mg', fs')" by force
  with assms(2) have "mg_delete_secret M c n (mg, fs) = (Inr b, mg', fs')" by simp
  then show ?thesis
  proof (cases rule: mg_delete_cases)
    case (opened st st')
    from opened(3) show ?thesis
    proof (cases rule: ls_delete_cases)
      case absent
      with opened(1,2) assms(1) s' show ?thesis by (auto simp: mg_synced_def)
    next
      case (removed q)
      then have "ls_save (m_vault_env M) c st' fs = (Inr (), fs')" by (cases q) simp_all
      with ls_save_written [OF this] removed(2) opened(1,2) assms(1) s' show ?thesis
        by (auto simp: mg_synced_def)
    qed
  qed simp
qed

lemma mg_run_synced:
  "run_ops (mg_put_secret M) (mg_delete_secret M) ops s = Some s' \<Longrightarrow> mg_synced M path s
     \<Longrightarrow> mg_synced M path s'"
proof (induction ops arbitrary: s)
  case Nil
  then show ?case by simp
next
  case (Cons op ops)
  then show ?case
    by (cases op; cases s)
       (auto split: prod.splits sum.splits dest: mg_put_synced mg_delete_synced)
qed

lemma mg_create_state:
  assumes "mg_create_vault M c path pw params vdf hw (mg, fs) = (Inr (), s1)" "env_good (m_vault_env M)"
  shows "mg_inv M pw hw s1" "mg_synced M path s1" "\<And>k. mg_get_secret M (fst s1) k = Inr None"
proof -
  obtain salt st fs1 where s1: "s1 = (mg\<lparr>mg_calls := Suc (mg_calls mg), mg_vault := Some st\<rparr>, fs1)"
    and cr: "ls_create (m_vault_env M) c path pw salt params vdf hw fs = (Inr st, fs1)"
    using assms(1) by (auto simp: mg_create_vault_def Let_def split: sum.splits prod.splits)
  have st: "keyed (m_vault_env M) pw hw st" "st_entries st = []" "st_path st = path"
    and sv: "ls_save (m_vault_env M) c st (fs(path \<mapsto> [])) = (Inr (), fs1)"
    using cr
    by (auto simp: ls_create_def keyed_def header_ok_def SALT_LEN_def Let_def
        split: if_splits sum.splits option.splits prod.splits)
  show "mg_inv M pw hw s1" using s1 st assms(2) by (simp add: mg_inv_def ls_inv_def entries_wf_def)
  show "mg_synced M path s1" using ls_save_written [OF sv] s1 st(3) by (auto simp: mg_synced_def)
  show "mg_get_secret M (fst s1) k = Inr None" for k
    using s1 st(2) by (simp add: mg_get_secret_def ls_get_secret_def ls_get_def)
qed

subsection \<open>Properties\<close>

text \<open>C8. From creation to reopening: create a vault, perform any history of successful \<open>put_secret\<close>
  and \<open>delete_secret\<close> calls, lock, and open the file again with the same passphrase. The manager
  then returns at every name exactly what the last call on that name left there, and nothing at
  names the history never wrote (as long as the file is within the 32 MiB that \<open>open\<close> accepts).\<close>

theorem vault_history_survives_relock:
  assumes "env_good (m_vault_env M)" "read_fault c' = None"
    and "mg_create_vault M c path pw params vdf hw s0 = (Inr (), s1)"
    and "run_ops (mg_put_secret M) (mg_delete_secret M) ops s1 = Some (mg2, fs2)"
    and "\<forall>bs. fs2 path = Some bs \<longrightarrow> length bs \<le> MAX_VAULT_LEN"
  shows "\<exists>mg3. mg_open_vault M c' path pw hw (mg_lock mg2, fs2) = (Inr (), mg3, fs2)
    \<and> (\<forall>k. mg_get_secret M mg3 k
         = Inr (case last_write k ops of Some w \<Rightarrow> w | None \<Rightarrow> None))"
proof -
  obtain mg fs where s0: "s0 = (mg, fs)" by force
  note cr = mg_create_state [OF assms(3) [unfolded s0] assms(1)]
  have get: "mg_get_secret M mg2 k = Inr (case last_write k ops of Some w \<Rightarrow> w | None \<Rightarrow> None)" for k
    using mgr.run_get [OF assms(4) cr(1), of k] cr(3) [of k] by (simp split: option.splits)
  obtain st c1 bs where st: "mg_vault mg2 = Some st" "st_path st = path"
      "vault_bytes (m_vault_env M) c1 st = Inr bs" "fs2 path = Some bs"
    using mg_run_synced [OF assms(4) cr(2)] by (auto simp: mg_synced_def)
  have "ls_inv (m_vault_env M) pw hw (st, fs2)"
    using mgr.run_inv [OF assms(4) cr(1)] st(1) by (simp add: mg_inv_def)
  then obtain st' where op: "ls_open (m_vault_env M) c' path pw hw fs2 = Inr st'" "same_vault st' st"
    using ls_open_vault_bytes [of "m_vault_env M" pw hw st c1 bs fs2 c'] st assms(2,5)
    by (auto simp: ls_inv_def)
  have "mg_get_secret M (mg_lock mg2\<lparr>mg_vault := Some st'\<rparr>) k = mg_get_secret M mg2 k" for k
    using st(1) same_vault_get [OF op(2), of "m_vault_env M" k] by (simp add: mg_get_secret_def)
  with op(1) get show ?thesis by (simp add: mg_open_vault_def)
qed

definition demo_manager_env :: manager_env where
  "demo_manager_env = \<lparr>m_source = (\<lambda>_ n. Inr (replicate n 7)), m_vault_env = demo_vault,
     m_wordlist = []\<rparr>"

lemma demo_ls_create:
  "ls_create demo_vault demo_op (lit ''v'') [1] (replicate 32 7) demo_params 0 None Map.empty
     = (Inr demo_store, [lit ''v'' \<mapsto> demo_bytes 0](tmp_path (lit ''v'') := None))"
proof -
  have "validate_kdf_params demo_params 0 = Inr ()"
    using demo_header_ok by (simp add: header_ok_def demo_header_def)
  moreover have "ls_save demo_vault demo_op demo_store [lit ''v'' \<mapsto> []]
      = (Inr (), [lit ''v'' \<mapsto> demo_bytes 0](tmp_path (lit ''v'') := None))"
    using ls_save_ok [OF _ demo_vault_bytes(1), of "[lit ''v'' \<mapsto> []]"] by (simp add: demo_store_def)
  ultimately show ?thesis
    by (simp add: ls_create_def SALT_LEN_def demo_derive demo_vault_def demo_store_def demo_header_def)
qed

theorem vault_history_survives_relock_witness:
  "\<exists>mg2 fs2 mg3. run_ops (mg_put_secret demo_manager_env) (mg_delete_secret demo_manager_env)
        [Put demo_op (lit ''k'') [5]]
        (snd (mg_create_vault demo_manager_env demo_op (lit ''v'') [1] demo_params 0 None (manager_new, Map.empty)))
      = Some (mg2, fs2)
    \<and> mg_open_vault demo_manager_env demo_op (lit ''v'') [1] None (mg_lock mg2, fs2) = (Inr (), mg3, fs2)
    \<and> mg_get_secret demo_manager_env mg3 (lit ''k'') = Inr (Some [5])"
proof -
  let ?M = demo_manager_env and ?p = "lit ''v''"
  let ?fs1 = "[?p \<mapsto> demo_bytes 0](tmp_path ?p := None)"
  let ?fs2 = "?fs1(?p \<mapsto> demo_bytes 1, tmp_path ?p := None)"
  let ?s1 = "(manager_new\<lparr>mg_calls := 1, mg_vault := Some demo_store\<rparr>, ?fs1)"
  let ?mg2 = "manager_new\<lparr>mg_calls := 1, mg_vault := Some demo_full\<rparr>"
  have E: "m_vault_env ?M = demo_vault" by (simp add: demo_manager_env_def)
  have "random_bytes ?M (mg_calls manager_new) 32 = Inr (replicate 32 7)"
    by (simp add: random_bytes_def demo_manager_env_def)
  then have cr: "mg_create_vault ?M demo_op ?p [1] demo_params 0 None (manager_new, Map.empty) = (Inr (), ?s1)"
    by (simp add: mg_create_vault_def E demo_ls_create manager_new_def del: lit_simps)
  have run: "run_ops (mg_put_secret ?M) (mg_delete_secret ?M) [Put demo_op (lit ''k'') [5]] ?s1
      = Some (?mg2, ?fs2)"
    by (simp add: mg_put_secret_def E demo_put del: lit_simps fun_upd_apply)
  have small: "\<forall>bs. ?fs2 ?p = Some bs \<longrightarrow> length bs \<le> MAX_VAULT_LEN"
    using demo_bytes_small by (simp del: lit_simps)
  have good: "env_good (m_vault_env ?M)" using demo_env_good by (simp add: E)
  obtain mg3 where mg3: "mg_open_vault ?M demo_op ?p [1] None (mg_lock ?mg2, ?fs2) = (Inr (), mg3, ?fs2)"
      "\<forall>k. mg_get_secret ?M mg3 k = Inr (case last_write k [Put demo_op (lit ''k'') [5]] of
         Some w \<Rightarrow> w | None \<Rightarrow> None)"
    using vault_history_survives_relock [OF good demo_op_simps(2) cr run small] by blast
  have "last_write (lit ''k'') [Put demo_op (lit ''k'') [5]] = Some (Some [5])" by simp
  with mg3(2) have "mg_get_secret ?M mg3 (lit ''k'') = Inr (Some [5])" by (simp only: option.case)
  with run mg3(1) show ?thesis unfolding cr snd_conv by blast
qed

text \<open>A locked manager releases nothing and changes nothing: after \<open>lock\<close>, reading, listing,
  storing and deleting all return \<open>VaultLocked\<close> and leave the manager and the disk as they are.\<close>

lemma locked_manager_is_inert:
  "\<not> mg_is_unlocked (mg_lock mg)
   \<and> mg_get_secret M (mg_lock mg) n = Inl VaultLocked
   \<and> mg_secret_names M (mg_lock mg) = Inl VaultLocked
   \<and> mg_put_secret M c n v (mg_lock mg, fs) = (Inl VaultLocked, mg_lock mg, fs)
   \<and> mg_delete_secret M c n (mg_lock mg, fs) = (Inl VaultLocked, mg_lock mg, fs)"
  by (simp add: mg_is_unlocked_def mg_lock_def mg_get_secret_def mg_secret_names_def
      mg_put_secret_def mg_delete_secret_def)

text \<open>C37. Password generation: with an ASCII charset and a source that never fails and never stops
  delivering acceptable bytes, the rejection loop ends, with a password of exactly the requested
  length over the charset; and it is unbiased: every character is selected by exactly the same
  number of byte values.\<close>

theorem generate_password_complete_and_unbiased:
  assumes "0 < length charset" "length charset \<le> 256" "distinct charset"
    and "\<forall>b\<in>set charset. unat b < 128"
    and "productive M ((256 div length charset) * length charset) len"
  shows "(\<exists>pw k'. generate_password M k len charset = Some (Inr pw, k')
       \<and> length pw = len \<and> set pw \<subseteq> (\<lambda>b. rchr (unat b)) ` set charset)
    \<and> (\<forall>ch\<in>set charset. card {b :: byte. pick_loop charset (length charset)
           ((256 div length charset) * length charset) 1 [b] [] = [ch]} = 256 div length charset)"
proof
  let ?n = "length charset" let ?limit = "(256 div ?n) * ?n"
  obtain r k' where r: "password_loop M charset ?n ?limit len k [] = Some (Inr r, k')"
      "length r = len" "set r \<subseteq> set charset"
    using password_loop_returns [OF assms(5,1), of charset "[]" k] by auto
  then have "from_utf8 r = Some (map (\<lambda>b. rchr (unat b)) r)"
    using assms(4) by (intro from_utf8_ascii_bytes) auto
  with r assms(1,2) show "\<exists>pw k'. generate_password M k len charset = Some (Inr pw, k')
      \<and> length pw = len \<and> set pw \<subseteq> (\<lambda>b. rchr (unat b)) ` set charset"
    by (auto simp: generate_password_def Let_def)
  show "\<forall>ch\<in>set charset. card {b :: byte. pick_loop charset ?n ?limit 1 [b] [] = [ch]}
      = 256 div ?n"
  proof
    fix ch assume "ch \<in> set charset"
    then obtain i where i: "i < ?n" "ch = charset ! i" by (metis in_set_conv_nth)
    have "pick_loop charset ?n ?limit 1 [b] [] = [ch] \<longleftrightarrow> unat b < ?limit \<and> unat b mod ?n = i"
      for b :: byte
      using i assms(1,3) nth_eq_iff_index_eq [of charset "unat b mod ?n" i] by (simp add: Let_def)
    then show "card {b :: byte. pick_loop charset ?n ?limit 1 [b] [] = [ch]} = 256 div ?n"
      using accepted_bytes_count [OF assms(1,2) i(1)] by simp
  qed
qed

theorem generate_password_complete_and_unbiased_witness:
  "\<exists>pw k'. generate_password demo_manager_env 0 2 [97, 98] = Some (Inr pw, k') \<and> length pw = 2"
proof -
  have rb: "random_bytes demo_manager_env k 2 = Inr [7, 7]" for k
    by (simp add: random_bytes_def demo_manager_env_def numeral_2_eq_2)
  then have "productive demo_manager_env ((256 div length [97, 98 :: byte]) * length [97, 98 :: byte]) 2"
    by (auto simp: productive_def numeral_2_eq_2 [symmetric])
  from generate_password_complete_and_unbiased [OF _ _ _ _ this, of 0]
  show ?thesis by auto
qed

end
