(* ===== verification/Agent.thy ===== *)
theory Agent
  imports Protocol Manager StepSystem
begin

text \<open>
  \<open>src/cli/agent.rs\<close>: the session agent. It owns the unlocked manager, answers one request per
  connection until a valid \<open>Signout\<close>, and a watchdog thread ends the process after the idle time.
  A connection is what the peer sends and how much of the answer it takes; times are milliseconds
  since the start of the agent. The process as a whole is the step relation \<open>agent_step\<close>, in which
  time passes, connections are served and the watchdog wakes up. The outcome of \<open>bind_socket\<close> is an
  argument here; the function, and several agents at one socket, are in \<open>AgentStart\<close>.
\<close>

record agent_env =
  a_manager_env :: manager_env
  a_req :: "request bincode"
  a_resp :: "response bincode"
  a_show :: "error \<Rightarrow> rstr"

record agent =
  ag_manager :: manager
  ag_token :: bytes
  ag_vault_path :: rstr
  ag_idle :: nat
  ag_last :: nat

definition DEFAULT_IDLE :: nat where
  "DEFAULT_IDLE = 30 * 60 * 1000"

definition agent_new :: "manager \<Rightarrow> bytes \<Rightarrow> rstr \<Rightarrow> nat \<Rightarrow> nat \<Rightarrow> agent" where
  "agent_new mg token vault_path idle now =
     \<lparr>ag_manager = mg, ag_token = token, ag_vault_path = vault_path, ag_idle = idle, ag_last = now\<rparr>"

definition clock_touch :: "nat \<Rightarrow> agent \<Rightarrow> agent" where
  "clock_touch now ag = ag\<lparr>ag_last := now\<rparr>"

text \<open>The subtraction saturates at 0, as in the source.\<close>

definition clock_idle :: "nat \<Rightarrow> agent \<Rightarrow> nat" where
  "clock_idle now ag = now - ag_last ag"

definition token_eq :: "bytes \<Rightarrow> bytes \<Rightarrow> bool" where
  "token_eq expected presented =
     (if length expected \<noteq> length presented then False else expected = presented)"

subsection \<open>Requests\<close>

definition handle ::
  "agent_env \<Rightarrow> op_env \<Rightarrow> nat \<Rightarrow> request \<Rightarrow> agent \<times> fs \<Rightarrow> (response \<times> bool) \<times> agent \<times> fs" where
  "handle E c now req = (\<lambda>(ag, fs).
     if \<not> token_eq (ag_token ag) (req_token req)
     then ((RespErr (Cli InvalidSessionToken), False), ag, fs)
     else case req of
       ReqGet _ name \<Rightarrow>
         (case mg_get_secret (a_manager_env E) (ag_manager ag) name of
            Inr v \<Rightarrow> ((RespSecret v, False), ag, fs)
          | Inl e \<Rightarrow> ((RespErr e, False), ag, fs))
     | ReqPut _ name value \<Rightarrow>
         (case mg_put_secret (a_manager_env E) c name value (ag_manager ag, fs) of
            (Inr _, mg', fs') \<Rightarrow> ((RespOk, False), ag\<lparr>ag_manager := mg'\<rparr>, fs')
          | (Inl e, mg', fs') \<Rightarrow> ((RespErr e, False), ag\<lparr>ag_manager := mg'\<rparr>, fs'))
     | ReqList _ \<Rightarrow>
         (case mg_secret_names (a_manager_env E) (ag_manager ag) of
            Inr names \<Rightarrow> ((RespNames names, False), ag, fs)
          | Inl e \<Rightarrow> ((RespErr e, False), ag, fs))
     | ReqStatus _ \<Rightarrow>
         (let remaining = ag_idle ag - clock_idle now ag in
          ((RespStatus (mg_is_unlocked (ag_manager ag)) (ag_vault_path ag)
              (word_of_nat (remaining div 1000)), False), ag, fs))
     | ReqSignout _ \<Rightarrow> ((RespOk, True), ag, fs))"

datatype conn = AcceptError | Conn op_env bytes "nat option"

text \<open>
  One turn of the loop of \<open>serve\<close>: the bytes sent back, and whether the agent signed out. A failure to
  write the response is ignored. A connection delivers its bytes and is then closed by the other end; one that neither
  sends a whole message nor closes keeps \<open>serve\<close>, which reads without a timeout, from ever coming to the next one.
\<close>

definition serve_conn ::
  "agent_env \<Rightarrow> nat \<Rightarrow> conn \<Rightarrow> agent \<times> fs \<Rightarrow> (bytes \<times> bool) \<times> agent \<times> fs" where
  "serve_conn E now cn = (\<lambda>(ag, fs).
     case cn of
       AcceptError \<Rightarrow> (([], False), ag, fs)
     | Conn c input room \<Rightarrow>
         let ag1 = clock_touch now ag in
         (case fst (read_msg (a_req E) input) of
            Inl _ \<Rightarrow> (([], False), ag1, fs)
          | Inr req \<Rightarrow>
              (case handle E c now req (ag1, fs) of
                 ((resp, signout), ag2, fs2) \<Rightarrow>
                   let out = w_out (snd (write_msg (a_resp E) resp (fresh_writer room))) in
                   if signout
                   then ((out, True), ag2\<lparr>ag_manager := mg_lock (ag_manager ag2)\<rparr>, fs2)
                   else ((out, False), ag2, fs2))))"

fun serve ::
  "agent_env \<Rightarrow> (nat \<times> conn) list \<Rightarrow> agent \<times> fs \<Rightarrow> (bytes list \<times> bool) \<times> agent \<times> fs" where
  "serve E [] s = (([], False), s)"
| "serve E ((now, cn) # conns) s =
     (case serve_conn E now cn s of
        ((out, True), s') \<Rightarrow> (([out], True), s')
      | ((out, False), s') \<Rightarrow>
          (case serve E conns s' of ((outs, done), s'') \<Rightarrow> ((out # outs, done), s'')))"

subsection \<open>Start\<close>

text \<open>
  \<open>run_agent\<close> up to the point where it serves: what it prints, and the agent if it is ready.
  \<open>sock\<close> is the outcome of \<open>bind_socket\<close>.
\<close>

definition fail_handshake :: "rstr \<Rightarrow> rstr" where
  "fail_handshake msg = lit ''ERR '' @ msg @ [rchr 10]"

definition run_agent ::
  "agent_env \<Rightarrow> op_env \<Rightarrow> rstr \<Rightarrow> error + unit \<Rightarrow> nat \<Rightarrow> manager \<times> fs \<Rightarrow> rstr \<times> agent option" where
  "run_agent E c input sock now = (\<lambda>(mg, fs).
     let ls = lines input;
         vault_path = (if 0 < length ls then ls ! 0 else []);
         passphrase = (if 1 < length ls then ls ! 1 else [])
     in if vault_path = []
        then (fail_handshake (lit ''missing vault path in handshake''), None)
        else case mg_open_vault (a_manager_env E) c vault_path (utf8 passphrase) None (mg, fs) of
          (Inl e, _, _) \<Rightarrow> (fail_handshake (lit ''cannot open vault: '' @ a_show E e), None)
        | (Inr _, mg1, _) \<Rightarrow>
            (case random_bytes (a_manager_env E) (mg_calls mg1) 32 of
               Inl e \<Rightarrow> (fail_handshake (lit ''cannot mint token: '' @ a_show E e), None)
             | Inr token \<Rightarrow>
                 let token_b64 = b64_encode_nopad (v_crates (m_vault_env (a_manager_env E))) token in
                 (case sock of
                    Inl e \<Rightarrow> (fail_handshake (a_show E e), None)
                  | Inr _ \<Rightarrow>
                      (lit ''READY '' @ token_b64 @ [rchr 10],
                       Some (agent_new (mg1\<lparr>mg_calls := Suc (mg_calls mg1)\<rparr>) token vault_path
                               DEFAULT_IDLE now)))))"

subsection \<open>The process\<close>

record process =
  pr_agent :: agent
  pr_fs :: fs
  pr_now :: nat
  pr_next_check :: nat
  pr_running :: bool

definition watchdog_tick :: "nat \<Rightarrow> nat" where
  "watchdog_tick idle = min 15000 idle"

definition process_start :: "agent \<Rightarrow> fs \<Rightarrow> nat \<Rightarrow> process" where
  "process_start ag fs now =
     \<lparr>pr_agent = clock_touch now ag, pr_fs = fs, pr_now = now,
      pr_next_check = now + watchdog_tick (ag_idle ag), pr_running = True\<rparr>"

inductive agent_step :: "agent_env \<Rightarrow> process \<Rightarrow> process \<Rightarrow> bool" for E where
  time_passes: "pr_running p \<Longrightarrow> pr_now p \<le> t \<Longrightarrow> t \<le> pr_next_check p \<Longrightarrow>
    agent_step E p (p\<lparr>pr_now := t\<rparr>)"
| connection: "pr_running p \<Longrightarrow>
    serve_conn E (pr_now p) cn (pr_agent p, pr_fs p) = ((out, signout), ag', fs') \<Longrightarrow>
    agent_step E p (p\<lparr>pr_agent := ag', pr_fs := fs', pr_running := \<not> signout\<rparr>)"
| watchdog_exit: "pr_running p \<Longrightarrow> pr_now p = pr_next_check p \<Longrightarrow>
    clock_idle (pr_now p) (pr_agent p) \<ge> ag_idle (pr_agent p) \<Longrightarrow>
    agent_step E p (p\<lparr>pr_running := False\<rparr>)"
| watchdog_sleep: "pr_running p \<Longrightarrow> pr_now p = pr_next_check p \<Longrightarrow>
    clock_idle (pr_now p) (pr_agent p) < ag_idle (pr_agent p) \<Longrightarrow>
    agent_step E p (p\<lparr>pr_next_check := pr_now p + watchdog_tick (ag_idle (pr_agent p))\<rparr>)"

inductive_cases agent_stepE: "agent_step E p q"

subsection \<open>Lemmas\<close>

lemma token_eq_iff [simp]: "token_eq a b \<longleftrightarrow> a = b"
  by (auto simp: token_eq_def)

lemma handle_bad_token:
  "req_token req \<noteq> ag_token ag \<Longrightarrow>
     handle E c now req (ag, fs) = ((RespErr (Cli InvalidSessionToken), False), ag, fs)"
  by (auto simp: handle_def)

lemma handle_keeps:
  assumes "handle E c now req (ag, fs) = ((resp, so), ag', fs')"
  shows "ag_token ag' = ag_token ag" "ag_idle ag' = ag_idle ag" "ag_last ag' = ag_last ag"
  using assms
  by (auto simp: handle_def Let_def split: if_splits request.splits sum.splits prod.splits)

lemma serve_conn_keeps:
  assumes "serve_conn E now cn (ag, fs) = ((out, so), ag', fs')"
  shows "ag_token ag' = ag_token ag" "ag_idle ag' = ag_idle ag"
    "ag_last ag' = (case cn of AcceptError \<Rightarrow> ag_last ag | Conn _ _ _ \<Rightarrow> now)"
  using assms
  by (auto simp: serve_conn_def Let_def clock_touch_def
      split: conn.splits sum.splits prod.splits if_splits dest: handle_keeps)

text \<open>Signing out always leaves the manager locked, and only a valid \<open>Signout\<close> does it.\<close>

lemma handle_signout:
  "handle E c now req (ag, fs) = ((resp, True), ag', fs') \<Longrightarrow>
     req = ReqSignout (ag_token ag) \<and> resp = RespOk \<and> ag' = ag \<and> fs' = fs"
  by (auto simp: handle_def Let_def split: if_splits request.splits sum.splits prod.splits)

lemma serve_conn_signout:
  "serve_conn E now cn (ag, fs) = ((out, True), ag', fs') \<Longrightarrow> \<not> mg_is_unlocked (ag_manager ag') \<and> fs' = fs"
  by (auto simp: serve_conn_def Let_def mg_is_unlocked_def mg_lock_def
      split: conn.splits sum.splits prod.splits if_splits dest: handle_signout)

text \<open>Whether a connection carries a request with the token.\<close>

definition presents_token :: "agent_env \<Rightarrow> bytes \<Rightarrow> conn \<Rightarrow> bool" where
  "presents_token E token cn =
     (case cn of
        AcceptError \<Rightarrow> False
      | Conn c input room \<Rightarrow>
          (case fst (read_msg (a_req E) input) of Inl _ \<Rightarrow> False | Inr req \<Rightarrow> req_token req = token))"

definition refusals :: "agent_env \<Rightarrow> bytes set" where
  "refusals E = {[]} \<union> (\<lambda>room. w_out (snd (write_msg (a_resp E)
     (RespErr (Cli InvalidSessionToken)) (fresh_writer room)))) ` UNIV"

lemma serve_conn_no_token:
  assumes "\<not> presents_token E (ag_token ag) cn"
  shows "\<exists>out ag'. serve_conn E now cn (ag, fs) = ((out, False), ag', fs)
    \<and> out \<in> refusals E \<and> ag_manager ag' = ag_manager ag \<and> ag_token ag' = ag_token ag"
  using assms
  by (auto simp: serve_conn_def presents_token_def refusals_def Let_def clock_touch_def
      handle_bad_token split: conn.splits sum.splits)

lemma serve_no_token:
  assumes "\<forall>(t, cn)\<in>set conns. \<not> presents_token E (ag_token ag) cn"
  shows "\<exists>outs ag'. serve E conns (ag, fs) = ((outs, False), ag', fs)
    \<and> set outs \<subseteq> refusals E \<and> ag_manager ag' = ag_manager ag"
  using assms
proof (induction conns arbitrary: ag)
  case Nil
  then show ?case by simp
next
  case (Cons tc conns)
  obtain t cn where tc: "tc = (t, cn)" by force
  obtain out ag1 where s: "serve_conn E t cn (ag, fs) = ((out, False), ag1, fs)" "out \<in> refusals E"
      "ag_manager ag1 = ag_manager ag" "ag_token ag1 = ag_token ag"
    using serve_conn_no_token [of E ag cn t fs] Cons.prems tc by auto
  with Cons.IH [of ag1] Cons.prems obtain outs ag' where
      "serve E conns (ag1, fs) = ((outs, False), ag', fs)" "set outs \<subseteq> refusals E"
      "ag_manager ag' = ag_manager ag1"
    by auto
  with s tc show ?case by simp
qed

text \<open>
  The invariant of the process: while it runs, the last activity is in the past, the next look of
  the watchdog is in the future and lies less than one tick after the idle deadline; once it has
  stopped, either the vault was locked by a sign-out or the idle time had passed.
\<close>

definition watch_inv :: "process \<Rightarrow> bool" where
  "watch_inv p \<longleftrightarrow>
     (if pr_running p
      then ag_last (pr_agent p) \<le> pr_now p \<and> pr_now p \<le> pr_next_check p
        \<and> pr_next_check p < ag_last (pr_agent p) + ag_idle (pr_agent p) + watchdog_tick (ag_idle (pr_agent p))
      else \<not> mg_is_unlocked (ag_manager (pr_agent p))
        \<or> ag_idle (pr_agent p) \<le> clock_idle (pr_now p) (pr_agent p))"

lemma watch_inv_step: "agent_step E p q \<Longrightarrow> watch_inv p \<Longrightarrow> watch_inv q"
proof (induction rule: agent_step.induct)
  case (connection p cn out signout ag' fs')
  note k = serve_conn_keeps [OF connection(2)]
  show ?case
    using connection.prems connection.hyps k
    by (cases signout) (auto simp: watch_inv_def split: conn.splits dest: serve_conn_signout)
next
  case (watchdog_sleep p)
  then show ?case by (auto simp: watch_inv_def clock_idle_def)
qed (auto simp: watch_inv_def)

lemma agent_step_keeps:
  "agent_step E p q \<Longrightarrow> ag_token (pr_agent q) = ag_token (pr_agent p)
     \<and> ag_idle (pr_agent q) = ag_idle (pr_agent p)"
  by (induction rule: agent_step.induct) (auto dest: serve_conn_keeps)

text \<open>With the bound on the time, that an ended process keeps.\<close>

definition timely :: "process \<Rightarrow> bool" where
  "timely p \<longleftrightarrow> watch_inv p \<and> 0 < ag_idle (pr_agent p)
     \<and> pr_now p < ag_last (pr_agent p) + ag_idle (pr_agent p) + watchdog_tick (ag_idle (pr_agent p))"

lemma timely_start: "0 < ag_idle ag \<Longrightarrow> timely (process_start ag fs now)"
  by (simp add: timely_def watch_inv_def process_start_def clock_touch_def)

lemma timely_step:
  assumes "agent_step E p q" "timely p"
  shows "timely q"
proof -
  have inv: "watch_inv p" "watch_inv q" using watch_inv_step [OF assms(1)] assms(2) by (auto simp: timely_def)
  from assms(1) show ?thesis
  proof cases
    case (connection cn out signout ag' fs')
    then show ?thesis
      using inv assms(2) serve_conn_keeps [OF connection(3)]
      by (auto simp: timely_def watch_inv_def split: conn.splits)
  qed (use inv assms(2) in \<open>auto simp: timely_def watch_inv_def\<close>)
qed

text \<open>Without connections the watchdog takes the process to its end.\<close>

definition untouched :: "process \<Rightarrow> process \<Rightarrow> bool" where
  "untouched p q \<longleftrightarrow> pr_agent q = pr_agent p \<and> pr_fs q = pr_fs p"

definition until_exit :: "process \<Rightarrow> nat" where
  "until_exit p = ag_last (pr_agent p) + ag_idle (pr_agent p) + watchdog_tick (ag_idle (pr_agent p)) - pr_next_check p"

lemma watchdog_progress:
  assumes "timely p" "pr_running p"
  shows "\<exists>q. (agent_step E)\<^sup>*\<^sup>* p q \<and> untouched p q \<and> (\<not> pr_running q \<or> until_exit q < until_exit p)"
proof -
  let ?ag = "pr_agent p" and ?p1 = "p\<lparr>pr_now := pr_next_check p\<rparr>"
  let ?q = "if ag_idle ?ag \<le> clock_idle (pr_next_check p) ?ag then ?p1\<lparr>pr_running := False\<rparr>
    else ?p1\<lparr>pr_next_check := pr_now ?p1 + watchdog_tick (ag_idle ?ag)\<rparr>"
  have 1: "agent_step E p ?p1"
    using assms by (intro time_passes) (auto simp: timely_def watch_inv_def)
  have 2: "agent_step E ?p1 ?q"
    using watchdog_exit [of ?p1 E] watchdog_sleep [of ?p1 E] assms(2) by simp
  have "timely ?q" by (rule timely_step [OF 2 timely_step [OF 1 assms(1)]])
  then have "\<not> pr_running ?q \<or> until_exit ?q < until_exit p"
    using assms(1) by (auto simp: timely_def watch_inv_def until_exit_def watchdog_tick_def)
  then show ?thesis
    using 1 2 by (intro exI [of _ ?q]) (auto simp: untouched_def intro: rtranclp.rtrancl_into_rtrancl)
qed

interpretation watch: step_progress "agent_step E" timely "\<lambda>p. \<not> pr_running p" until_exit untouched for E
  by unfold_locales (use timely_step watchdog_progress in \<open>auto simp: untouched_def\<close>)

subsection \<open>An instance\<close>

definition demo_agent_env :: agent_env where
  "demo_agent_env = \<lparr>a_manager_env = demo_manager_env,
     a_req = table_codec [ReqPut [9] (lit ''k'') [5], ReqGet [9] (lit ''k''), ReqSignout [9], ReqList [8]],
     a_resp = table_codec [RespOk, RespSecret (Some [5]), RespErr (Cli InvalidSessionToken)],
     a_show = (\<lambda>e. [])\<rparr>"

definition demo_agent :: agent where
  "demo_agent = agent_new (manager_new\<lparr>mg_vault := Some demo_store\<rparr>) [9] (lit ''v'') DEFAULT_IDLE 0"

definition demo_conn :: "byte \<Rightarrow> conn" where
  "demo_conn b = Conn demo_op (frame [b]) None"

lemma demo_read:
  "unat b < 4 \<Longrightarrow> fst (read_msg (a_req demo_agent_env) (frame [b]))
     = Inr ([ReqPut [9] (lit ''k'') [5], ReqGet [9] (lit ''k''), ReqSignout [9], ReqList [8]] ! unat b)"
  using read_frame [of "[b]" "a_req demo_agent_env" "[]"]
  by (simp add: demo_agent_env_def table_codec_def unat_MAX_FRAME)

subsection \<open>Properties\<close>

text \<open>C17. Without the session token the agent gives nothing away and nothing changes: whatever bytes
  any number of connections send, in whatever order, as long as none of them is a request with the
  token, the manager and the files stay as they were, the agent keeps serving, and all it ever sends
  back is nothing or the refusal.\<close>

theorem no_token_no_effect:
  assumes "list_all (\<lambda>(t, cn). \<not> presents_token E (ag_token ag) cn) conns"
  shows "\<exists>outs ag'. serve E conns (ag, fs) = ((outs, False), ag', fs)
    \<and> set outs \<subseteq> refusals E \<and> ag_manager ag' = ag_manager ag"
  using assms by (intro serve_no_token) (simp add: list_all_iff)

theorem no_token_no_effect_witness:
  "\<exists>outs ag'. serve demo_agent_env [(3, demo_conn 3), (4, AcceptError)] (demo_agent, Map.empty)
      = ((outs, False), ag', Map.empty) \<and> ag_manager ag' = ag_manager demo_agent"
proof -
  have "list_all (\<lambda>(t, cn). \<not> presents_token demo_agent_env (ag_token demo_agent) cn)
      [(3, demo_conn 3), (4, AcceptError)]"
    using demo_read [of 3] by (simp add: presents_token_def demo_conn_def demo_agent_def agent_new_def)
  from no_token_no_effect [OF this, of Map.empty] show ?thesis by blast
qed

text \<open>C28. The idle deadline holds in every state the process can reach, whatever is sent to it and
  when: while the agent runs, less than the idle time plus one watchdog period has passed since the
  last connection, and when it has ended, it was by a sign-out that locked the vault or because the
  idle time was over.\<close>

theorem agent_idle_invariant:
  assumes "0 < ag_idle ag" "(agent_step E)\<^sup>*\<^sup>* (process_start ag fs now) p"
  shows "(pr_running p \<and> ag_last (pr_agent p) \<le> pr_now p
        \<and> pr_now p < ag_last (pr_agent p) + ag_idle ag + min 15000 (ag_idle ag))
    \<or> (\<not> pr_running p \<and> (\<not> mg_is_unlocked (ag_manager (pr_agent p))
        \<or> ag_idle ag \<le> pr_now p - ag_last (pr_agent p)))"
  using watch.inv_run [OF assms(2) timely_start [OF assms(1)]]
    watch.fixed_run [OF _ assms(2) timely_start [OF assms(1)], of "\<lambda>p. ag_idle (pr_agent p)"] agent_step_keeps
  by (auto simp: timely_def watch_inv_def clock_idle_def watchdog_tick_def process_start_def clock_touch_def
      split: if_splits)

theorem agent_idle_invariant_witness:
  "(let p = (process_start demo_agent Map.empty 5)\<lparr>pr_now := 9\<rparr> in
     pr_running p \<and> pr_now p < ag_last (pr_agent p) + DEFAULT_IDLE + 15000)"
proof -
  let ?p = "process_start demo_agent Map.empty 5"
  have idle: "ag_idle demo_agent = DEFAULT_IDLE" "0 < DEFAULT_IDLE" "min 15000 DEFAULT_IDLE = 15000"
    by (simp_all add: demo_agent_def agent_new_def DEFAULT_IDLE_def)
  have "agent_step demo_agent_env ?p (?p\<lparr>pr_now := 9\<rparr>)"
    by (rule time_passes) (simp_all add: process_start_def idle watchdog_tick_def)
  then have "(agent_step demo_agent_env)\<^sup>*\<^sup>* ?p (?p\<lparr>pr_now := 9\<rparr>)" by simp
  from agent_idle_invariant [OF _ this] idle show ?thesis
    by (simp add: Let_def process_start_def)
qed

text \<open>C38. The agent always comes to an end by itself: from every reachable state in which it still runs,
  and without any connection, the watchdog takes the process to its exit before the idle time plus
  one watchdog period has passed since the last connection, with the agent and the files untouched.\<close>

theorem agent_exits_when_idle:
  assumes "0 < ag_idle ag" "(agent_step E)\<^sup>*\<^sup>* (process_start ag fs now) p" "pr_running p"
  shows "\<exists>q. (agent_step E)\<^sup>*\<^sup>* p q \<and> \<not> pr_running q \<and> pr_agent q = pr_agent p \<and> pr_fs q = pr_fs p
    \<and> pr_now q < ag_last (pr_agent p) + ag_idle ag + min 15000 (ag_idle ag)"
proof -
  note r = watch.inv_run [OF assms(2) timely_start [OF assms(1)]]
  have idle: "ag_idle (pr_agent p) = ag_idle ag"
    using watch.fixed_run [OF _ assms(2) timely_start [OF assms(1)], of "\<lambda>p. ag_idle (pr_agent p)"] agent_step_keeps
    by (auto simp: process_start_def clock_touch_def)
  obtain q where q: "(agent_step E)\<^sup>*\<^sup>* p q" "untouched p q" "\<not> pr_running q" using watch.ends [OF r] assms(3) by blast
  with watch.inv_run [OF q(1) r] idle show ?thesis by (auto simp: untouched_def timely_def watchdog_tick_def)
qed

theorem agent_exits_when_idle_witness:
  "\<exists>q. (agent_step demo_agent_env)\<^sup>*\<^sup>* (process_start demo_agent Map.empty 5) q \<and> \<not> pr_running q
    \<and> pr_now q < 5 + DEFAULT_IDLE + 15000"
proof -
  have idle: "ag_idle demo_agent = DEFAULT_IDLE" "0 < DEFAULT_IDLE" "min 15000 DEFAULT_IDLE = 15000"
    by (simp_all add: demo_agent_def agent_new_def DEFAULT_IDLE_def)
  from agent_exits_when_idle [of demo_agent demo_agent_env Map.empty 5 "process_start demo_agent Map.empty 5"]
  show ?thesis using idle by (auto simp: process_start_def clock_touch_def)
qed

text \<open>A sign-out with the token is the only thing a connection can say that ends the service, it is
  acknowledged, and it leaves the vault locked and the files as they were.\<close>

theorem only_token_signs_out:
  assumes "serve_conn E now cn (ag, fs) = ((out, True), ag', fs')"
  shows "presents_token E (ag_token ag) cn
    \<and> (\<exists>c input room. cn = Conn c input room \<and> fst (read_msg (a_req E) input) = Inr (ReqSignout (ag_token ag))
        \<and> out = w_out (snd (write_msg (a_resp E) RespOk (fresh_writer room))))
    \<and> \<not> mg_is_unlocked (ag_manager ag') \<and> fs' = fs"
  using assms serve_conn_signout [OF assms]
  by (auto simp: serve_conn_def presents_token_def Let_def clock_touch_def
      split: conn.splits sum.splits prod.splits if_splits dest!: handle_signout)

theorem only_token_signs_out_witness:
  "\<not> mg_is_unlocked (ag_manager (fst (snd (serve_conn demo_agent_env 7 (demo_conn 2) (demo_agent, Map.empty)))))"
proof -
  obtain out ag' fs' where
    "serve_conn demo_agent_env 7 (demo_conn 2) (demo_agent, Map.empty) = ((out, True), ag', fs')"
    using demo_read [of 2]
    by (simp add: serve_conn_def demo_conn_def Let_def handle_def demo_agent_def agent_new_def clock_touch_def)
  with only_token_signs_out [OF this] show ?thesis by simp
qed

end
