(* ===== verification/Paths.thy ===== *)
theory Paths
  imports Errors
begin

text \<open>
  \<open>src/cli/paths.rs\<close>: where the vault file and the agent's socket live. A path is its text; the
  environment is a function from variable names to values (\<open>None\<close> where the variable is not set or
  not valid Unicode). The outcome of creating a directory and of changing its mode are arguments.
\<close>

definition MAX_SOCKET_PATH_LEN :: nat where
  "MAX_SOCKET_PATH_LEN = 104"

text \<open>\<open>Path::join\<close>.\<close>

definition path_join :: "rstr \<Rightarrow> rstr \<Rightarrow> rstr" where
  "path_join base p =
     (if p \<noteq> [] \<and> hd p = ascii CHR ''/'' then p
      else if base = [] \<or> last base = ascii CHR ''/'' then base @ p
      else base @ [ascii CHR ''/''] @ p)"

definition env_lookup :: "(rstr \<Rightarrow> rstr option) \<Rightarrow> rstr \<Rightarrow> rstr option" where
  "env_lookup env key = (case env key of Some v \<Rightarrow> if v = [] then None else Some v | None \<Rightarrow> None)"

definition resolve_vault_path :: "(rstr \<Rightarrow> rstr option) \<Rightarrow> error + rstr" where
  "resolve_vault_path look =
     (case look (lit ''SIMPLE_SECRETS_VAULT'') of
        Some explicit \<Rightarrow> Inr explicit
      | None \<Rightarrow>
          (case look (lit ''XDG_DATA_HOME'') of
             Some data_home \<Rightarrow>
               Inr (path_join (path_join data_home (lit ''simple-secrets'')) (lit ''vault.bin''))
           | None \<Rightarrow>
               (case look (lit ''HOME'') of
                  Some home \<Rightarrow>
                    Inr (path_join (path_join home (lit ''.local/share/simple-secrets'')) (lit ''vault.bin''))
                | None \<Rightarrow> Inl (Cli CannotLocateVault))))"

definition vault_path :: "(rstr \<Rightarrow> rstr option) \<Rightarrow> error + rstr" where
  "vault_path env = resolve_vault_path (env_lookup env)"

definition resolve_socket_path :: "(rstr \<Rightarrow> rstr option) \<Rightarrow> u32 \<Rightarrow> error + rstr" where
  "resolve_socket_path look uid =
     (let dir = (case look (lit ''XDG_RUNTIME_DIR'') of
                   Some runtime \<Rightarrow> path_join runtime (lit ''simple-secrets'')
                 | None \<Rightarrow>
                     let tmp = (case look (lit ''TMPDIR'') of Some t \<Rightarrow> t | None \<Rightarrow> lit ''/tmp'') in
                     path_join tmp (lit ''simple-secrets-'' @ show_nat (unat uid)));
          sock = path_join dir (lit ''agent.sock'');
          len = length (utf8 sock)
      in if len \<ge> MAX_SOCKET_PATH_LEN then Inl (Cli (SocketPathTooLong len)) else Inr sock)"

definition socket_path :: "(rstr \<Rightarrow> rstr option) \<Rightarrow> u32 \<Rightarrow> error + rstr" where
  "socket_path env uid = resolve_socket_path (env_lookup env) uid"

definition ensure_private_dir ::
  "(rstr \<Rightarrow> rstr + unit) \<Rightarrow> (rstr \<Rightarrow> rstr + unit) \<Rightarrow> rstr \<Rightarrow> error + unit" where
  "ensure_private_dir mkdir chmod dir =
     and_then (map_err (\<lambda>e. Cli (CannotCreateDir dir e)) (mkdir dir)) (\<lambda>_.
     map_err (\<lambda>e. Cli (CannotChmod dir e)) (chmod dir))"

text \<open>\<open>Path::parent\<close> of the paths above: what stands before the last separator, \<open>None\<close> for the root
  and the empty path. Separators at the end and repeated ones do not count; paths with a last component
  \<open>.\<close> do not occur.\<close>

definition path_parent :: "rstr \<Rightarrow> rstr option" where
  "path_parent p =
     (let sl = ascii CHR ''/'';
          core = rev (dropWhile (\<lambda>c. c = sl) (rev p));
          dir = rev (dropWhile (\<lambda>c. c \<noteq> sl) (rev core));
          trimmed = rev (dropWhile (\<lambda>c. c = sl) (rev dir))
      in if core = [] then None
         else if trimmed = [] then Some (take 1 dir)
         else Some trimmed)"

subsection \<open>Lemmas\<close>

text \<open>A socket path that is returned fits \<open>sockaddr_un\<close>, and an empty variable counts as unset.\<close>

lemma resolve_socket_path_fits:
  "resolve_socket_path look uid = Inr sock \<Longrightarrow> length (utf8 sock) < MAX_SOCKET_PATH_LEN"
  by (auto simp: resolve_socket_path_def Let_def not_le split: if_splits)

lemma env_lookup_nonempty: "env_lookup env k = Some v \<Longrightarrow> v \<noteq> []"
  by (auto simp: env_lookup_def split: option.splits if_splits)

lemma vault_path_Inl_iff:
  "vault_path env = Inl e \<longleftrightarrow> e = Cli CannotLocateVault
     \<and> list_all (\<lambda>k. env_lookup env (lit k) = None) [''SIMPLE_SECRETS_VAULT'', ''XDG_DATA_HOME'', ''HOME'']"
  by (auto simp: vault_path_def resolve_vault_path_def simp del: lit_simps split: option.splits)

lemma path_join_not_Nil: "p \<noteq> [] \<Longrightarrow> path_join base p \<noteq> []"
  by (simp add: path_join_def)

lemma vault_path_nonempty: "vault_path env = Inr p \<Longrightarrow> p \<noteq> []"
  by (auto simp: vault_path_def resolve_vault_path_def path_join_not_Nil
      split: option.splits dest: env_lookup_nonempty)

end
