(* ===== verification/Totp.thy ===== *)
theory Totp
  imports Errors Externals Bits
begin

text \<open>
  \<open>src/core/totp.rs\<close>: one-time passwords. A stored value is an \<open>otpauth://\<close> URI or a bare
  base32 seed; \<open>parse\<close> reads either, \<open>to_uri\<close> writes the canonical form and \<open>code_at\<close> computes
  the code of a moment. The HMAC functions are parameters. \<open>unix_now\<close>, which reads the clock, is
  not modelled: the time is an argument, as in the source.
\<close>

unbundle bit_operations_syntax

subsection \<open>Base32\<close>

fun decode_loop :: "rstr \<Rightarrow> u32 \<Rightarrow> nat \<Rightarrow> bytes \<Rightarrow> bytes option" where
  "decode_loop [] acc nbits out = Some out"
| "decode_loop (ch # s) acc nbits out =
     (let c = to_ascii_uppercase ch in
      if c = ascii CHR ''='' \<or> c = ascii CHR '' '' \<or> c = ascii CHR ''-''
      then decode_loop s acc nbits out
      else
        let n = code_point c in
        case (if 65 \<le> n \<and> n \<le> 90 then Some (word_of_nat n - 65)
              else if 50 \<le> n \<and> n \<le> 55 then Some (word_of_nat n - 50 + 26)
              else None) of
          None \<Rightarrow> None
        | Some val \<Rightarrow>
            let acc' = push_bit 5 acc OR val; nbits' = nbits + 5 in
            if nbits' \<ge> 8
            then decode_loop s acc' (nbits' - 8) (out @ [ucast (drop_bit (nbits' - 8) acc')])
            else decode_loop s acc' nbits' out)"

definition decode_base32 :: "rstr \<Rightarrow> bytes option" where
  "decode_base32 s =
     (case decode_loop s 0 0 [] of
        None \<Rightarrow> None
      | Some out \<Rightarrow> if out = [] then None else Some out)"

definition ALPHABET :: rstr where
  "ALPHABET = lit ''ABCDEFGHIJKLMNOPQRSTUVWXYZ234567''"

fun emit_loop :: "u32 \<Rightarrow> nat \<Rightarrow> rstr \<Rightarrow> rstr \<times> nat" where
  "emit_loop acc bits out =
     (if bits \<ge> 5
      then emit_loop acc (bits - 5)
             (out @ [ALPHABET ! unat (drop_bit (bits - 5) acc AND 0x1f)])
      else (out, bits))"

declare emit_loop.simps [simp del]

fun encode_loop :: "bytes \<Rightarrow> u32 \<Rightarrow> nat \<Rightarrow> rstr \<Rightarrow> rstr" where
  "encode_loop [] acc bits out =
     (if bits > 0 then out @ [ALPHABET ! unat (push_bit (5 - bits) acc AND 0x1f)] else out)"
| "encode_loop (b # data) acc bits out =
     (let acc' = push_bit 8 acc OR ucast b;
          (out', bits') = emit_loop acc' (bits + 8) out
      in encode_loop data acc' bits' out')"

definition encode_base32 :: "bytes \<Rightarrow> rstr" where
  "encode_base32 data = encode_loop data 0 0 []"

subsection \<open>Configurations\<close>

datatype totp_alg = Sha1 | Sha256 | Sha512

record totp_config =
  totp_secret :: bytes
  totp_digits :: u32
  totp_period :: u64
  totp_algorithm :: totp_alg

text \<open>The loop over the query's pairs; \<open>None\<close> is the early return on an unknown algorithm.\<close>

fun pair_loop ::
  "rstr list \<Rightarrow> bytes option \<Rightarrow> u32 \<Rightarrow> u64 \<Rightarrow> totp_alg
     \<Rightarrow> (bytes option \<times> u32 \<times> u64 \<times> totp_alg) option" where
  "pair_loop [] sec digits period algorithm = Some (sec, digits, period, algorithm)"
| "pair_loop (p # ps) sec digits period algorithm =
     (case split_once (ascii CHR ''='') p of
        None \<Rightarrow> pair_loop ps sec digits period algorithm
      | Some (key, val) \<Rightarrow>
          let k = map to_ascii_lowercase key in
          if k = lit ''secret'' then pair_loop ps (decode_base32 val) digits period algorithm
          else if k = lit ''digits'' then
            (case parse_unsigned (2 ^ 32) val of
               Some d \<Rightarrow> if 1 \<le> d \<and> d \<le> 9 then pair_loop ps sec (word_of_nat d) period algorithm
                         else pair_loop ps sec digits period algorithm
             | None \<Rightarrow> pair_loop ps sec digits period algorithm)
          else if k = lit ''period'' then
            (case parse_unsigned (2 ^ 64) val of
               Some p \<Rightarrow> if p > 0 then pair_loop ps sec digits (word_of_nat p) algorithm
                         else pair_loop ps sec digits period algorithm
             | None \<Rightarrow> pair_loop ps sec digits period algorithm)
          else if k = lit ''algorithm'' then
            (let a = map to_ascii_uppercase val in
             if a = lit ''SHA1'' then pair_loop ps sec digits period Sha1
             else if a = lit ''SHA256'' then pair_loop ps sec digits period Sha256
             else if a = lit ''SHA512'' then pair_loop ps sec digits period Sha512
             else None)
          else pair_loop ps sec digits period algorithm)"

definition parse_otpauth :: "rstr \<Rightarrow> totp_config option" where
  "parse_otpauth value =
     (case strip_prefix (lit ''otpauth://totp/'') value of
        None \<Rightarrow> None
      | Some rest \<Rightarrow>
          let query = (case split_once (ascii CHR ''?'') rest of Some (_, q) \<Rightarrow> q | None \<Rightarrow> []) in
          (case pair_loop (split_on (ascii CHR ''&'') query) None 6 30 Sha1 of
             None \<Rightarrow> None
           | Some (sec, digits, period, algorithm) \<Rightarrow>
               (case sec of
                  None \<Rightarrow> None
                | Some s \<Rightarrow> Some \<lparr>totp_secret = s, totp_digits = digits, totp_period = period,
                                 totp_algorithm = algorithm\<rparr>)))"

definition parse_totp :: "rstr \<Rightarrow> totp_config option" where
  "parse_totp value =
     (let trimmed = trim value in
      case parse_otpauth trimmed of
        Some cfg \<Rightarrow> Some cfg
      | None \<Rightarrow>
          if length (utf8 trimmed) \<ge> 16
          then (case decode_base32 trimmed of
                  Some s \<Rightarrow> Some \<lparr>totp_secret = s, totp_digits = 6, totp_period = 30,
                                 totp_algorithm = Sha1\<rparr>
                | None \<Rightarrow> None)
          else None)"

definition label_byte_kept :: "byte \<Rightarrow> bool" where
  "label_byte_kept b \<longleftrightarrow>
     (let n = unat b in
      (65 \<le> n \<and> n \<le> 90) \<or> (97 \<le> n \<and> n \<le> 122) \<or> (48 \<le> n \<and> n \<le> 57)
      \<or> n = 45 \<or> n = 95 \<or> n = 46 \<or> n = 126 \<or> n = 47 \<or> n = 58)"

definition encode_label :: "rstr \<Rightarrow> rstr" where
  "encode_label s =
     concat (map (\<lambda>b. if label_byte_kept b then [rchr (unat b)]
                      else ascii CHR ''%'' # show_hex2 b) (utf8 s))"

fun alg_name :: "totp_alg \<Rightarrow> rstr" where
  "alg_name Sha1 = lit ''SHA1''"
| "alg_name Sha256 = lit ''SHA256''"
| "alg_name Sha512 = lit ''SHA512''"

definition to_uri :: "totp_config \<Rightarrow> rstr \<Rightarrow> rstr" where
  "to_uri cfg label =
     lit ''otpauth://totp/'' @ encode_label label
     @ lit ''?secret='' @ encode_base32 (totp_secret cfg)
     @ lit ''&digits='' @ show_nat (unat (totp_digits cfg))
     @ lit ''&period='' @ show_nat (unat (totp_period cfg))
     @ lit ''&algorithm='' @ alg_name (totp_algorithm cfg)"

subsection \<open>Codes\<close>

definition hmac_of :: "crates \<Rightarrow> totp_alg \<Rightarrow> bytes \<Rightarrow> bytes \<Rightarrow> bytes" where
  "hmac_of X alg key msg =
     (case alg of Sha1 \<Rightarrow> hmac_sha1 X key msg | Sha256 \<Rightarrow> hmac_sha256 X key msg
                | Sha512 \<Rightarrow> hmac_sha512 X key msg)"

text \<open>
  The result is \<open>None\<close> where the source would panic: an index outside the HMAC output, or an
  overflow of \<open>10u32.pow(digits)\<close>.
\<close>

definition hotp :: "crates \<Rightarrow> bytes \<Rightarrow> u64 \<Rightarrow> u32 \<Rightarrow> totp_alg \<Rightarrow> rstr option" where
  "hotp X sec counter digits alg =
     (let msg = to_be 8 counter;
          hash = hmac_of X alg sec msg;
          offset = unat (hash ! (length hash - 1) AND 0x0f);
          bin = push_bit 24 (ucast (hash ! offset) AND 0x7f)
                OR push_bit 16 (ucast (hash ! (offset + 1)))
                OR push_bit 8 (ucast (hash ! (offset + 2)))
                OR ucast (hash ! (offset + 3)) :: u32
      in if length hash \<le> offset + 3 \<or> 10 ^ unat digits \<ge> (2 ^ 32 :: nat) then None
         else let modulo = 10 ^ unat digits :: u32
              in Some (show_nat_padded (unat digits) (unat (bin mod modulo))))"

definition code_at :: "crates \<Rightarrow> totp_config \<Rightarrow> u64 \<Rightarrow> rstr option" where
  "code_at X cfg unix_secs =
     (let counter = unix_secs div max (totp_period cfg) 1
      in hotp X (totp_secret cfg) counter (totp_digits cfg) (totp_algorithm cfg))"

definition seconds_remaining :: "totp_config \<Rightarrow> u64 \<Rightarrow> u64" where
  "seconds_remaining cfg unix_secs =
     (let period = max (totp_period cfg) 1 in period - unix_secs mod period)"

subsection \<open>Base32 round trip\<close>

definition alphabet_char :: "nat \<Rightarrow> rchar" where
  "alphabet_char v = rchr (if v < 26 then 65 + v else 24 + v)"

lemma ALPHABET_map: "ALPHABET = map alphabet_char [0..<32]"
proof -
  have "[0..<32] = [0, 1, 2, 3, 4, 5, 6, 7, 8, 9, 10, 11, 12, 13, 14, 15, 16, 17, 18, 19, 20,
      21, 22, 23, 24, 25, 26, 27, 28, 29, 30, 31 :: nat]"
    by code_simp
  then show ?thesis by (simp add: ALPHABET_def ascii_def alphabet_char_def)
qed

lemma ALPHABET_nth: "v < 32 \<Longrightarrow> ALPHABET ! v = alphabet_char v"
  by (simp add: ALPHABET_map)

lemma code_point_alphabet: "v < 32 \<Longrightarrow> code_point (alphabet_char v) = (if v < 26 then 65 + v else 24 + v)"
  by (simp add: alphabet_char_def)

definition five :: "nat \<Rightarrow> bool list" where
  "five v = low_bits 5 (word_of_nat v :: u32)"

lemma length_five [simp]: "length (five v) = 5"
  by (simp add: five_def)

lemma five_mask: "five (unat (w AND 0x1f)) = low_bits 5 (w :: u32)"
  using low_bits_mask [of 5 w] by (simp add: five_def mask_eq_decr_exp)

lemma unat_mask5: "unat (w AND 0x1f :: u32) < 32"
proof -
  have "(0x1f :: u32) = mask 5" by (simp add: mask_eq_decr_exp)
  then have "w AND 0x1f = take_bit 5 w" by (simp add: take_bit_eq_mask)
  then have "unat (w AND 0x1f) = take_bit 5 (unat w)" by (simp add: unsigned_take_bit_eq)
  then show ?thesis using take_bit_nat_less_exp [of 5 "unat w"] by simp
qed

lemma small_word_bit: "v < 32 \<Longrightarrow> 5 \<le> j \<Longrightarrow> \<not> bit (word_of_nat v :: u32) j"
proof -
  assume v: "v < 32" and j: "5 \<le> j"
  have "v < 2 ^ j" using v power_increasing [OF j, of "2::nat"] by simp
  then have "\<not> bit v j" by (simp add: bit_iff_odd)
  then show ?thesis by (simp add: bit_of_nat_iff)
qed

lemma decode_loop_step:
  assumes "v < 32"
  shows "decode_loop (alphabet_char v # s) acc nbits out =
    (let acc' = push_bit 5 acc OR word_of_nat v in
     if nbits + 5 \<ge> 8 then decode_loop s acc' (nbits - 3) (out @ [ucast (drop_bit (nbits - 3) acc')])
     else decode_loop s acc' (nbits + 5) out)"
proof -
  have cp: "code_point (alphabet_char v) = (if v < 26 then 65 + v else 24 + v)"
    using assms by (rule code_point_alphabet)
  then have up: "to_ascii_uppercase (alphabet_char v) = alphabet_char v"
    using assms by (auto simp: to_ascii_uppercase_def)
  have sep: "alphabet_char v \<noteq> ascii CHR ''=''" "alphabet_char v \<noteq> ascii CHR '' ''"
    "alphabet_char v \<noteq> ascii CHR ''-''"
    using assms cp by (auto simp flip: code_point_eq_iff simp: ascii_def)
  show ?thesis
  proof (cases "v < 26")
    case True
    then have "(word_of_nat (65 + v) - 65 :: u32) = word_of_nat v" by simp
    with True cp show ?thesis by (simp add: up sep Let_def)
  next
    case False
    then obtain w where w: "v = 26 + w" using le_Suc_ex not_less by blast
    then have "(word_of_nat (24 + v) - 50 + 26 :: u32) = word_of_nat v" by simp
    with False cp assms show ?thesis by (simp add: up sep Let_def)
  qed
qed

declare decode_loop.simps(2) [simp del]

lemma decode_loop_alphabet:
  assumes "\<forall>v\<in>set vs. v < 32" "nbits < 8"
  shows "\<exists>out' p. decode_loop (map alphabet_char vs) acc nbits out = Some out' \<and> length p < 8
    \<and> bit_stream out' @ p = bit_stream out @ low_bits nbits acc @ concat (map five vs)"
  using assms
proof (induction vs arbitrary: acc nbits out)
  case Nil
  show ?case using Nil.prems(2) by (intro exI [of _ out] exI [of _ "low_bits nbits acc"]) simp
next
  case (Cons v vs)
  let ?acc = "push_bit 5 acc OR word_of_nat v"
  have v: "v < 32" using Cons.prems by simp
  have bits: "low_bits (nbits + 5) ?acc = low_bits nbits acc @ five v"
    unfolding five_def using Cons.prems(2) small_word_bit [OF v] by (intro low_bits_append) auto
  show ?case
  proof (cases "nbits + 5 \<ge> 8")
    case True
    let ?out = "out @ [ucast (drop_bit (nbits - 3) ?acc)]"
    have "nbits - 3 < 8" "\<forall>v\<in>set vs. v < 32" using Cons.prems by auto
    from Cons.IH [OF this(2,1), of ?acc ?out]
    obtain out' p where IH: "decode_loop (map alphabet_char vs) ?acc (nbits - 3) ?out = Some out'"
      "length p < 8"
      "bit_stream out' @ p = bit_stream ?out @ low_bits (nbits - 3) ?acc @ concat (map five vs)"
      by blast
    have "byte_bits (ucast (drop_bit (nbits - 3) ?acc)) @ low_bits (nbits - 3) ?acc
        = low_bits (8 + (nbits - 3)) ?acc"
      by (simp only: low_bits_take_drop byte_bits_low_bits) (simp add: low_bits_ucast)
    also have "8 + (nbits - 3) = nbits + 5" using True by simp
    finally have "bit_stream ?out @ low_bits (nbits - 3) ?acc
        = bit_stream out @ low_bits nbits acc @ five v"
      using bits by (simp add: bit_stream_def)
    with IH True show ?thesis
      by (intro exI [of _ out'] exI [of _ p])
         (simp add: decode_loop_step [OF v] Let_def flip: append_assoc)
  next
    case False
    have "nbits + 5 < 8" "\<forall>v\<in>set vs. v < 32" using False Cons.prems by auto
    from Cons.IH [OF this(2,1), of ?acc out] False bits show ?thesis
      by (simp add: decode_loop_step [OF v] Let_def)
  qed
qed

lemma emit_loop_stream:
  "bits \<le> 32 \<Longrightarrow> \<exists>vs bits'. emit_loop acc bits out = (out @ map alphabet_char vs, bits')
     \<and> (\<forall>v\<in>set vs. v < 32) \<and> bits' < 5
     \<and> low_bits bits acc = concat (map five vs) @ low_bits bits' acc"
proof (induction bits arbitrary: out rule: less_induct)
  case (less bits)
  show ?case
  proof (cases "5 \<le> bits")
    case True
    let ?w = "drop_bit (bits - 5) acc AND 0x1f" let ?v = "unat ?w"
    have "bits - 5 < bits" "bits - 5 \<le> 32" using True less.prems by auto
    from less.IH [OF this, of "out @ [alphabet_char ?v]"] obtain vs bits' where
      IH: "emit_loop acc (bits - 5) (out @ [alphabet_char ?v])
            = (out @ [alphabet_char ?v] @ map alphabet_char vs, bits')"
        "\<forall>v\<in>set vs. v < 32" "bits' < 5"
        "low_bits (bits - 5) acc = concat (map five vs) @ low_bits bits' acc"
      by auto
    have "low_bits bits acc = low_bits (5 + (bits - 5)) acc" using True by simp
    also have "\<dots> = five ?v @ low_bits (bits - 5) acc"
      by (simp only: low_bits_take_drop five_mask)
    finally show ?thesis
      using True IH unat_mask5
      by (intro exI [of _ "?v # vs"] exI [of _ bits'])
         (simp add: emit_loop.simps [of acc bits] ALPHABET_nth)
  next
    case False
    then show ?thesis
      by (intro exI [of _ "[]"] exI [of _ bits]) (simp add: emit_loop.simps [of acc bits])
  qed
qed

lemma encode_loop_stream:
  "bits < 5 \<Longrightarrow> \<exists>vs z. encode_loop data acc bits out = out @ map alphabet_char vs
     \<and> (\<forall>v\<in>set vs. v < 32) \<and> z < 5
     \<and> concat (map five vs) = low_bits bits acc @ bit_stream data @ replicate z False"
proof (induction data arbitrary: acc bits out)
  case Nil
  let ?w = "push_bit (5 - bits) acc AND 0x1f"
  have "five (unat ?w) = low_bits (bits + (5 - bits)) (push_bit (5 - bits) acc)"
    using Nil by (simp add: five_mask)
  also have "\<dots> = low_bits bits acc @ replicate (5 - bits) False"
    using Nil by (intro low_bits_push) simp
  finally have 5: "five (unat ?w) = low_bits bits acc @ replicate (5 - bits) False" .
  show ?case
  proof (cases "bits = 0")
    case True
    then show ?thesis by (intro exI [of _ "[]"] exI [of _ 0]) (simp add: bit_stream_def)
  next
    case False
    with 5 Nil show ?thesis
      by (intro exI [of _ "[unat ?w]"] exI [of _ "5 - bits"])
         (simp add: unat_mask5 ALPHABET_nth bit_stream_def)
  qed
next
  case (Cons b data)
  let ?acc = "push_bit 8 acc OR ucast b :: u32"
  have "low_bits (bits + 8) ?acc = low_bits bits acc @ low_bits 8 (ucast b :: u32)"
    using Cons.prems
    by (intro low_bits_append) (auto simp: bit_ucast_iff dest: bit_imp_le_length)
  then have acc: "low_bits (bits + 8) ?acc = low_bits bits acc @ byte_bits b"
    by (simp add: byte_bits_low_bits low_bits_ucast)
  have "bits + 8 \<le> 32" using Cons.prems by simp
  from emit_loop_stream [OF this, of ?acc out] obtain vs bits' where
    em: "emit_loop ?acc (bits + 8) out = (out @ map alphabet_char vs, bits')"
      "\<forall>v\<in>set vs. v < 32" "bits' < 5"
      "low_bits (bits + 8) ?acc = concat (map five vs) @ low_bits bits' ?acc"
    by blast
  from Cons.IH [OF em(3), of ?acc "out @ map alphabet_char vs"] obtain ws z where
    IH: "encode_loop data ?acc bits' (out @ map alphabet_char vs)
          = out @ map alphabet_char vs @ map alphabet_char ws"
      "\<forall>v\<in>set ws. v < 32" "z < 5"
      "concat (map five ws) = low_bits bits' ?acc @ bit_stream data @ replicate z False"
    by auto
  have "concat (map five (vs @ ws)) = low_bits bits acc @ bit_stream (b # data) @ replicate z False"
    using em(4) IH(4) acc by (simp add: bit_stream_def flip: append_assoc)
  with em IH show ?case
    by (intro exI [of _ "vs @ ws"] exI [of _ z]) auto
qed

lemma encode_base32_chars:
  obtains vs z where "encode_base32 data = map alphabet_char vs" "\<forall>v\<in>set vs. v < 32" "z < 5"
    "concat (map five vs) = bit_stream data @ replicate z False"
  using encode_loop_stream [of 0 data 0 "[]"] by (auto simp: encode_base32_def)

lemma decode_encode_base32 [codec]: "data \<noteq> [] \<Longrightarrow> decode_base32 (encode_base32 data) = Some data"
proof -
  assume ne: "data \<noteq> []"
  obtain vs z where e: "encode_base32 data = map alphabet_char vs" "\<forall>v\<in>set vs. v < 32" "z < 5"
    "concat (map five vs) = bit_stream data @ replicate z False"
    by (rule encode_base32_chars)
  obtain out p where d: "decode_loop (map alphabet_char vs) 0 0 [] = Some out" "length p < 8"
      "bit_stream out @ p = bit_stream data @ replicate z False"
    using decode_loop_alphabet [OF e(2), of 0 0 "[]"] e(4) by (auto simp: bit_stream_def)
  have "8 * length out + length p = 8 * length data + z" using arg_cong [OF d(3), of length] by simp
  then have "length out = length data" using d(2) e(3) by linarith
  moreover from this have "bit_stream out = bit_stream data" using d(3) by (simp add: append_eq_append_conv)
  ultimately have "out = data" by (rule bit_stream_inj)
  with d(1) e(1) ne show ?thesis by (simp add: decode_base32_def)
qed

subsection \<open>URI round trip\<close>

lemma pair_loop_secret:
  "pair_loop ((lit ''secret='' @ v) # ps) sec d p a = pair_loop ps (decode_base32 v) d p a"
  by (simp add: ascii_def to_ascii_lowercase_def)

lemma pair_loop_digits:
  "parse_unsigned (2 ^ 32) v = Some n \<Longrightarrow> 1 \<le> n \<Longrightarrow> n \<le> 9 \<Longrightarrow>
     pair_loop ((lit ''digits='' @ v) # ps) sec d p a = pair_loop ps sec (word_of_nat n) p a"
  by (simp add: ascii_def to_ascii_lowercase_def)

lemma pair_loop_period:
  "parse_unsigned (2 ^ 64) v = Some n \<Longrightarrow> 0 < n \<Longrightarrow>
     pair_loop ((lit ''period='' @ v) # ps) sec d p a = pair_loop ps sec d (word_of_nat n) a"
  by (simp add: ascii_def to_ascii_lowercase_def)

lemma pair_loop_algorithm:
  "pair_loop ((lit ''algorithm='' @ alg_name b) # ps) sec d p a = pair_loop ps sec d p b"
  by (cases b) (simp_all add: ascii_def to_ascii_lowercase_def to_ascii_uppercase_def)

lemma encode_base32_code_points:
  "c \<in> set (encode_base32 data) \<Longrightarrow> 50 \<le> code_point c \<and> code_point c \<le> 90 \<and> code_point c \<noteq> 63 \<and> code_point c \<noteq> 61"
proof -
  assume c: "c \<in> set (encode_base32 data)"
  obtain vs z where "encode_base32 data = map alphabet_char vs" "\<forall>v\<in>set vs. v < 32"
    by (rule encode_base32_chars [of data])
  with c show ?thesis by (auto simp: code_point_alphabet split: if_splits)
qed

lemma show_nat_code_points: "c \<in> set (show_nat n) \<Longrightarrow> 48 \<le> code_point c \<and> code_point c \<le> 57"
  using show_nat_digits [of c n] by (simp add: is_ascii_digit_def)

lemma hex_char_code_point: "d < 16 \<Longrightarrow> code_point (hex_char d) = (if d < 10 then 48 + d else 55 + d)"
  by (simp add: hex_char_def)

lemma label_piece:
  "c \<in> set (if label_byte_kept b then [rchr (unat b)] else ascii CHR ''%'' # show_hex2 b)
     \<Longrightarrow> code_point c \<noteq> 63"
  using nibbles_less [of b]
  by (auto simp: label_byte_kept_def Let_def show_hex2_def hex_char_code_point ascii_def
      split: if_splits)

lemma encode_label_no_query: "ascii CHR ''?'' \<notin> set (encode_label s)"
proof
  assume "ascii CHR ''?'' \<in> set (encode_label s)"
  then obtain b where "ascii CHR ''?'' \<in> set (if label_byte_kept b then [rchr (unat b)]
      else ascii CHR ''%'' # show_hex2 b)"
    unfolding encode_label_def set_concat set_map by blast
  then have "code_point (ascii CHR ''?'') \<noteq> 63" by (rule label_piece)
  then show False by (simp add: ascii_def)
qed

lemma split_query:
  assumes "ascii CHR ''&'' \<notin> set a" "ascii CHR ''&'' \<notin> set b" "ascii CHR ''&'' \<notin> set c"
    "ascii CHR ''&'' \<notin> set d"
  shows "split_on (ascii CHR ''&'') (a @ ascii CHR ''&'' # b @ ascii CHR ''&'' # c @ ascii CHR ''&'' # d)
    = [a, b, c, d]"
  using assms by (simp add: split_on_append split_on_no_sep)

lemma alg_name_ends: "alg_name a \<noteq> []" "\<not> is_whitespace (last (alg_name a))"
  "ascii CHR ''&'' \<notin> set (alg_name a)"
  by (cases a; simp add: ascii_def is_whitespace_def)+

lemma parse_to_uri:
  assumes "totp_secret cfg \<noteq> []" "1 \<le> totp_digits cfg" "totp_digits cfg \<le> 9" "0 < totp_period cfg"
  shows "parse_totp (to_uri cfg label) = Some cfg"
proof -
  let ?A = "ascii CHR ''&''"
  let ?s = "lit ''secret='' @ encode_base32 (totp_secret cfg)"
  let ?d = "lit ''digits='' @ show_nat (unat (totp_digits cfg))"
  let ?p = "lit ''period='' @ show_nat (unat (totp_period cfg))"
  let ?a = "lit ''algorithm='' @ alg_name (totp_algorithm cfg)"
  let ?q = "?s @ ?A # ?d @ ?A # ?p @ ?A # ?a"
  have uri: "to_uri cfg label
      = lit ''otpauth://totp/'' @ encode_label label @ ascii CHR ''?'' # ?q"
    by (simp add: to_uri_def)
  have b32: "?A \<notin> set (encode_base32 (totp_secret cfg))"
    using encode_base32_code_points [of ?A] by (auto simp: ascii_def)
  have num: "?A \<notin> set (show_nat n)" for n
    using show_nat_code_points [of ?A] by (auto simp: ascii_def)
  have parts: "split_on ?A ?q = [?s, ?d, ?p, ?a]"
    by (rule split_query) (use b32 num alg_name_ends(3) in \<open>simp_all add: ascii_def\<close>)
  have "1 \<le> unat (totp_digits cfg)" "unat (totp_digits cfg) \<le> 9"
    using assms(2,3) by (simp_all add: word_le_nat_alt)
  moreover have "0 < unat (totp_period cfg)" using assms(4) by (simp add: word_less_nat_alt)
  moreover have "unat (totp_digits cfg) < 2 ^ 32" "unat (totp_period cfg) < 2 ^ 64"
    using unsigned_less [of "totp_digits cfg"] unsigned_less [of "totp_period cfg"] by simp_all
  moreover have "word_of_nat (unat (totp_digits cfg)) = totp_digits cfg"
    "word_of_nat (unat (totp_period cfg)) = totp_period cfg" by simp_all
  ultimately have "pair_loop [?s, ?d, ?p, ?a] None 6 30 Sha1
      = Some (Some (totp_secret cfg), totp_digits cfg, totp_period cfg, totp_algorithm cfg)"
    using assms(1)
    by (simp only: pair_loop_secret pair_loop_digits pair_loop_period pair_loop_algorithm
        parse_show_nat decode_encode_base32 pair_loop.simps(1) not_False_eq_True)
  then have "parse_otpauth (to_uri cfg label) = Some cfg"
    unfolding parse_otpauth_def uri
    by (simp only: strip_prefix_append option.case split_once_append [OF encode_label_no_query]
        prod.case Let_def parts) simp
  moreover have "trim (to_uri cfg label) = to_uri cfg label"
    by (rule trim_id) (use alg_name_ends in \<open>simp_all add: to_uri_def ascii_def is_whitespace_def\<close>)
  ultimately show ?thesis by (simp add: parse_totp_def Let_def)
qed

subsection \<open>What \<open>parse\<close> guarantees\<close>

definition totp_wf :: "totp_config \<Rightarrow> bool" where
  "totp_wf cfg \<longleftrightarrow> totp_secret cfg \<noteq> [] \<and> 1 \<le> totp_digits cfg \<and> totp_digits cfg \<le> 9 \<and> 0 < totp_period cfg"

lemma decode_base32_not_Nil: "decode_base32 s = Some x \<Longrightarrow> x \<noteq> []"
  by (auto simp: decode_base32_def split: option.splits if_splits)

lemma small_digits: "1 \<le> n \<Longrightarrow> n \<le> 9 \<Longrightarrow> 1 \<le> (word_of_nat n :: u32) \<and> (word_of_nat n :: u32) \<le> 9"
  by (simp add: word_le_nat_alt unat_of_nat)

lemma small_period: "0 < n \<Longrightarrow> n < 2 ^ 64 \<Longrightarrow> 0 < (word_of_nat n :: u64)"
  by (simp add: word_less_nat_alt unat_of_nat)

definition fields_wf :: "bytes option \<Rightarrow> u32 \<Rightarrow> u64 \<Rightarrow> bool" where
  "fields_wf sec d p \<longleftrightarrow> sec \<noteq> Some [] \<and> 1 \<le> d \<and> d \<le> 9 \<and> 0 < p"

lemma fields_wf_update:
  "fields_wf sec d p \<Longrightarrow> fields_wf (decode_base32 v) d p"
  "fields_wf sec d p \<Longrightarrow> 1 \<le> n \<Longrightarrow> n \<le> 9 \<Longrightarrow> fields_wf sec (word_of_nat n) p"
  "fields_wf sec d p \<Longrightarrow> parse_unsigned (2 ^ 64) v = Some m \<Longrightarrow> 0 < m \<Longrightarrow> fields_wf sec d (word_of_nat m)"
  using decode_base32_not_Nil small_digits small_period [OF _ parse_unsigned_less]
  unfolding fields_wf_def by blast+

lemma pair_loop_wf:
  "pair_loop ps sec d p a = Some (sec', d', p', a') \<Longrightarrow> fields_wf sec d p \<Longrightarrow> fields_wf sec' d' p'"
proof (induction ps arbitrary: sec d p a)
  case Nil
  then show ?case by simp
next
  case (Cons q ps)
  note up = fields_wf_update [OF Cons.prems(2)]
  show ?case
  proof (cases "split_once (ascii CHR ''='') q")
    case None
    with Cons show ?thesis by simp
  next
    case (Some kv)
    obtain key val where kv: "kv = (key, val)" by force
    let ?k = "map to_ascii_lowercase key"
    consider "?k = lit ''secret''" | "?k = lit ''digits''" | "?k = lit ''period''"
      | "?k = lit ''algorithm''" | "?k \<notin> {lit ''secret'', lit ''digits'', lit ''period'', lit ''algorithm''}"
      by blast
    then show ?thesis
    proof cases
      case 1
      with Some kv Cons.prems Cons.IH up(1) show ?thesis by (simp del: lit_simps)
    next
      case 2
      then have "?k \<noteq> lit ''secret''" by (simp add: ascii_def)
      with 2 Some kv Cons.prems Cons.IH up(2) show ?thesis
        by (auto simp del: lit_simps split: option.splits if_splits)
    next
      case 3
      then have "?k \<noteq> lit ''secret''" "?k \<noteq> lit ''digits''" by (simp_all add: ascii_def)
      with 3 Some kv Cons.prems Cons.IH up(3) show ?thesis
        by (auto simp del: lit_simps split: option.splits if_splits)
    next
      case 4
      then have "?k \<noteq> lit ''secret''" "?k \<noteq> lit ''digits''" "?k \<noteq> lit ''period''"
        by (simp_all add: ascii_def)
      with 4 Some kv Cons.prems Cons.IH show ?thesis
        by (auto simp: Let_def simp del: lit_simps split: if_splits)
    next
      case 5
      with Some kv Cons.prems Cons.IH show ?thesis by (simp del: lit_simps)
    qed
  qed
qed

lemma parse_otpauth_wf: "parse_otpauth v = Some cfg \<Longrightarrow> totp_wf cfg"
proof -
  assume "parse_otpauth v = Some cfg"
  then obtain ps s d p a where "pair_loop ps None 6 30 Sha1 = Some (Some s, d, p, a)"
    and "cfg = \<lparr>totp_secret = s, totp_digits = d, totp_period = p, totp_algorithm = a\<rparr>"
    by (auto simp: parse_otpauth_def Let_def split: option.splits)
  moreover have "fields_wf None 6 30" by (simp add: fields_wf_def)
  ultimately show ?thesis using pair_loop_wf by (fastforce simp: fields_wf_def totp_wf_def)
qed

lemma parse_totp_wf: "parse_totp v = Some cfg \<Longrightarrow> totp_wf cfg"
  by (auto simp: parse_totp_def Let_def split: option.splits if_splits dest: parse_otpauth_wf)
     (auto simp: totp_wf_def dest: decode_base32_not_Nil)

subsection \<open>Codes\<close>

lemma nibble_offset: "unat (b AND 0x0f :: byte) < 16"
proof -
  have "(0x0f :: byte) = mask 4" by (simp add: mask_eq_decr_exp)
  then have "b AND 0x0f = take_bit 4 b" by (simp add: take_bit_eq_mask)
  then have "unat (b AND 0x0f) = take_bit 4 (unat b)" by (simp add: unsigned_take_bit_eq)
  then show ?thesis using take_bit_nat_less_exp [of 4 "unat b"] by simp
qed

lemma hmac_of_length: "hmac_lengths X \<Longrightarrow> 20 \<le> length (hmac_of X alg k msg)"
  by (cases alg) (simp_all add: hmac_of_def hmac_lengths_def)

lemma nine_digits: "(d::u32) \<le> 9 \<Longrightarrow> (10::nat) ^ unat d < 2 ^ 32 \<and> unat (10 ^ unat d :: u32) = 10 ^ unat d"
proof -
  assume "d \<le> 9"
  then have "unat d \<le> 9" by (simp add: word_le_nat_alt)
  then have "(10::nat) ^ unat d \<le> 10 ^ 9" by (intro power_increasing) simp_all
  then have lt: "(10::nat) ^ unat d < 2 ^ 32" by simp
  have "unat (of_nat (10 ^ unat d) :: u32) = 10 ^ unat d"
    using lt by (simp only: unat_of_nat take_bit_eq_mod len_num0 mod_less) simp
  with lt show ?thesis by simp
qed

lemma show_nat_padded_digits: "list_all is_ascii_digit (show_nat_padded w n)"
  using show_nat_digits by (auto simp: show_nat_padded_def list_all_iff)

lemma hotp_digits:
  assumes "hmac_lengths X" "1 \<le> digits" "digits \<le> 9"
  shows "\<exists>code. hotp X k c digits alg = Some code \<and> length code = unat digits
    \<and> list_all is_ascii_digit code"
proof -
  let ?h = "hmac_of X alg k (to_be 8 c)"
  have "unat (?h ! (length ?h - 1) AND 0x0f) + 3 < length ?h"
    using nibble_offset [of "?h ! (length ?h - 1)"] hmac_of_length [OF assms(1), of alg k "to_be 8 c"]
    by linarith
  note off = this and p = nine_digits [OF assms(3)]
  have pos: "0 < unat digits" using assms(2) by (simp add: word_le_nat_alt)
  have "unat (w mod (10 ^ unat digits :: u32)) < 10 ^ unat digits" for w
    using p by (simp add: unat_mod_distrib)
  then have "length (show_nat_padded (unat digits) (unat (w mod (10 ^ unat digits :: u32)))) = unat digits"
    for w using pos by (intro length_show_nat_padded)
  then show ?thesis
    using off p show_nat_padded_digits by (simp add: hotp_def Let_def not_le)
qed

lemma div_within_period:
  fixes t k p :: nat
  assumes "0 < p"
  shows "k < p - t mod p \<Longrightarrow> (t + k) div p = t div p" "(t + (p - t mod p)) div p = t div p + 1"
proof -
  assume "k < p - t mod p"
  then have "t mod p + k < p" by simp
  moreover have "t + k = p * (t div p) + (t mod p + k)" by (metis add.assoc mult_div_mod_eq)
  then have "(t + k) div p = t div p + (t mod p + k) div p"
    using assms by (simp only: div_mult_self4 neq0_conv)
  ultimately show "(t + k) div p = t div p" by simp
next
  have "t = p * (t div p) + t mod p" by simp
  then have "t + (p - t mod p) = p * (t div p) + p"
    using mod_less_divisor [OF assms, of t] by linarith
  then show "(t + (p - t mod p)) div p = t div p + 1" using assms by simp
qed

definition totp_counter :: "totp_config \<Rightarrow> u64 \<Rightarrow> u64" where
  "totp_counter cfg t = t div max (totp_period cfg) 1"

lemma code_at_counter:
  "code_at X cfg t = hotp X (totp_secret cfg) (totp_counter cfg t) (totp_digits cfg) (totp_algorithm cfg)"
  by (simp add: code_at_def totp_counter_def Let_def)

lemma period_pos: "0 < unat (max (totp_period cfg) 1)"
proof -
  have "1 \<le> max (totp_period cfg) 1" by simp
  then show ?thesis by (simp add: word_le_nat_alt del: max.cobounded2)
qed

lemma unat_add_small: "unat (t :: u64) + k < 2 ^ 64 \<Longrightarrow> unat (t + word_of_nat k) = unat t + k"
  by (simp add: unat_word_ariths unat_of_nat)

lemma word_succ_if_unat: "unat (a :: u64) = unat b + 1 \<Longrightarrow> a = b + 1"
proof -
  assume "unat a = unat b + 1"
  then have "word_of_nat (unat a) = (word_of_nat (unat b + 1) :: u64)" by (rule arg_cong)
  then show ?thesis by (simp only: of_nat_unat of_nat_add of_nat_1 ucast_id)
qed

lemma unat_seconds_remaining:
  "unat (seconds_remaining cfg t) = unat (max (totp_period cfg) 1) - unat t mod unat (max (totp_period cfg) 1)"
proof -
  let ?p = "max (totp_period cfg) 1"
  have "unat (t mod ?p) \<le> unat ?p"
    using mod_less_divisor [OF period_pos, of "unat t" cfg] by (simp add: unat_mod_distrib)
  then have "t mod ?p \<le> ?p" by (simp add: word_le_nat_alt)
  then have "unat (?p - t mod ?p) = unat ?p - unat (t mod ?p)" by (rule unat_sub)
  then show ?thesis by (simp add: seconds_remaining_def Let_def unat_mod_distrib)
qed

subsection \<open>Properties\<close>

text \<open>C20. The canonical URI of a well-formed configuration, under any label, parses back to exactly
  that configuration: base32 seed, digits, period and algorithm all survive.\<close>

theorem totp_uri_roundtrip:
  assumes "totp_secret cfg \<noteq> []" "1 \<le> totp_digits cfg" "totp_digits cfg \<le> 9" "0 < totp_period cfg"
  shows "parse_totp (to_uri cfg label) = Some cfg"
  using assms by (rule parse_to_uri)

theorem totp_uri_roundtrip_witness:
  "parse_totp (to_uri \<lparr>totp_secret = [1, 255, 7], totp_digits = 8, totp_period = 60,
      totp_algorithm = Sha512\<rparr> (lit ''a?b''))
   = Some \<lparr>totp_secret = [1, 255, 7], totp_digits = 8, totp_period = 60, totp_algorithm = Sha512\<rparr>"
  using totp_uri_roundtrip [of "\<lparr>totp_secret = [1, 255, 7], totp_digits = 8, totp_period = 60,
      totp_algorithm = Sha512\<rparr>" "lit ''a?b''"] by simp

text \<open>C33. Any stored value that \<open>parse\<close> accepts, however it was written, gives at every moment a
  code of exactly the configured number of decimal digits: no index leaves the HMAC output and
  \<open>10u32.pow(digits)\<close> does not overflow.\<close>

theorem totp_code_well_formed:
  assumes "hmac_lengths X" "parse_totp value = Some cfg"
  shows "\<exists>code. code_at X cfg t = Some code \<and> length code = unat (totp_digits cfg)
    \<and> 1 \<le> length code \<and> length code \<le> 9 \<and> list_all is_ascii_digit code"
proof -
  have wf: "1 \<le> totp_digits cfg" "totp_digits cfg \<le> 9"
    using parse_totp_wf [OF assms(2)] by (simp_all add: totp_wf_def)
  then have "1 \<le> unat (totp_digits cfg)" "unat (totp_digits cfg) \<le> 9"
    by (simp_all add: word_le_nat_alt)
  with hotp_digits [OF assms(1) wf] show ?thesis unfolding code_at_counter by metis
qed

theorem totp_code_well_formed_witness:
  "\<exists>cfg code. parse_totp (to_uri \<lparr>totp_secret = [3], totp_digits = 7, totp_period = 30,
        totp_algorithm = Sha1\<rparr> []) = Some cfg
     \<and> code_at demo_crates cfg 59 = Some code \<and> length code = 7"
proof -
  let ?c = "\<lparr>totp_secret = [3], totp_digits = 7, totp_period = 30, totp_algorithm = Sha1\<rparr>"
  have p: "parse_totp (to_uri ?c []) = Some ?c" by (rule parse_to_uri) simp_all
  from totp_code_well_formed [OF demo_crates_ok(2) p, of 59] p show ?thesis by auto
qed

text \<open>\<open>seconds_remaining\<close> is between one and the period, and it is exactly how long the code
  lasts: until then the counter, and so the code, is unchanged, and at that second the counter is
  the next one (for times that do not overflow the 64-bit clock).\<close>

theorem totp_code_lasts_until_rollover:
  assumes "unat t + unat (seconds_remaining cfg t) < 2 ^ 64"
  shows "1 \<le> unat (seconds_remaining cfg t)
    \<and> unat (seconds_remaining cfg t) \<le> unat (max (totp_period cfg) 1)
    \<and> (\<forall>k < unat (seconds_remaining cfg t). code_at X cfg (t + word_of_nat k) = code_at X cfg t)
    \<and> totp_counter cfg (t + seconds_remaining cfg t) = totp_counter cfg t + 1"
proof (intro conjI allI impI)
  let ?p = "unat (max (totp_period cfg) 1)" and ?r = "unat (seconds_remaining cfg t)"
  note p = period_pos [of cfg] and r = unat_seconds_remaining [of cfg t]
  show "1 \<le> ?r" "?r \<le> ?p" using r mod_less_divisor [OF p, of "unat t"] by simp_all
  have cnt: "unat (totp_counter cfg u) = unat u div ?p" for u
    by (simp add: totp_counter_def unat_div_distrib)
  {
    fix k assume k: "k < ?r"
    then have "unat (t + word_of_nat k) = unat t + k" using assms by (intro unat_add_small) simp
    then have "totp_counter cfg (t + word_of_nat k) = totp_counter cfg t"
      using div_within_period(1) [OF p, of k "unat t"] k r cnt by (simp add: word_unat_eq_iff)
    then show "code_at X cfg (t + word_of_nat k) = code_at X cfg t" by (simp add: code_at_counter)
  }
  have "unat (t + seconds_remaining cfg t) = unat t + ?r"
    using unat_add_small [OF assms] by simp
  then have "unat (totp_counter cfg (t + seconds_remaining cfg t)) = unat t div ?p + 1"
    using div_within_period(2) [OF p, of "unat t"] r cnt by simp
  then have "unat (totp_counter cfg (t + seconds_remaining cfg t)) = unat (totp_counter cfg t) + 1"
    by (simp add: cnt)
  then show "totp_counter cfg (t + seconds_remaining cfg t) = totp_counter cfg t + 1"
    by (rule word_succ_if_unat)
qed

theorem totp_code_lasts_until_rollover_witness:
  "code_at demo_crates \<lparr>totp_secret = [3], totp_digits = 6, totp_period = 30, totp_algorithm = Sha1\<rparr>
     (59 + 0) = code_at demo_crates
       \<lparr>totp_secret = [3], totp_digits = 6, totp_period = 30, totp_algorithm = Sha1\<rparr> 59
   \<and> seconds_remaining \<lparr>totp_secret = [3], totp_digits = 6, totp_period = 30, totp_algorithm = Sha1\<rparr> 59 = 1"
proof -
  let ?c = "\<lparr>totp_secret = [3], totp_digits = 6, totp_period = 30, totp_algorithm = Sha1\<rparr>"
  have r: "seconds_remaining ?c 59 = 1" by (simp add: seconds_remaining_def)
  with totp_code_lasts_until_rollover [of 59 ?c demo_crates] show ?thesis by simp
qed

end
