(* ===== verification/Client.thy ===== *)
theory Client
  imports Agent Paths Totp
begin

text \<open>
  \<open>src/cli/client.rs\<close>: the short-lived processes that talk to the agent. What a verb prints goes to a
  list of output lines. The agent at the other end of the socket is a \<open>peer\<close>: whether it answers, and
  what it sends back and becomes when it is sent bytes. \<open>agent_peer\<close> is the peer that the agent of
  \<open>Agent\<close> is, so the two ends are verified together.
\<close>

record 's peer =
  pe_alive :: "'s \<Rightarrow> bool"
  pe_talk :: "bytes \<Rightarrow> 's \<Rightarrow> bytes \<times> 's"

record cli_env =
  cl_vars :: "rstr \<Rightarrow> rstr option"
  cl_uid :: u32
  cl_crates :: crates
  cl_req :: "request bincode"
  cl_resp :: "response bincode"
  cl_debug :: "response \<Rightarrow> rstr"
  cl_room :: "nat option"
  cl_mkdir :: "rstr \<Rightarrow> rstr + unit"
  cl_chmod :: "rstr \<Rightarrow> rstr + unit"

definition SESSION_VAR :: rstr where
  "SESSION_VAR = lit ''SIMPLE_SECRETS_SESSION''"

definition connect :: "cli_env \<Rightarrow> 's peer \<Rightarrow> 's \<Rightarrow> error + unit" where
  "connect C P s =
     and_then (socket_path (cl_vars C) (cl_uid C)) (\<lambda>_. guard_res (pe_alive P s) (Cli NoAgent))"

definition session_token :: "cli_env \<Rightarrow> error + bytes" where
  "session_token C =
     and_then (ok_or (Cli NoSession) (cl_vars C SESSION_VAR)) (\<lambda>raw.
     map_err (Cli \<circ> BadSessionToken) (b64_decode_nopad (cl_crates C) (trim raw)))"

text \<open>When the request cannot be written completely, the peer sees what was written and then the end of
  the stream.\<close>

definition send_request :: "cli_env \<Rightarrow> 's peer \<Rightarrow> request \<Rightarrow> 's \<Rightarrow> (error + response) \<times> 's" where
  "send_request C P req s =
     (case connect C P s of
        Inl e \<Rightarrow> (Inl e, s)
      | Inr _ \<Rightarrow>
          (case write_msg (cl_req C) req (fresh_writer (cl_room C)) of
             (Inl e, w) \<Rightarrow> (Inl e, snd (pe_talk P (w_out w) s))
           | (Inr _, w) \<Rightarrow>
               (case pe_talk P (w_out w) s of (ans, s') \<Rightarrow> (fst (read_msg (cl_resp C) ans), s'))))"

text \<open>A request that first needs the session token, and what becomes of the response.\<close>

definition with_session ::
  "cli_env \<Rightarrow> 's peer \<Rightarrow> (bytes \<Rightarrow> request) \<Rightarrow> (response \<Rightarrow> error + 'a) \<Rightarrow> 's \<Rightarrow> (error + 'a) \<times> 's" where
  "with_session C P mk k s =
     (case session_token C of
        Inl e \<Rightarrow> (Inl e, s)
      | Inr token \<Rightarrow> (case send_request C P (mk token) s of (r, s') \<Rightarrow> (and_then r k, s')))"

definition fetch_secret :: "cli_env \<Rightarrow> 's peer \<Rightarrow> rstr \<Rightarrow> 's \<Rightarrow> (error + bytes) \<times> 's" where
  "fetch_secret C P name =
     with_session C P (\<lambda>token. ReqGet token name) (\<lambda>resp. case resp of
       RespSecret (Some value) \<Rightarrow> Inr value
     | RespSecret None \<Rightarrow> Inl (Cli (NoSuchSecret name))
     | RespErr e \<Rightarrow> Inl e
     | other \<Rightarrow> Inl (Cli (UnexpectedResponse (cl_debug C other))))"

definition store_secret :: "cli_env \<Rightarrow> 's peer \<Rightarrow> rstr \<Rightarrow> bytes \<Rightarrow> 's \<Rightarrow> (error + unit) \<times> 's" where
  "store_secret C P name value =
     with_session C P (\<lambda>token. ReqPut token name value) (\<lambda>resp. case resp of
       RespOk \<Rightarrow> Inr ()
     | RespErr e \<Rightarrow> Inl e
     | other \<Rightarrow> Inl (Cli (UnexpectedResponse (cl_debug C other))))"

definition list_names :: "cli_env \<Rightarrow> 's peer \<Rightarrow> 's \<Rightarrow> (error + rstr list) \<times> 's" where
  "list_names C P =
     with_session C P ReqList (\<lambda>resp. case resp of
       RespNames names \<Rightarrow> Inr names
     | RespErr e \<Rightarrow> Inl e
     | other \<Rightarrow> Inl (Cli (UnexpectedResponse (cl_debug C other))))"

subsection \<open>Verbs\<close>

text \<open>\<open>get\<close> writes the value and a line feed; \<open>out\<close> is standard output.\<close>

definition get_cmd :: "cli_env \<Rightarrow> 's peer \<Rightarrow> rstr \<Rightarrow> 's \<times> writer \<Rightarrow> (error + unit) \<times> 's \<times> writer" where
  "get_cmd C P name = (\<lambda>(s, out).
     case fetch_secret C P name s of
       (Inl e, s') \<Rightarrow> (Inl e, s', out)
     | (Inr value, s') \<Rightarrow>
         (case write_all value out of
            (Inl e, out1) \<Rightarrow> (Inl (Cli (WriteFailed e)), s', out1)
          | (Inr _, out1) \<Rightarrow>
              (case write_all [10] out1 of
                 (Inl e, out2) \<Rightarrow> (Inl (Cli (WriteFailed e)), s', out2)
               | (Inr _, out2) \<Rightarrow> (Inr (), s', out2))))"

text \<open>One trailing line break is dropped from what was read from standard input.\<close>

definition strip_newline :: "bytes \<Rightarrow> bytes" where
  "strip_newline buf =
     (if buf \<noteq> [] \<and> last buf = 10
      then let buf1 = butlast buf in if buf1 \<noteq> [] \<and> last buf1 = 13 then butlast buf1 else buf1
      else buf)"

definition put_cmd ::
  "cli_env \<Rightarrow> 's peer \<Rightarrow> rstr + bytes \<Rightarrow> rstr \<Rightarrow> rstr option \<Rightarrow> 's \<Rightarrow> (error + unit) \<times> 's" where
  "put_cmd C P stdin name value s =
     (case (case value of
              None \<Rightarrow> map_ok strip_newline (map_err (Cli \<circ> ReadStdinFailed) stdin)
            | Some v \<Rightarrow>
                if v = lit ''-'' then map_ok strip_newline (map_err (Cli \<circ> ReadStdinFailed) stdin)
                else Inr (utf8 v)) of
        Inl e \<Rightarrow> (Inl e, s)
      | Inr bs \<Rightarrow> store_secret C P name bs s)"

text \<open>\<open>seed\<close> is what the entropy source gives to \<open>random_bytes(20)\<close>; \<open>stdin\<close> is \<open>read_to_string\<close>. The QR
  picture on standard error is left out.\<close>

definition otp_add ::
  "cli_env \<Rightarrow> 's peer \<Rightarrow> error + bytes \<Rightarrow> rstr + rstr \<Rightarrow> rstr \<Rightarrow> bool \<Rightarrow> 's
     \<Rightarrow> (error + rstr list) \<times> 's" where
  "otp_add C P seed stdin name generate s =
     (case (if generate
            then map_ok (\<lambda>secret. \<lparr>totp_secret = secret, totp_digits = 6, totp_period = 30,
                                   totp_algorithm = Sha1\<rparr>) seed
            else and_then (map_err (Cli \<circ> ReadStdinFailed) stdin) (\<lambda>input.
                 ok_or (Cli InvalidSeed) (parse_totp (trim input)))) of
        Inl e \<Rightarrow> (Inl e, s)
      | Inr cfg \<Rightarrow>
          let uri = to_uri cfg name in
          (case store_secret C P name (utf8 uri) s of
             (Inl e, s') \<Rightarrow> (Inl e, s')
           | (Inr _, s') \<Rightarrow> (Inr (if generate then [uri] else []), s')))"

definition otp_cmd :: "cli_env \<Rightarrow> 's peer \<Rightarrow> u64 \<Rightarrow> rstr \<Rightarrow> 's \<Rightarrow> (error + rstr) \<times> 's" where
  "otp_cmd C P now name s =
     (case fetch_secret C P name s of
        (Inl e, s') \<Rightarrow> (Inl e, s')
      | (Inr bs, s') \<Rightarrow>
          (case parse_totp (from_utf8_lossy bs) of
             None \<Rightarrow> (Inl (Cli (NotTotp name)), s')
           | Some cfg \<Rightarrow>
               (ok_or (Panic (lit ''index out of range'')) (code_at (cl_crates C) cfg now), s')))"

definition list_cmd :: "cli_env \<Rightarrow> 's peer \<Rightarrow> 's \<Rightarrow> (error + rstr list) \<times> 's" where
  "list_cmd C P s = list_names C P s"

definition status_cmd :: "cli_env \<Rightarrow> 's peer \<Rightarrow> 's \<Rightarrow> (error + rstr list) \<times> 's" where
  "status_cmd C P s =
     (case session_token C of
        Inl _ \<Rightarrow>
          (Inr [if is_ok (connect C P s)
                then lit ''agent:   running (no session token in this shell)''
                else lit ''agent:   not running''], s)
      | Inr token \<Rightarrow>
          (case send_request C P (ReqStatus token) s of
             (Inr (RespStatus unlocked path idle), s') \<Rightarrow>
               (Inr [lit ''agent:   running'', lit ''vault:   '' @ path,
                     lit ''unlocked:'' @ (if unlocked then lit ''true'' else lit ''false''),
                     lit ''idle in: '' @ show_nat (unat idle) @ lit ''s''], s')
           | (Inr (RespErr e), s') \<Rightarrow> (Inl e, s')
           | (Inr other, s') \<Rightarrow> (Inl (Cli (UnexpectedResponse (cl_debug C other))), s')
           | (Inl _, s') \<Rightarrow> (Inr [lit ''agent:   not running''], s')))"

definition signout_cmd :: "cli_env \<Rightarrow> 's peer \<Rightarrow> 's \<Rightarrow> (error + rstr list) \<times> 's" where
  "signout_cmd C P =
     with_session C P ReqSignout (\<lambda>resp. case resp of
       RespOk \<Rightarrow> Inr [lit ''# signed out; run: unset SIMPLE_SECRETS_SESSION'']
     | RespErr e \<Rightarrow> Inl e
     | other \<Rightarrow> Inl (Cli (UnexpectedResponse (cl_debug C other))))"

subsection \<open>Creating the vault and signing in\<close>

text \<open>\<open>pass\<close> and \<open>confirm\<close> are what the two prompts return.\<close>

definition init_cmd ::
  "cli_env \<Rightarrow> manager_env \<Rightarrow> op_env \<Rightarrow> rstr + rstr \<Rightarrow> rstr + rstr \<Rightarrow> fs \<Rightarrow> (error + rstr list) \<times> fs" where
  "init_cmd C M c pass confirm fs =
     (case vault_path (cl_vars C) of
        Inl e \<Rightarrow> (Inl e, fs)
      | Inr vault \<Rightarrow>
          if fs vault \<noteq> None then (Inl (Cli (VaultExists vault)), fs)
          else
            (case (case path_parent vault of
                     None \<Rightarrow> Inr ()
                   | Some parent \<Rightarrow> ensure_private_dir (cl_mkdir C) (cl_chmod C) parent) of
               Inl e \<Rightarrow> (Inl e, fs)
             | Inr _ \<Rightarrow>
                 (case (pass, confirm) of
                    (Inl e, _) \<Rightarrow> (Inl (Cli (CannotReadPassphrase e)), fs)
                  | (Inr _, Inl e) \<Rightarrow> (Inl (Cli (CannotReadPassphrase e)), fs)
                  | (Inr pw, Inr cf) \<Rightarrow>
                      if pw = [] then (Inl (Cli PassphraseEmpty), fs)
                      else if pw \<noteq> cf then (Inl (Cli PassphraseMismatch), fs)
                      else
                        (case mg_create_vault M c vault (utf8 pw) default_argon2_params 0 None (manager_new, fs) of
                           (Inl e, _, fs') \<Rightarrow> (Inl e, fs')
                         | (Inr _, _, fs') \<Rightarrow>
                             (Inr [lit ''created vault at '' @ vault,
                                   lit ''next: eval $(simple-secrets signin)''], fs')))))"

text \<open>What the parent of the agent makes of the first line that the child printed.\<close>

definition read_ready :: "rstr \<Rightarrow> error + rstr list" where
  "read_ready line =
     (let l = trim_end line in
      case strip_prefix (lit ''READY '') l of
        Some token \<Rightarrow> Inr [lit ''export '' @ SESSION_VAR @ lit ''='' @ token]
      | None \<Rightarrow>
          (case strip_prefix (lit ''ERR '') l of
             Some msg \<Rightarrow> Inl (Cli (AgentReported msg))
           | None \<Rightarrow> Inl (Cli (HandshakeFailed l))))"

text \<open>
  \<open>signin\<close>: \<open>child\<close> is the process that is spawned, a function from all of its standard input to what it
  prints and what it becomes. Failures to spawn it and to reach its pipes are failures of the
  operating system and left out.
\<close>

definition handshake :: "rstr \<Rightarrow> rstr \<Rightarrow> rstr" where
  "handshake vault pass = vault @ [rchr 10] @ pass @ [rchr 10]"

definition first_line :: "rstr \<Rightarrow> rstr" where
  "first_line s = (case split_once (rchr 10) s of Some (l, _) \<Rightarrow> l @ [rchr 10] | None \<Rightarrow> s)"

definition signin_cmd ::
  "cli_env \<Rightarrow> 's peer \<Rightarrow> 's \<Rightarrow> fs \<Rightarrow> rstr + rstr \<Rightarrow> (rstr \<Rightarrow> rstr \<times> 'a option)
     \<Rightarrow> (error + rstr list) \<times> 'a option" where
  "signin_cmd C P s fs pass child =
     (case vault_path (cl_vars C) of
        Inl e \<Rightarrow> (Inl e, None)
      | Inr vault \<Rightarrow>
          if fs vault = None then (Inl (Cli (NoVault vault)), None)
          else if is_ok (connect C P s) then (Inl (Cli AgentRunning), None)
          else
            (case pass of
               Inl e \<Rightarrow> (Inl (Cli (CannotReadPassphrase e)), None)
             | Inr pw \<Rightarrow>
                 (case child (handshake vault pw) of
                    (printed, started) \<Rightarrow> (read_ready (first_line printed), started))))"

subsection \<open>Partial frames\<close>

lemma read_truncated:
  assumes "length body \<le> unat MAX_FRAME" "n < 4 + length body"
  shows "\<exists>e. fst (read_msg C (take n (frame body))) = Inl e"
proof (cases "n < 4")
  case True
  then show ?thesis by (simp add: read_msg_def read_exact_def frame_def)
next
  case False
  let ?n = "word_of_nat (length body) :: u32"
  have u: "unat ?n = length body" using assms(1) by (rule frame_len)
  have "take n (frame body) = to_le 4 ?n @ take (n - 4) body" using False by (simp add: frame_def)
  moreover have "\<not> ?n > MAX_FRAME" using assms(1) u by (simp add: word_less_nat_alt not_less)
  moreover have "\<not> length body \<le> n - 4" using assms(2) False by linarith
  ultimately show ?thesis using assms(2) False u by (simp add: read_msg_def read_exact_def)
qed

text \<open>A message that could not be written completely is not a message at the other end.\<close>

lemma write_failed_read:
  assumes "write_msg C m (fresh_writer room) = (Inl e, w)"
  shows "\<exists>e'. fst (read_msg C' (w_out w)) = Inl e'"
proof (cases "\<exists>body. ser C m = Inr body \<and> length body \<le> unat MAX_FRAME")
  case False
  with assms have "w_out w = []"
    by (cases "ser C m") (auto simp: write_msg_def fresh_writer_def not_le split: if_splits)
  then show ?thesis by (simp add: read_msg_def read_exact_def)
next
  case True
  then obtain body where b: "ser C m = Inr body" "length body \<le> unat MAX_FRAME" by blast
  with assms obtain r where r: "room = Some r" "r < 4 + length body"
      "w_out w = take r (frame body)"
    by (cases room; cases "4 \<le> the room")
       (auto simp: write_msg_def fresh_writer_def write_all_def frame_def Let_def split: if_splits)
  with read_truncated [OF b(2) r(2)] show ?thesis by simp
qed

subsection \<open>The agent as the peer\<close>

definition agent_peer :: "agent_env \<Rightarrow> op_env \<Rightarrow> nat option \<Rightarrow> process peer" where
  "agent_peer E c room =
     \<lparr>pe_alive = pr_running,
      pe_talk = (\<lambda>input p.
        case serve_conn E (pr_now p) (Conn c input room) (pr_agent p, pr_fs p) of
          ((out, signout), ag', fs') \<Rightarrow>
            (out, p\<lparr>pr_agent := ag', pr_fs := fs', pr_running := \<not> signout\<rparr>))\<rparr>"

lemma agent_peer_alive [simp]: "pe_alive (agent_peer E c room) = pr_running"
  by (simp add: agent_peer_def)

lemma agent_peer_step:
  "pr_running p \<Longrightarrow> agent_step E p (snd (pe_talk (agent_peer E c room) input p))"
  by (auto simp: agent_peer_def split: prod.splits intro: connection)

lemma request_step:
  "(agent_step E)\<^sup>*\<^sup>* p (snd (send_request C (agent_peer E c room) req p))"
  using agent_peer_step [of p E c room]
  by (auto simp: send_request_def connect_def guard_res_def and_then_def
      split: sum.splits prod.splits if_splits)
     (metis r_into_rtranclp snd_conv)+

text \<open>
  The two ends agree on the encoding, which gives back what it was given; whatever value fits into a
  \<open>Put\<close> fits into the \<open>Secret\<close> that answers a \<open>Get\<close>, and a \<open>Get\<close> is no longer than a \<open>Put\<close>.
\<close>

definition fits :: "'a bincode \<Rightarrow> 'a \<Rightarrow> bool" where
  "fits C m \<longleftrightarrow> (\<exists>b. ser C m = Inr b \<and> length b \<le> unat MAX_FRAME)"

definition wire_ok :: "agent_env \<Rightarrow> bool" where
  "wire_ok E \<longleftrightarrow> codec_ok (a_req E) \<and> codec_ok (a_resp E)
     \<and> (\<forall>t n v. fits (a_req E) (ReqPut t n v)
          \<longrightarrow> fits (a_req E) (ReqGet t n) \<and> fits (a_resp E) (RespSecret (Some v)))"

definition session_ok :: "cli_env \<Rightarrow> agent_env \<Rightarrow> process \<Rightarrow> bool" where
  "session_ok C E p \<longleftrightarrow>
     pr_running p \<and> wire_ok E \<and> cl_req C = a_req E \<and> cl_resp C = a_resp E \<and> cl_room C = None
     \<and> is_ok (socket_path (cl_vars C) (cl_uid C)) \<and> session_token C = Inr (ag_token (pr_agent p))"

lemma fits_write:
  "fits C m \<longleftrightarrow> (\<exists>w. write_msg C m (fresh_writer None) = (Inr (), w))"
proof
  assume "fits C m"
  then show "\<exists>w. write_msg C m (fresh_writer None) = (Inr (), w)"
    using write_msg_fresh by (fastforce simp: fits_def)
next
  assume "\<exists>w. write_msg C m (fresh_writer None) = (Inr (), w)"
  then show "fits C m" by (auto simp: fits_def elim!: write_msg_Inr)
qed

lemma read_written:
  "codec_ok C \<Longrightarrow> write_msg C m (fresh_writer r) = (Inr (), w) \<Longrightarrow> fst (read_msg C (w_out w)) = Inr m"
  using read_write_msg [of C m "fresh_writer r" w] by (auto simp: fresh_writer_def dest: spec [of _ "[]"])

text \<open>One exchange: what the client reads is what \<open>handle\<close> answered, if that could be sent.\<close>

lemma request_agent:
  assumes s: "session_ok C E p" and fit: "fits (a_req E) req"
    and h: "handle E c (pr_now p) req (clock_touch (pr_now p) (pr_agent p), pr_fs p)
      = ((resp, False), ag', fs')"
  shows "send_request C (agent_peer E c None) req p =
    (fst (read_msg (a_resp E) (w_out (snd (write_msg (a_resp E) resp (fresh_writer None))))),
     p\<lparr>pr_agent := ag', pr_fs := fs', pr_running := True\<rparr>)"
proof -
  obtain w where w: "write_msg (a_req E) req (fresh_writer None) = (Inr (), w)"
    using fit by (auto simp: fits_write)
  have "fst (read_msg (a_req E) (w_out w)) = Inr req"
    using s by (intro read_written [OF _ w]) (simp add: session_ok_def wire_ok_def)
  with s w h show ?thesis
    by (auto simp: send_request_def connect_def agent_peer_def serve_conn_def session_ok_def is_ok_iff Let_def)
qed

lemma request_unfit:
  assumes s: "session_ok C E p" and "\<not> fits (a_req E) req"
  shows "send_request C (agent_peer E c None) req p
    = (Inl (projl (fst (write_msg (a_req E) req (fresh_writer None)))),
       p\<lparr>pr_agent := clock_touch (pr_now p) (pr_agent p), pr_running := True\<rparr>)"
proof -
  obtain r w where w: "write_msg (a_req E) req (fresh_writer None) = (r, w)" by force
  then obtain e where e: "write_msg (a_req E) req (fresh_writer None) = (Inl e, w)"
    using assms(2) by (cases r) (auto simp: fits_write)
  then obtain e' where "fst (read_msg (a_req E) (w_out w)) = Inl e'"
    using write_failed_read [OF e, of "a_req E"] by blast
  with s e show ?thesis
    by (auto simp: send_request_def connect_def agent_peer_def serve_conn_def session_ok_def is_ok_iff Let_def)
qed

subsection \<open>The command line is a key-value store\<close>

text \<open>What \<open>get\<close> lets a user see under a name; the name that is not there is an error of its own.\<close>

definition cli_view :: "cli_env \<Rightarrow> 's peer \<Rightarrow> 's \<Rightarrow> rstr \<Rightarrow> error + bytes option" where
  "cli_view C P s n =
     (case fst (fetch_secret C P n s) of
        Inr v \<Rightarrow> Inr (Some v)
      | Inl e \<Rightarrow> if e = Cli (NoSuchSecret n) then Inr None else Inl e)"

definition cli_inv :: "cli_env \<Rightarrow> agent_env \<Rightarrow> bytes \<Rightarrow> process \<Rightarrow> bool" where
  "cli_inv C E pw p \<longleftrightarrow> session_ok C E p
     \<and> mg_inv (a_manager_env E) pw None (ag_manager (pr_agent p), pr_fs p)"

lemma handle_get:
  "ag_token ag = tok \<Longrightarrow> handle E c now (ReqGet tok n) (ag, fs) =
     ((case mg_get_secret (a_manager_env E) (ag_manager ag) n of
         Inr v \<Rightarrow> RespSecret v | Inl e \<Rightarrow> RespErr e, False), ag, fs)"
  by (simp add: handle_def split: sum.splits)

lemma handle_put:
  assumes "ag_token ag = tok"
    and "mg_put_secret (a_manager_env E) c n v (ag_manager ag, fs) = (r, mg', fs')"
  shows "handle E c now (ReqPut tok n v) (ag, fs) =
    ((case r of Inr _ \<Rightarrow> RespOk | Inl e \<Rightarrow> RespErr e, False), ag\<lparr>ag_manager := mg'\<rparr>, fs')"
  using assms by (simp add: handle_def split: sum.splits)

text \<open>What \<open>get\<close> returns depends on the token and on what the manager holds under the name, on nothing
  else.\<close>

lemma fetch_cong:
  assumes "session_ok C E p" "session_ok C E q"
    and "ag_token (pr_agent p) = ag_token (pr_agent q)"
    and "mg_get_secret (a_manager_env E) (ag_manager (pr_agent p)) n
      = mg_get_secret (a_manager_env E) (ag_manager (pr_agent q)) n"
  shows "fst (fetch_secret C (agent_peer E c None) n p) = fst (fetch_secret C (agent_peer E c' None) n q)"
proof (cases "fits (a_req E) (ReqGet (ag_token (pr_agent p)) n)")
  case False
  then show ?thesis
    using assms request_unfit [OF assms(1) False, of c] request_unfit [OF assms(2), of _ c']
    by (simp add: fetch_secret_def with_session_def session_ok_def)
next
  case True
  have h: "handle E c (pr_now p) (ReqGet (ag_token (pr_agent p)) n)
      (clock_touch (pr_now p) (pr_agent p), pr_fs p)
    = ((case mg_get_secret (a_manager_env E) (ag_manager (pr_agent p)) n of
         Inr v \<Rightarrow> RespSecret v | Inl e \<Rightarrow> RespErr e, False), clock_touch (pr_now p) (pr_agent p), pr_fs p)"
    for p c by (subst handle_get) (simp_all add: clock_touch_def)
  show ?thesis
    using assms request_agent [OF assms(1) True h, of c]
      request_agent [OF assms(2) _ h, of c'] True
    by (simp add: fetch_secret_def with_session_def session_ok_def)
qed

lemma fetch_stored:
  assumes s: "session_ok C E p" and fit: "fits (a_req E) (ReqPut (ag_token (pr_agent p)) n v)"
    and g: "mg_get_secret (a_manager_env E) (ag_manager (pr_agent p)) n = Inr (Some v)"
  shows "fst (fetch_secret C (agent_peer E c None) n p) = Inr v"
proof -
  let ?tok = "ag_token (pr_agent p)" and ?ag = "clock_touch (pr_now p) (pr_agent p)"
  have fg: "fits (a_req E) (ReqGet ?tok n)" and fr: "fits (a_resp E) (RespSecret (Some v))"
    using s fit by (auto simp: session_ok_def wire_ok_def)
  have h: "handle E c (pr_now p) (ReqGet ?tok n) (?ag, pr_fs p) = ((RespSecret (Some v), False), ?ag, pr_fs p)"
    using g by (subst handle_get) (simp_all add: clock_touch_def)
  obtain w where w: "write_msg (a_resp E) (RespSecret (Some v)) (fresh_writer None) = (Inr (), w)"
    using fr by (auto simp: fits_write)
  have "fst (read_msg (a_resp E) (w_out w)) = Inr (RespSecret (Some v))"
    using s by (intro read_written [OF _ w]) (simp add: session_ok_def wire_ok_def)
  with request_agent [OF s fg h] w s show ?thesis
    by (simp add: fetch_secret_def with_session_def session_ok_def)
qed

text \<open>One \<open>put\<close> through the agent.\<close>

lemma store_agent:
  assumes s: "session_ok C E p" and st: "store_secret C (agent_peer E c None) n v p = (r, q)"
  shows "\<exists>ag' fs'. q = p\<lparr>pr_agent := ag', pr_fs := fs', pr_running := True\<rparr> \<and> session_ok C E q
    \<and> ag_token ag' = ag_token (pr_agent p) \<and> ag_vault_path ag' = ag_vault_path (pr_agent p)
    \<and> ((ag_manager ag', fs') = (ag_manager (pr_agent p), pr_fs p) \<and> r \<noteq> Inr ()
       \<or> (\<exists>res. mg_put_secret (a_manager_env E) c n v (ag_manager (pr_agent p), pr_fs p)
              = (res, ag_manager ag', fs')
            \<and> (r = Inr () \<longrightarrow> res = Inr () \<and> fits (a_req E) (ReqPut (ag_token (pr_agent p)) n v))))"
proof (cases "fits (a_req E) (ReqPut (ag_token (pr_agent p)) n v)")
  case False
  then show ?thesis
    using st s request_unfit [OF s False, of c]
    by (auto simp: store_secret_def with_session_def session_ok_def clock_touch_def
        intro!: exI [of _ "clock_touch (pr_now p) (pr_agent p)"] exI [of _ "pr_fs p"])
next
  case True
  let ?ag = "clock_touch (pr_now p) (pr_agent p)"
  obtain res mg' fs' where mg: "mg_put_secret (a_manager_env E) c n v (ag_manager (pr_agent p), pr_fs p)
      = (res, mg', fs')"
    by (metis prod.exhaust)
  then have h: "handle E c (pr_now p) (ReqPut (ag_token (pr_agent p)) n v) (?ag, pr_fs p) =
      ((case res of Inr _ \<Rightarrow> RespOk | Inl e \<Rightarrow> RespErr e, False), ?ag\<lparr>ag_manager := mg'\<rparr>, fs')"
    by (intro handle_put) (simp_all add: clock_touch_def)
  note req = request_agent [OF s True h]
  have "res = Inr ()" if "r = Inr ()"
  proof (rule ccontr)
    assume "res \<noteq> Inr ()"
    then obtain e where e: "res = Inl e" by (cases res) auto
    obtain rr w where w: "write_msg (a_resp E) (RespErr e) (fresh_writer None) = (rr, w)" by force
    have "fst (read_msg (a_resp E) (w_out w)) \<noteq> Inr RespOk"
    proof (cases rr)
      case (Inl x)
      with write_failed_read [OF w [unfolded Inl], of "a_resp E"] show ?thesis by auto
    next
      case (Inr u)
      with read_written [of "a_resp E" "RespErr e" None w] w s show ?thesis
        by (simp add: session_ok_def wire_ok_def)
    qed
    with req e w s st that show False
      by (auto simp: store_secret_def with_session_def session_ok_def and_then_def
          split: sum.splits response.splits)
  qed
  with True req s st mg show ?thesis
    by (auto simp: store_secret_def with_session_def session_ok_def clock_touch_def
        intro!: exI [of _ "?ag\<lparr>ag_manager := mg'\<rparr>"] exI [of _ fs'])
qed

interpretation cli: kv_store "\<lambda>c. store_secret C (agent_peer E c None)"
  "\<lambda>p n. cli_view C (agent_peer E demo_op None) p n" "cli_inv C E pw" for C E pw
proof
  fix p q c n v r
  assume inv: "cli_inv C E pw p" and st: "store_secret C (agent_peer E c None) n v p = (r, q)"
  then show "cli_inv C E pw q"
    using store_agent [OF _ st] mgr.put_inv [of "a_manager_env E" pw None]
    by (fastforce simp: cli_inv_def)
next
  fix p q c n v k
  assume inv: "cli_inv C E pw p" and st: "store_secret C (agent_peer E c None) n v p = (Inr (), q)"
  then have s: "session_ok C E p"
    and mi: "mg_inv (a_manager_env E) pw None (ag_manager (pr_agent p), pr_fs p)"
    by (simp_all add: cli_inv_def)
  obtain ag' fs' where q: "q = p\<lparr>pr_agent := ag', pr_fs := fs', pr_running := True\<rparr>" "session_ok C E q"
      "ag_token ag' = ag_token (pr_agent p)"
    and put: "mg_put_secret (a_manager_env E) c n v (ag_manager (pr_agent p), pr_fs p)
        = (Inr (), ag_manager ag', fs')"
    and fit: "fits (a_req E) (ReqPut (ag_token (pr_agent p)) n v)"
    using store_agent [OF s st] by auto
  note get = mgr.put_get [OF mi put]
  show "cli_view C (agent_peer E demo_op None) q k =
      (if k = n then Inr (Some v) else cli_view C (agent_peer E demo_op None) p k)"
  proof (cases "k = n")
    case True
    then show ?thesis
      using fetch_stored [OF q(2), of n v] q fit get [of n] by (simp add: cli_view_def)
  next
    case False
    then have "mg_get_secret (a_manager_env E) (ag_manager (pr_agent q)) k
        = mg_get_secret (a_manager_env E) (ag_manager (pr_agent p)) k"
      using q(1) get [of k] by simp
    from fetch_cong [OF q(2) s _ this, of demo_op demo_op] q(1,3) False show ?thesis
      by (simp add: cli_view_def)
  qed
qed

end
