(* ===== verification/Session.thy ===== *)
theory Session
  imports Client
begin

text \<open>
  The command line and the agent together: from the handshake of \<open>signin\<close> to a value that outlives
  the agent that stored it.
\<close>

subsection \<open>The handshake\<close>

text \<open>What survives the trip through the agent's standard input, which is read line by line.\<close>

definition line_safe :: "rstr \<Rightarrow> bool" where
  "line_safe s \<longleftrightarrow> rchr 10 \<notin> set s \<and> (s = [] \<or> last s \<noteq> rchr 13)"

lemma strip_cr_safe: "line_safe s \<Longrightarrow> strip_cr s = s"
  by (auto simp: line_safe_def strip_cr_def)

lemma lines_handshake:
  assumes "rchr 10 \<notin> set v" "rchr 10 \<notin> set pw"
  shows "lines (handshake v pw) = [strip_cr v, strip_cr pw]"
proof -
  have "split_on (rchr 10) (handshake v pw) = [v, pw, []]"
    using assms by (simp add: handshake_def split_on_append)
  then show ?thesis by (simp add: lines_def)
qed

lemma b64_text:
  assumes "b64_ok X" "b \<noteq> []"
  shows "b64_encode_nopad X b \<noteq> []" "\<forall>c\<in>set (b64_encode_nopad X b). \<not> is_whitespace c"
    "rchr 10 \<notin> set (b64_encode_nopad X b)"
proof -
  show "b64_encode_nopad X b \<noteq> []" using b64_okD(5) [OF assms(1)] assms(2) by blast
  show ws: "\<forall>c\<in>set (b64_encode_nopad X b). \<not> is_whitespace c"
    using b64_okD(4) [OF assms(1), of b] is_b64_char_not(1) by (auto simp: list_all_iff)
  have "is_whitespace (rchr 10)" by (simp add: is_whitespace_def)
  with ws show "rchr 10 \<notin> set (b64_encode_nopad X b)" by blast
qed

lemma trim_no_ws: "s \<noteq> [] \<Longrightarrow> \<forall>c\<in>set s. \<not> is_whitespace c \<Longrightarrow> trim s = s"
  by (rule trim_id) simp_all

lemma read_ready_token:
  assumes "b64_ok X" "b \<noteq> []"
  shows "read_ready (first_line (lit ''READY '' @ b64_encode_nopad X b @ [rchr 10]))
    = Inr [lit ''export '' @ SESSION_VAR @ lit ''='' @ b64_encode_nopad X b]"
proof -
  let ?t = "b64_encode_nopad X b" and ?r = "lit ''READY ''"
  note t = b64_text [OF assms]
  have "rchr 10 \<notin> set (?r @ ?t)" using t(3) by (simp add: ascii_def)
  then have "first_line (?r @ ?t @ [rchr 10]) = ?r @ ?t @ [rchr 10]"
    using split_once_append [of "rchr 10" "?r @ ?t" "[]"] by (simp add: first_line_def del: lit_simps)
  moreover have "\<not> is_whitespace (last ?t)" using t(1,2) last_in_set by blast
  then have "trim_end (?r @ ?t @ [rchr 10]) = ?r @ ?t"
    using t(1) by (simp add: trim_end_def is_whitespace_def dropWhile_hd_id hd_rev del: lit_simps)
  ultimately show ?thesis by (simp add: read_ready_def del: lit_simps)
qed

lemma session_token_set:
  assumes "b64_ok (cl_crates C)" "b \<noteq> []"
  shows "session_token (C\<lparr>cl_vars := (cl_vars C)(SESSION_VAR \<mapsto> b64_encode_nopad (cl_crates C) b)\<rparr>) = Inr b"
  using b64_text [OF assms] b64_okD(2) [OF assms(1), of b] by (simp add: session_token_def trim_no_ws)

lemma random_bytes_length: "random_bytes M k n = Inr bs \<Longrightarrow> length bs = n"
  by (auto simp: random_bytes_def res_simps)

text \<open>An agent that reports ready has opened the vault with what the handshake carried.\<close>

lemma run_agent_ready:
  assumes "run_agent E c (handshake v pw) sock now (mg, fs) = (printed, Some ag)"
    and "line_safe v" "line_safe pw"
  obtains mg1 where "mg_open_vault (a_manager_env E) c v (utf8 pw) None (mg, fs) = (Inr (), mg1, fs)"
    "ag_manager ag = mg1\<lparr>mg_calls := Suc (mg_calls mg1)\<rparr>" "ag_vault_path ag = v"
    "length (ag_token ag) = 32" "ag_idle ag = DEFAULT_IDLE"
    "printed = lit ''READY '' @ b64_encode_nopad (v_crates (m_vault_env (a_manager_env E))) (ag_token ag) @ [rchr 10]"
proof -
  have "lines (handshake v pw) = [v, pw]"
    using assms(2,3) lines_handshake [of v pw] by (simp add: strip_cr_safe) (simp add: line_safe_def)
  with assms(1) that show thesis
    by (auto simp: run_agent_def Let_def agent_new_def mg_open_vault_def dest: random_bytes_length
        split: if_splits sum.splits prod.splits simp del: lit_simps)
qed

lemma run_agent_starts:
  assumes "mg_open_vault (a_manager_env E) c v (utf8 pw) None (mg, fs) = (Inr (), mg1, fs)"
    and "random_bytes (a_manager_env E) (mg_calls mg1) 32 = Inr tok"
    and "line_safe v" "line_safe pw" "v \<noteq> []"
  shows "run_agent E c (handshake v pw) (Inr ()) now (mg, fs)
    = (lit ''READY '' @ b64_encode_nopad (v_crates (m_vault_env (a_manager_env E))) tok @ [rchr 10],
       Some (agent_new (mg1\<lparr>mg_calls := Suc (mg_calls mg1)\<rparr>) tok v DEFAULT_IDLE now))"
proof -
  have "lines (handshake v pw) = [v, pw]"
    using assms(3,4) lines_handshake [of v pw] by (simp add: strip_cr_safe) (simp add: line_safe_def)
  with assms show ?thesis by (simp add: run_agent_def Let_def del: lit_simps)
qed

lemma open_inv:
  assumes "mg_open_vault M c v pw hw (mg, fs) = (Inr (), mg1, fs1)" "env_good (m_vault_env M)"
  obtains st where "mg_vault mg1 = Some st" "st_path st = v" "mg_inv M pw hw (mg1, fs1)"
proof -
  obtain st where "ls_open (m_vault_env M) c v pw hw fs = Inr st" "mg1 = mg\<lparr>mg_vault := Some st\<rparr>"
    using assms(1) by (auto simp: mg_open_vault_def split: sum.splits)
  with ls_open_keyed [OF this(1)] assms(2) that show thesis by (simp add: mg_inv_def ls_inv_def)
qed

text \<open>A successful put leaves a file from which the manager can be opened as it is.\<close>

lemma mg_put_durable:
  assumes inv: "mg_inv M pw hw (mg, fs)" and st: "mg_vault mg = Some st" "st_path st = v"
    and put: "mg_put_secret M c n x (mg, fs) = (Inr (), mg', fs')"
    and small: "\<And>bs. fs' v = Some bs \<Longrightarrow> length bs \<le> MAX_VAULT_LEN" and c': "read_fault c' = None"
  shows "\<exists>mg3. mg_open_vault M c' v pw hw (mg0, fs') = (Inr (), mg3, fs') \<and> mg_calls mg3 = mg_calls mg0
    \<and> (\<forall>k. mg_get_secret M mg3 k = (if k = n then Inr (Some x) else mg_get_secret M mg k))"
proof -
  note get = mgr.put_get [OF inv put] and inv' = mgr.put_inv [OF inv put]
  obtain st' where st': "mg_vault mg' = Some st'"
      "ls_put_secret (m_vault_env M) c n x (st, fs) = (Inr (), st', fs')"
    using put st(1) by (auto simp: mg_put_secret_def split: prod.splits)
  then have sv: "ls_save (m_vault_env M) c st' fs = (Inr (), fs')" "st_path st' = v"
    using st(2) by (auto elim: ls_put_secret_cases)
  obtain bs where bs: "vault_bytes (m_vault_env M) c st' = Inr bs" "fs' v = Some bs"
    using ls_save_written [OF sv(1)] sv(2) by auto
  have "ls_inv (m_vault_env M) pw hw (st', fs')" using inv' st'(1) by (simp add: mg_inv_def)
  then obtain st3 where op: "ls_open (m_vault_env M) c' v pw hw fs' = Inr st3" "same_vault st3 st'"
    using ls_open_vault_bytes [of "m_vault_env M" pw hw st' c bs fs' c'] sv(2) bs small c'
    by (auto simp: ls_inv_def)
  have "mg_get_secret M (mg0\<lparr>mg_vault := Some st3\<rparr>) k = mg_get_secret M mg' k" for k
    using st'(1) same_vault_get [OF op(2)] by (simp add: mg_get_secret_def)
  with op(1) get show ?thesis by (simp add: mg_open_vault_def)
qed

subsection \<open>An instance\<close>

definition demo_token :: bytes where
  "demo_token = replicate 32 7"

definition demo_session_env :: agent_env where
  "demo_session_env = \<lparr>a_manager_env = demo_manager_env,
     a_req = table_codec [ReqPut demo_token (lit ''k'') [5], ReqGet demo_token (lit ''k'')],
     a_resp = table_codec [RespOk, RespSecret (Some [5]), RespSecret None],
     a_show = (\<lambda>e. [])\<rparr>"

definition demo_cli :: cli_env where
  "demo_cli = \<lparr>cl_vars = [lit ''SIMPLE_SECRETS_VAULT'' \<mapsto> lit ''v'', SESSION_VAR \<mapsto> demo_b64_encode demo_token],
     cl_uid = 1000, cl_crates = demo_crates,
     cl_req = a_req demo_session_env, cl_resp = a_resp demo_session_env, cl_debug = (\<lambda>r. []),
     cl_room = None, cl_mkdir = (\<lambda>_. Inr ()), cl_chmod = (\<lambda>_. Inr ())\<rparr>"

definition demo_files :: fs where
  "demo_files = [lit ''v'' \<mapsto> demo_bytes 0]"

definition demo_session :: process where
  "demo_session = process_start (agent_new (manager_new\<lparr>mg_vault := Some demo_store, mg_calls := 1\<rparr>)
     demo_token (lit ''v'') DEFAULT_IDLE 0) demo_files 0"

lemma position_ex: "m \<in> set us \<Longrightarrow> \<exists>i < length us. position m us = Some i"
  by (induction us) auto

lemma fits_table: "length vs \<le> 256 \<Longrightarrow> fits (table_codec vs) m \<longleftrightarrow> m \<in> set vs"
proof -
  assume l: "length vs \<le> 256"
  have "position m vs = Some i \<Longrightarrow> m \<in> set vs" for i
    using position_Some [of m vs i] by auto
  then show ?thesis
    using l position_ex [of m vs]
    by (fastforce simp: fits_def table_codec_def unat_MAX_FRAME split: option.splits)
qed

lemma demo_wire: "wire_ok demo_session_env"
  by (auto simp: wire_ok_def demo_session_env_def table_codec_ok fits_table)

lemma demo_socket: "is_ok (socket_path (cl_vars demo_cli) 1000)"
proof -
  have n: "show_nat 1000 = [rchr 49, rchr 48, rchr 48, rchr 48]"
    by (simp add: show_nat.simps digit_char_def)
  have "env_lookup (cl_vars demo_cli) (lit ''XDG_RUNTIME_DIR'') = None"
    "env_lookup (cl_vars demo_cli) (lit ''TMPDIR'') = None"
    by (simp_all add: env_lookup_def demo_cli_def SESSION_VAR_def ascii_def)
  then have "socket_path (cl_vars demo_cli) 1000 = Inr (path_join (path_join (lit ''/tmp'') (lit ''simple-secrets-'' @ show_nat 1000)) (lit ''agent.sock''))"
    by (simp add: socket_path_def resolve_socket_path_def MAX_SOCKET_PATH_LEN_def path_join_def n
        ascii_def encode_utf8_ascii Let_def)
  then show ?thesis by simp
qed

lemma demo_session_inv: "cli_inv demo_cli demo_session_env [1] demo_session"
proof -
  have tok: "session_token demo_cli = Inr demo_token"
    using session_token_set [of demo_cli demo_token] demo_crates_ok
    by (simp add: demo_cli_def demo_crates_simps demo_token_def)
  have "session_ok demo_cli demo_session_env demo_session"
    using demo_wire demo_socket tok
    by (simp add: session_ok_def demo_session_def process_start_def clock_touch_def agent_new_def demo_cli_def)
  moreover have "mg_inv demo_manager_env [1] None (manager_new\<lparr>mg_vault := Some demo_store, mg_calls := 1\<rparr>, demo_files)"
    using demo_inv(1) by (simp add: mg_inv_def demo_manager_env_def)
  ultimately show ?thesis
    by (simp add: cli_inv_def demo_session_def process_start_def clock_touch_def agent_new_def
        demo_session_env_def)
qed

lemma demo_handle:
  assumes "ag_token ag = demo_token" "mg_vault (ag_manager ag) = Some demo_store"
  shows "handle demo_session_env demo_op now (ReqPut demo_token (lit ''k'') [5]) (ag, demo_files)
    = ((RespOk, False), ag\<lparr>ag_manager := (ag_manager ag)\<lparr>mg_vault := Some demo_full\<rparr>\<rparr>,
       demo_files(lit ''v'' \<mapsto> demo_bytes 1, tmp_path (lit ''v'') := None))"
proof -
  have "mg_put_secret demo_manager_env demo_op (lit ''k'') [5] (ag_manager ag, demo_files)
      = (Inr (), (ag_manager ag)\<lparr>mg_vault := Some demo_full\<rparr>, demo_files(lit ''v'' \<mapsto> demo_bytes 1, tmp_path (lit ''v'') := None))"
    using demo_put [of demo_files] assms(2) by (simp add: mg_put_secret_def demo_manager_env_def del: lit_simps fun_upd_apply)
  from handle_put [OF assms(1), of demo_session_env demo_op "lit ''k''" "[5]" demo_files] this show ?thesis
    by (simp add: demo_session_env_def)
qed

lemma demo_store_cmd:
  "\<exists>q. store_secret demo_cli (agent_peer demo_session_env demo_op None) (lit ''k'') [5] demo_session = (Inr (), q)
    \<and> pr_fs q = demo_files(lit ''v'' \<mapsto> demo_bytes 1, tmp_path (lit ''v'') := None)"
proof -
  let ?E = demo_session_env and ?p = demo_session
  let ?ag = "pr_agent ?p" and ?fs' = "demo_files(lit ''v'' \<mapsto> demo_bytes 1, tmp_path (lit ''v'') := None)"
  have s: "session_ok demo_cli ?E ?p" using demo_session_inv by (simp add: cli_inv_def)
  have fit: "fits (a_req ?E) (ReqPut demo_token (lit ''k'') [5])" "fits (a_resp ?E) RespOk"
    by (simp_all add: demo_session_env_def fits_table)
  have tok: "ag_token ?ag = demo_token" "clock_touch (pr_now ?p) ?ag = ?ag" "pr_fs ?p = demo_files"
    by (simp_all add: demo_session_def process_start_def clock_touch_def agent_new_def)
  have h: "handle ?E demo_op (pr_now ?p) (ReqPut demo_token (lit ''k'') [5]) (clock_touch (pr_now ?p) ?ag, pr_fs ?p)
      = ((RespOk, False), ?ag\<lparr>ag_manager := (ag_manager ?ag)\<lparr>mg_vault := Some demo_full\<rparr>\<rparr>, ?fs')"
    using demo_handle [of ?ag "pr_now ?p"] tok
    by (simp add: demo_session_def process_start_def clock_touch_def agent_new_def del: lit_simps fun_upd_apply)
  obtain w where w: "write_msg (a_resp ?E) RespOk (fresh_writer None) = (Inr (), w)"
    using fit(2) by (auto simp: fits_write)
  have "fst (read_msg (a_resp ?E) (w_out w)) = Inr RespOk"
    using demo_wire by (intro read_written [OF _ w]) (simp add: wire_ok_def)
  with request_agent [OF s fit(1) h] w s tok(1) show ?thesis
    by (simp add: store_secret_def with_session_def session_ok_def del: fun_upd_apply)
qed

lemma demo_open:
  "fs (lit ''v'') = Some (demo_bytes 0) \<Longrightarrow>
     mg_open_vault demo_manager_env demo_op (lit ''v'') [1] None (manager_new, fs)
       = (Inr (), manager_new\<lparr>mg_vault := Some demo_store\<rparr>, fs)"
proof -
  assume f: "fs (lit ''v'') = Some (demo_bytes 0)"
  obtain st' where o: "ls_open demo_vault demo_op (lit ''v'') [1] None fs = Inr st'" "same_vault st' demo_store"
    using ls_open_vault_bytes [of demo_vault "[1]" None demo_store demo_op "demo_bytes 0" fs demo_op]
      demo_env_good demo_keyed(1) demo_vault_bytes(1) demo_bytes_small [of 0] f
    by (auto simp: demo_store_def entries_wf_def simp del: lit_simps)
  then have "st' = demo_store"
    by (cases st') (simp add: same_vault_def demo_store_def)
  with o(1) show ?thesis by (simp add: mg_open_vault_def demo_manager_env_def)
qed

subsection \<open>Properties\<close>

text \<open>Signing in: with the right passphrase, \<open>signin\<close> ends with an agent that holds the unlocked
  vault and with an \<open>export\<close> line, and once the user's shell has evaluated that line, the commands of
  that shell present exactly the token the agent expects. Both sides of the handshake are the code's:
  the passphrase goes through the agent's standard input (so it must be one line that does not end
  in a carriage return) and the token comes back through base64, trimming and the environment.\<close>

theorem signin_establishes_session:
  assumes "b64_ok (cl_crates C)" "v_crates (m_vault_env (a_manager_env E)) = cl_crates C"
    and "vault_path (cl_vars C) = Inr v" "fs v \<noteq> None" "\<not> is_ok (connect C P s)"
    and "line_safe v" "line_safe pw"
    and "mg_open_vault (a_manager_env E) c v (utf8 pw) None (mg, fs) = (Inr (), mg1, fs)"
    and "random_bytes (a_manager_env E) (mg_calls mg1) 32 = Inr tok"
  shows "\<exists>ag. signin_cmd C P s fs (Inr pw) (\<lambda>input. run_agent E c input (Inr ()) now (mg, fs))
      = (Inr [lit ''export '' @ SESSION_VAR @ lit ''='' @ b64_encode_nopad (cl_crates C) tok], Some ag)
    \<and> mg_is_unlocked (ag_manager ag) \<and> ag_token ag = tok
    \<and> session_token (C\<lparr>cl_vars := (cl_vars C)(SESSION_VAR \<mapsto> b64_encode_nopad (cl_crates C) tok)\<rparr>)
      = Inr (ag_token ag)"
proof -
  have tok: "tok \<noteq> []" using random_bytes_length [OF assms(9)] by auto
  note run = run_agent_starts [OF assms(8,9,6,7) vault_path_nonempty [OF assms(3)], of now]
  have "mg_is_unlocked mg1"
    using assms(8) by (auto simp: mg_open_vault_def mg_is_unlocked_def split: sum.splits)
  then show ?thesis
    using assms(1-5) run read_ready_token [OF assms(1) tok] session_token_set [OF assms(1) tok]
    by (auto simp: signin_cmd_def agent_new_def mg_is_unlocked_def simp del: lit_simps)
qed

theorem signin_establishes_session_witness:
  "\<exists>ag. signin_cmd demo_cli (agent_peer demo_session_env demo_op None) (demo_session\<lparr>pr_running := False\<rparr>)
      demo_files (Inr [rchr 1])
      (\<lambda>input. run_agent demo_session_env demo_op input (Inr ()) 0 (manager_new, demo_files))
    = (Inr [lit ''export '' @ SESSION_VAR @ lit ''='' @ demo_b64_encode demo_token], Some ag)
    \<and> ag_token ag = demo_token"
proof -
  have vp: "vault_path (cl_vars demo_cli) = Inr (lit ''v'')"
    by (simp add: vault_path_def resolve_vault_path_def env_lookup_def demo_cli_def SESSION_VAR_def)
  have safe: "line_safe (lit ''v'')" "line_safe [rchr 1]" "utf8 [rchr 1] = [1]"
    by (simp_all add: line_safe_def ascii_def encode_utf8_ascii as_u8_def)
  have rb: "random_bytes demo_manager_env k 32 = Inr demo_token" for k
    by (simp add: random_bytes_def demo_manager_env_def demo_token_def)
  have nc: "\<not> is_ok (connect demo_cli (agent_peer demo_session_env demo_op None) (demo_session\<lparr>pr_running := False\<rparr>))"
    by (cases "socket_path (cl_vars demo_cli) (cl_uid demo_cli)") (simp_all add: connect_def)
  have E: "cl_crates demo_cli = demo_crates" "a_manager_env demo_session_env = demo_manager_env"
    "v_crates (m_vault_env demo_manager_env) = demo_crates" "b64_encode_nopad demo_crates = demo_b64_encode"
    by (simp_all add: demo_cli_def demo_session_env_def demo_manager_env_def demo_vault_def demo_crates_simps)
  have f: "demo_files (lit ''v'') = Some (demo_bytes 0)" by (simp add: demo_files_def del: lit_simps)
  show ?thesis
    using signin_establishes_session [OF _ _ vp _ nc safe(1,2), of demo_session_env demo_files demo_op
        manager_new "manager_new\<lparr>mg_vault := Some demo_store\<rparr>" demo_token 0]
      demo_crates_ok(6) safe(3) demo_open [of demo_files, OF f] rb f
    by (auto simp: E simp del: lit_simps)
qed

text \<open>Put and get through the agent: in a session whose token the agent accepts, once \<open>put\<close> has
  reported success, \<open>get\<close> of that name returns exactly the stored value and \<open>get\<close> of any other name
  returns what it returned before, across both processes, the framing and the encrypted store.\<close>

theorem cli_put_then_get:
  assumes "cli_inv C E pw p"
    and "store_secret C (agent_peer E c None) n v p = (Inr (), q)"
  shows "fst (fetch_secret C (agent_peer E demo_op None) n q) = Inr v
    \<and> (\<forall>k. k \<noteq> n \<longrightarrow>
          cli_view C (agent_peer E demo_op None) q k = cli_view C (agent_peer E demo_op None) p k)
    \<and> cli_inv C E pw q"
proof (intro conjI allI impI)
  show "cli_view C (agent_peer E demo_op None) q k = cli_view C (agent_peer E demo_op None) p k"
    if "k \<noteq> n" for k
    using cli.put_get [OF assms] that by simp
  show "cli_inv C E pw q" by (rule cli.put_inv [OF assms])
  show "fst (fetch_secret C (agent_peer E demo_op None) n q) = Inr v"
    using cli.put_get [OF assms, of n] by (auto simp: cli_view_def split: sum.splits if_splits)
qed

theorem cli_put_then_get_witness:
  "\<exists>q. store_secret demo_cli (agent_peer demo_session_env demo_op None) (lit ''k'') [5] demo_session = (Inr (), q)
    \<and> fst (fetch_secret demo_cli (agent_peer demo_session_env demo_op None) (lit ''k'') q) = Inr [5]"
proof -
  obtain q where q: "store_secret demo_cli (agent_peer demo_session_env demo_op None) (lit ''k'') [5] demo_session
      = (Inr (), q)"
    using demo_store_cmd by blast
  with cli_put_then_get [OF demo_session_inv q] show ?thesis by blast
qed

text \<open>C7. A stored secret outlives the agent: sign in, \<open>put\<close> a value with success, and let the agent end
  in any way (sign-out, idle exit, or a kill). An agent that a later \<open>signin\<close> starts on the same
  vault with the same passphrase reports ready, and its manager holds the value under that name and
  under every other name what the first agent held (as long as the file is within the 32 MiB that
  \<open>open\<close> accepts).\<close>

theorem cli_secret_outlives_agent:
  assumes "env_good (m_vault_env (a_manager_env E))" "line_safe v" "line_safe pw" "v \<noteq> []"
    and "run_agent E c1 (handshake v pw) sock now (mg0, fs0) = (printed, Some ag)"
    and "session_ok C E (process_start ag fs0 now)"
    and "store_secret C (agent_peer E c2 None) n x (process_start ag fs0 now) = (Inr (), p)"
    and "\<forall>bs. pr_fs p v = Some bs \<longrightarrow> length bs \<le> MAX_VAULT_LEN" "read_fault c3 = None"
    and "is_ok (random_bytes (a_manager_env E) 0 32)"
  shows "\<exists>line ag'. run_agent E c3 (handshake v pw) (Inr ()) now' (manager_new, pr_fs p) = (line, Some ag')
    \<and> strip_prefix (lit ''READY '') line \<noteq> None
    \<and> (\<forall>k. mg_get_secret (a_manager_env E) (ag_manager ag') k
         = (if k = n then Inr (Some x) else mg_get_secret (a_manager_env E) (ag_manager ag) k))"
proof -
  let ?M = "a_manager_env E"
  obtain mg1 where mg1: "mg_open_vault ?M c1 v (utf8 pw) None (mg0, fs0) = (Inr (), mg1, fs0)"
      "ag_manager ag = mg1\<lparr>mg_calls := Suc (mg_calls mg1)\<rparr>"
    using run_agent_ready [OF assms(5,2,3)] by metis
  obtain st where st: "mg_vault mg1 = Some st" "st_path st = v" "mg_inv ?M (utf8 pw) None (mg1, fs0)"
    using open_inv [OF mg1(1) assms(1)] by metis
  then have inv: "mg_inv ?M (utf8 pw) None (ag_manager ag, fs0)" "mg_vault (ag_manager ag) = Some st"
    using mg1(2) by (simp_all add: mg_inv_def)
  obtain mg2 where ag2: "mg_put_secret ?M c2 n x (ag_manager ag, fs0) = (Inr (), mg2, pr_fs p)"
    using store_agent [OF assms(6,7)] by (auto simp: process_start_def clock_touch_def)
  obtain mg3 where mg3: "mg_open_vault ?M c3 v (utf8 pw) None (manager_new, pr_fs p) = (Inr (), mg3, pr_fs p)"
      "mg_calls mg3 = 0"
      "\<And>k. mg_get_secret ?M mg3 k = (if k = n then Inr (Some x) else mg_get_secret ?M (ag_manager ag) k)"
    using mg_put_durable [OF inv st(2) ag2 _ assms(9), of manager_new] assms(8)
    by (auto simp: manager_new_def)
  obtain tok where "random_bytes ?M (mg_calls mg3) 32 = Inr tok" using assms(10) mg3(2) is_ok_iff by metis
  from run_agent_starts [OF mg3(1) this assms(2,3,4), of now'] mg3(3) show ?thesis
    by (simp add: agent_new_def mg_get_secret_def del: lit_simps)
qed

theorem cli_secret_outlives_agent_witness:
  "\<exists>p line ag'. store_secret demo_cli (agent_peer demo_session_env demo_op None) (lit ''k'') [5] demo_session
      = (Inr (), p)
    \<and> run_agent demo_session_env demo_op (handshake (lit ''v'') [rchr 1]) (Inr ()) 9 (manager_new, pr_fs p)
      = (line, Some ag')
    \<and> mg_get_secret demo_manager_env (ag_manager ag') (lit ''k'') = Inr (Some [5])"
proof -
  let ?E = demo_session_env
  have E: "a_manager_env ?E = demo_manager_env" "m_vault_env demo_manager_env = demo_vault"
    by (simp_all add: demo_session_env_def demo_manager_env_def)
  have safe: "line_safe (lit ''v'')" "line_safe [rchr 1]" "utf8 [rchr 1] = [1]" "lit ''v'' \<noteq> []"
    by (simp_all add: line_safe_def ascii_def encode_utf8_ascii as_u8_def)
  have rb: "random_bytes demo_manager_env k 32 = Inr demo_token" for k
    by (simp add: random_bytes_def demo_manager_env_def demo_token_def)
  let ?ag = "agent_new (manager_new\<lparr>mg_vault := Some demo_store, mg_calls := 1\<rparr>) demo_token (lit ''v'') DEFAULT_IDLE 0"
  have f: "demo_files (lit ''v'') = Some (demo_bytes 0)" by (simp add: demo_files_def del: lit_simps)
  have run: "\<exists>line. run_agent ?E demo_op (handshake (lit ''v'') [rchr 1]) (Inr ()) 0 (manager_new, demo_files)
      = (line, Some ?ag)"
    using run_agent_starts [of ?E demo_op "lit ''v''" "[rchr 1]" manager_new demo_files _ demo_token 0]
      demo_open [of demo_files, OF f] rb safe
    by (auto simp: E manager_new_def simp del: lit_simps)
  then obtain line where run: "run_agent ?E demo_op (handshake (lit ''v'') [rchr 1]) (Inr ()) 0 (manager_new, demo_files)
      = (line, Some ?ag)" by blast
  have s: "session_ok demo_cli ?E (process_start ?ag demo_files 0)"
    using demo_session_inv by (simp add: cli_inv_def demo_session_def)
  obtain q where q: "store_secret demo_cli (agent_peer ?E demo_op None) (lit ''k'') [5] (process_start ?ag demo_files 0)
      = (Inr (), q)" "pr_fs q = demo_files(lit ''v'' \<mapsto> demo_bytes 1, tmp_path (lit ''v'') := None)"
    using demo_store_cmd by (auto simp: demo_session_def)
  have small: "\<forall>bs. pr_fs q (lit ''v'') = Some bs \<longrightarrow> length bs \<le> MAX_VAULT_LEN"
    using demo_bytes_small by (auto simp: q(2) simp del: lit_simps)
  have good: "env_good (m_vault_env (a_manager_env ?E))" by (simp add: E demo_env_good)
  have ok: "is_ok (random_bytes (a_manager_env ?E) 0 32)" by (simp add: E rb)
  from cli_secret_outlives_agent [OF good safe(1,2,4) run s q(1) small demo_op_simps(2) ok, of 9] q(1)
  show ?thesis by (auto simp: E demo_session_def simp del: lit_simps)
qed

end
