(* ===== verification/CliSharing.thy ===== *)
theory CliSharing
  imports Session
begin

text \<open>
  \<open>src/cli/sharing.rs\<close>: \<open>share\<close> and \<open>reconstruct\<close>, threshold splitting of a stored secret into
  self-contained share tokens, one file per custodian. The tokens are an instance of
  \<open>threshold_scheme\<close> on top of the one of \<open>multisig\<close>.
\<close>

definition SHARE_PREFIX :: rstr where
  "SHARE_PREFIX = lit ''simple-secrets-share-v1:''"

record share_file =
  sf_threshold :: nat
  sf_total :: nat
  sf_index :: nat
  sf_secret_name :: rstr
  sf_blob :: bytes
  sf_key :: bytes
  sf_commitments :: "bytes list"

text \<open>What one dealing draws: keys from the manager's source, coefficients and nonces inside the
  crates.\<close>

record share_env =
  se_manager_env :: manager_env
  se_codec :: "share_file bincode"
  se_rng :: "byte stream"
  se_nonces :: "nat \<Rightarrow> bytes"

definition se_crates :: "share_env \<Rightarrow> crates" where
  "se_crates \<Gamma> = v_crates (m_vault_env (se_manager_env \<Gamma>))"

definition encode_share :: "share_env \<Rightarrow> share_file \<Rightarrow> error + rstr" where
  "encode_share \<Gamma> sf =
     and_then (map_err (Token \<circ> TokenSerialize) (ser (se_codec \<Gamma>) sf)) (\<lambda>body.
     Inr (SHARE_PREFIX @ b64_encode_nopad (se_crates \<Gamma>) body))"

definition decode_share :: "share_env \<Rightarrow> rstr \<Rightarrow> error + share_file" where
  "decode_share \<Gamma> text =
     and_then (ok_or (Token NotAToken) (strip_prefix SHARE_PREFIX (trim text))) (\<lambda>body.
     and_then (map_err (Token \<circ> TokenUndecodable) (b64_decode_nopad (se_crates \<Gamma>) body)) (\<lambda>bs.
     map_err (Token \<circ> TokenUnparsable) (de (se_codec \<Gamma>) bs)))"

definition split_into_tokens :: "share_env \<Rightarrow> bytes \<Rightarrow> nat \<Rightarrow> nat \<Rightarrow> rstr \<Rightarrow> error + rstr list" where
  "split_into_tokens \<Gamma> secret threshold_arg shares name =
     (if shares < 2 then Inl (Token NeedTwoTokens)
      else if shares > 255 then Inl (Token TooManyTokens)
      else if threshold_arg < 1 \<or> threshold_arg > shares then Inl (Token (TokenThreshold shares threshold_arg))
      else
        and_then (collect_res (\<lambda>i. random_bytes (se_manager_env \<Gamma>) i 32) [0..<shares]) (\<lambda>keys.
        and_then (mg_share_secret (se_manager_env \<Gamma>) (se_rng \<Gamma>) (se_nonces \<Gamma>) secret threshold_arg shares keys) (\<lambda>split.
        collect_res (\<lambda>i. encode_share \<Gamma>
            \<lparr>sf_threshold = threshold split, sf_total = total split, sf_index = i + 1,
             sf_secret_name = name, sf_blob = blobs split ! i, sf_key = keys ! i,
             sf_commitments = commitments split\<rparr>) [0..<shares])))"

text \<open>The loop over the parsed files; \<open>seen\<close> is the set of indices already met.\<close>

fun check_files :: "bytes list \<Rightarrow> nat set \<Rightarrow> share_file list \<Rightarrow> error + unit" where
  "check_files cs seen [] = Inr ()"
| "check_files cs seen (sf # parsed) =
     (if sf_commitments sf \<noteq> cs then Inl (Token InconsistentTokens)
      else if sf_index sf \<in> seen then Inl (Token (DuplicateToken (sf_index sf)))
      else check_files cs (insert (sf_index sf) seen) parsed)"

definition reconstruct_from_tokens :: "share_env \<Rightarrow> rstr list \<Rightarrow> error + bytes" where
  "reconstruct_from_tokens \<Gamma> tokens =
     (if tokens = [] then Inl (Token NoTokens)
      else
        and_then (collect_res (decode_share \<Gamma>) tokens) (\<lambda>parsed.
        let threshold_wanted = sf_threshold (parsed ! 0); cs = sf_commitments (parsed ! 0) in
        and_then (check_files cs {} parsed) (\<lambda>_.
        if length parsed < threshold_wanted then Inl (Token (TooFewTokens threshold_wanted (length parsed)))
        else mg_reconstruct_secret (se_manager_env \<Gamma>) (map sf_blob parsed) (map sf_key parsed) cs)))"

definition safe_char :: "rchar \<Rightarrow> rchar" where
  "safe_char c =
     (if c \<in> set (lit ''/'' @ [rchr 92] @ lit '':*?'' @ [rchr 34] @ lit ''<>|'') then ascii CHR ''_''
      else if is_control c then ascii CHR ''_''
      else c)"

definition safe_stem :: "rstr \<Rightarrow> rstr" where
  "safe_stem name =
     (let s = map safe_char name in
      if s = [] \<or> s = lit ''.'' \<or> s = lit ''..'' then lit ''share'' else s)"

subsection \<open>The commands\<close>

text \<open>
  Opening the i-th file with \<open>create_new\<close> fails if there is one, and may fail for a reason of the
  operating system; writing may stop after some bytes. \<open>io\<close> says which.
\<close>

record share_io =
  si_mkdir :: "rstr \<Rightarrow> rstr + unit"
  si_open :: "nat \<Rightarrow> rstr option"
  si_write :: "nat \<Rightarrow> (nat \<times> rstr) option"

definition token_path :: "rstr \<Rightarrow> rstr \<Rightarrow> nat \<Rightarrow> rstr" where
  "token_path out stem i = path_join out (stem @ lit ''.share'' @ show_nat (i + 1) @ lit ''.txt'')"

fun write_tokens :: "share_io \<Rightarrow> rstr \<Rightarrow> rstr \<Rightarrow> (nat \<times> rstr) list \<Rightarrow> fs \<Rightarrow> (error + rstr list) \<times> fs" where
  "write_tokens io out stem [] fs = (Inr [], fs)"
| "write_tokens io out stem ((i, token) # tokens) fs =
     (let path = token_path out stem i in
      case si_open io i of
        Some e \<Rightarrow> (Inl (Cli (WriteFileFailed path e)), fs)
      | None \<Rightarrow>
          if fs path \<noteq> None then (Inl (Cli (WriteFileFailed path (lit ''File exists''))), fs)
          else
            (case si_write io i of
               Some (k, e) \<Rightarrow> (Inl (Cli (WriteFileFailed path e)), fs(path \<mapsto> take k (utf8 token)))
             | None \<Rightarrow>
                 (case write_tokens io out stem tokens (fs(path \<mapsto> utf8 token)) of
                    (r, fs') \<Rightarrow> (map_ok ((#) path) r, fs'))))"

definition share_cmd ::
  "cli_env \<Rightarrow> 's peer \<Rightarrow> share_env \<Rightarrow> share_io \<Rightarrow> rstr \<Rightarrow> nat \<Rightarrow> nat \<Rightarrow> rstr \<Rightarrow> 's \<times> fs
     \<Rightarrow> (error + rstr list) \<times> 's \<times> fs" where
  "share_cmd C P \<Gamma> io name threshold_arg shares out = (\<lambda>(s, fs).
     case fetch_secret C P name s of
       (Inl e, s') \<Rightarrow> (Inl e, s', fs)
     | (Inr secret, s') \<Rightarrow>
         (case split_into_tokens \<Gamma> secret threshold_arg shares name of
            Inl e \<Rightarrow> (Inl e, s', fs)
          | Inr tokens \<Rightarrow>
              (case si_mkdir io out of
                 Inl e \<Rightarrow> (Inl (Cli (CannotCreateDir out e)), s', fs)
               | Inr _ \<Rightarrow>
                   (case write_tokens io out (safe_stem name) (enumerate 0 tokens) fs of
                      (r, fs') \<Rightarrow> (r, s', fs')))))"

definition read_to_string :: "fs \<Rightarrow> rstr \<Rightarrow> rstr + rstr" where
  "read_to_string fs path =
     (case fs path of
        None \<Rightarrow> Inl (lit ''No such file or directory'')
      | Some bs \<Rightarrow> ok_or (lit ''stream did not contain valid UTF-8'') (from_utf8 bs))"

definition reconstruct_cmd ::
  "cli_env \<Rightarrow> 's peer \<Rightarrow> share_env \<Rightarrow> rstr list \<Rightarrow> rstr option \<Rightarrow> fs \<Rightarrow> 's \<times> writer
     \<Rightarrow> (error + unit) \<times> 's \<times> writer" where
  "reconstruct_cmd C P \<Gamma> files into fs = (\<lambda>(s, out).
     if files = [] then (Inl (Token NoTokenFiles), s, out)
     else
       case and_then (collect_res (\<lambda>p. map_err (\<lambda>e. Cli (ReadFileFailed p e)) (read_to_string fs p)) files)
              (reconstruct_from_tokens \<Gamma>) of
         Inl e \<Rightarrow> (Inl e, s, out)
       | Inr secret \<Rightarrow>
           (case into of
              Some name \<Rightarrow> (case store_secret C P name secret s of (r, s') \<Rightarrow> (r, s', out))
            | None \<Rightarrow>
                (case write_all secret out of
                   (Inl e, out1) \<Rightarrow> (Inl (Cli (WriteFailed e)), s, out1)
                 | (Inr _, out1) \<Rightarrow>
                     (case write_all [10] out1 of
                        (Inl e, out2) \<Rightarrow> (Inl (Cli (WriteFailed e)), s, out2)
                      | (Inr _, out2) \<Rightarrow> (Inr (), s, out2)))))"

subsection \<open>Tokens\<close>

definition share_law :: "share_env \<Rightarrow> bool" where
  "share_law \<Gamma> \<longleftrightarrow> aead_ok (se_crates \<Gamma>) \<and> digest_lengths (se_crates \<Gamma>) \<and> b64_ok (se_crates \<Gamma>)
     \<and> codec_ok (se_codec \<Gamma>)"

lemma encoded_token:
  assumes "b64_ok (se_crates \<Gamma>)" "encode_share \<Gamma> sf = Inr tok"
  shows "trim tok = tok"
proof -
  obtain body where tok: "tok = SHARE_PREFIX @ b64_encode_nopad (se_crates \<Gamma>) body"
    using assms(2) by (auto simp: encode_share_def res_simps)
  have "\<not> is_whitespace c" if "c \<in> set tok" for c
    using that b64_okD(4) [OF assms(1), of body] is_b64_char_not(1)
    by (auto simp: tok list_all_iff SHARE_PREFIX_def is_whitespace_def ascii_def)
  moreover have "tok \<noteq> []" by (simp add: tok SHARE_PREFIX_def)
  ultimately show ?thesis by (intro trim_id) simp_all
qed

lemma decode_encoded:
  assumes "share_law \<Gamma>" "encode_share \<Gamma> sf = Inr (trim text)"
  shows "decode_share \<Gamma> text = Inr sf"
proof -
  obtain body where "ser (se_codec \<Gamma>) sf = Inr body"
      "trim text = SHARE_PREFIX @ b64_encode_nopad (se_crates \<Gamma>) body"
    using assms(2) by (auto simp: encode_share_def res_simps)
  with assms(1) show ?thesis
    by (simp add: decode_share_def share_law_def b64_okD codec_okD)
qed

text \<open>What a successful split has dealt.\<close>

definition token_file :: "rstr \<Rightarrow> bytes list \<Rightarrow> split_result \<Rightarrow> nat \<Rightarrow> share_file" where
  "token_file name keys r i =
     \<lparr>sf_threshold = threshold r, sf_total = total r, sf_index = i + 1, sf_secret_name = name,
      sf_blob = blobs r ! i, sf_key = keys ! i, sf_commitments = commitments r\<rparr>"

lemma split_into_tokens_parts:
  assumes "split_into_tokens \<Gamma> s m n name = Inr toks"
  obtains keys r where
    "split_secret (se_crates \<Gamma>) (se_rng \<Gamma>) (se_nonces \<Gamma>) s m n keys = Inr r"
    "length toks = n" "2 \<le> m" "m \<le> n" "threshold r = m"
    "\<And>i. i < n \<Longrightarrow> encode_share \<Gamma> (token_file name keys r i) = Inr (toks ! i)"
proof -
  obtain keys r where r: "split_secret (se_crates \<Gamma>) (se_rng \<Gamma>) (se_nonces \<Gamma>) s m n keys = Inr r"
    and enc: "collect_res (\<lambda>i. encode_share \<Gamma> (token_file name keys r i)) [0..<n] = Inr toks"
    using assms
    by (auto simp: split_into_tokens_def mg_share_secret_def se_crates_def token_file_def res_simps
        split: if_splits)
  obtain shares where sh: "shamir_split (s @ secret_tag (se_crates \<Gamma>) s) m n (se_rng \<Gamma>) = Inr shares"
      "threshold r = m"
    using split_secret_parts [OF r] by metis
  show thesis
  proof (rule that [OF r _ _ _ sh(2)])
    show "length toks = n" using collect_res_length [OF enc] by simp
    show "2 \<le> m" "m \<le> n" using shamir_split_shape [OF sh(1)] by blast+
    fix i assume "i < n"
    then show "encode_share \<Gamma> (token_file name keys r i) = Inr (toks ! i)"
      using collect_res_nth [OF enc, of i] by simp
  qed
qed

lemma check_files_Inr_iff:
  "check_files cs seen parsed = Inr () \<longleftrightarrow>
     (\<forall>sf\<in>set parsed. sf_commitments sf = cs) \<and> distinct (map sf_index parsed)
     \<and> seen \<inter> sf_index ` set parsed = {}"
  by (induction parsed arbitrary: seen) auto

lemma tokens_positions:
  assumes law: "share_law \<Gamma>" and sp: "split_into_tokens \<Gamma> s m n name = Inr toks"
    and "is": "distinct is" "\<forall>i\<in>set is. i < n" "m \<le> length is"
    and texts: "map trim texts = map (\<lambda>i. toks ! i) is"
  shows "reconstruct_from_tokens \<Gamma> texts = Inr s"
proof -
  obtain keys r where r: "split_secret (se_crates \<Gamma>) (se_rng \<Gamma>) (se_nonces \<Gamma>) s m n keys = Inr r"
    and len: "length toks = n" "2 \<le> m" "threshold r = m"
    and enc: "\<And>i. i < n \<Longrightarrow> encode_share \<Gamma> (token_file name keys r i) = Inr (toks ! i)"
    using split_into_tokens_parts [OF sp] by metis
  let ?files = "map (token_file name keys r) is"
  have lt: "length texts = length is" using arg_cong [OF texts, of length] by simp
  have "decode_share \<Gamma> (texts ! j) = Inr (?files ! j)" if "j < length texts" for j
  proof -
    have "trim (texts ! j) = toks ! (is ! j)" using arg_cong [OF texts, of "\<lambda>xs. xs ! j"] that lt by simp
    moreover have "is ! j < n" using that lt "is"(2) by simp
    ultimately show ?thesis using decode_encoded [OF law] enc that lt by simp
  qed
  then have "list_all2 (\<lambda>x y. decode_share \<Gamma> x = Inr y) texts ?files"
    using lt by (simp add: list_all2_conv_all_nth)
  then have dec: "collect_res (decode_share \<Gamma>) texts = Inr ?files" by (simp only: collect_res_Inr_iff)
  have ne: "is \<noteq> []" using "is"(3) len(2) by auto
  then have hd: "?files ! 0 = token_file name keys r (is ! 0)" by (cases "is") simp_all
  have "distinct (map sf_index ?files)"
    using "is"(1) by (simp add: token_file_def comp_def distinct_map inj_on_def)
  then have "check_files (commitments r) {} ?files = Inr ()"
    by (auto simp: check_files_Inr_iff token_file_def comp_def)
  moreover have "map sf_blob ?files = map (\<lambda>i. blobs r ! i) is" "map sf_key ?files = map (\<lambda>i. keys ! i) is"
    by (simp_all add: token_file_def)
  moreover have "reconstruct_secret (se_crates \<Gamma>) (map (\<lambda>i. blobs r ! i) is) (map (\<lambda>i. keys ! i) is)
      (commitments r) = Inr s"
    using law by (intro multisig_quorum [OF _ _ r "is"]) (simp_all add: share_law_def)
  moreover have "texts \<noteq> []" using ne lt by auto
  ultimately show ?thesis
    using dec hd "is"(3) len(3)
    by (simp add: reconstruct_from_tokens_def mg_reconstruct_secret_def se_crates_def token_file_def
        del: map_map)
qed

lemma tokens_trimmed:
  assumes "share_law \<Gamma>" "split_into_tokens \<Gamma> s m n name = Inr toks" "tok \<in> set toks"
  shows "trim tok = tok"
proof -
  obtain keys r where len: "length toks = n"
    and enc: "\<And>i. i < n \<Longrightarrow> encode_share \<Gamma> (token_file name keys r i) = Inr (toks ! i)"
    using split_into_tokens_parts [OF assms(2)] by metis
  then obtain i where "i < n" "tok = toks ! i" using assms(3) by (metis in_set_conv_nth)
  with enc show ?thesis using assms(1) by (auto simp: share_law_def intro: encoded_token)
qed

lemma tokens_distinct:
  assumes "share_law \<Gamma>" "split_into_tokens \<Gamma> s m n name = Inr toks"
  shows "distinct toks"
proof -
  obtain keys r where len: "length toks = n"
    and enc: "\<And>i. i < n \<Longrightarrow> encode_share \<Gamma> (token_file name keys r i) = Inr (toks ! i)"
    using split_into_tokens_parts [OF assms(2)] by metis
  have "trim (toks ! i) = toks ! i" if "i < n" for i
    using tokens_trimmed [OF assms] len that by simp
  then have dec: "decode_share \<Gamma> (toks ! i) = Inr (token_file name keys r i)" if "i < n" for i
    using decode_encoded [OF assms(1)] enc that by simp
  have "toks ! i \<noteq> toks ! j" if "i < n" "j < n" "i \<noteq> j" for i j
    using dec [of i] dec [of j] that by (auto simp: token_file_def)
  then show ?thesis using len by (simp add: distinct_conv_nth)
qed

interpretation token_scheme: threshold_scheme
  "\<lambda>(\<Gamma>, name) s m n. split_into_tokens \<Gamma> s m n name" "\<lambda>(\<Gamma>, name). reconstruct_from_tokens \<Gamma>"
  "\<lambda>(\<Gamma>, name). share_law \<Gamma>"
proof
  fix \<Gamma>n :: "share_env \<times> rstr" and s m n toks sub
  obtain \<Gamma> name where \<Gamma>n: "\<Gamma>n = (\<Gamma>, name)" by force
  assume "case \<Gamma>n of (\<Gamma>, name) \<Rightarrow> share_law \<Gamma>"
    and "(case \<Gamma>n of (\<Gamma>, name) \<Rightarrow> \<lambda>s m n. split_into_tokens \<Gamma> s m n name) s m n = Inr toks"
  then have law: "share_law \<Gamma>" and sp: "split_into_tokens \<Gamma> s m n name = Inr toks"
    by (simp_all add: \<Gamma>n)
  show len: "length toks = n" and "2 \<le> m \<and> m \<le> n" using split_into_tokens_parts [OF sp] by metis+
  show "distinct toks" by (rule tokens_distinct [OF law sp])
  assume sub: "set sub \<subseteq> set toks" "distinct sub" "m \<le> length sub"
  have "\<forall>t\<in>set sub. \<exists>i<n. t = toks ! i" using sub(1) len by (metis in_set_conv_nth subsetD)
  then obtain f where f: "\<And>t. t \<in> set sub \<Longrightarrow> f t < n \<and> t = toks ! f t" by metis
  have "inj_on f (set sub)" by (rule inj_onI) (metis f)
  moreover have "map trim sub = sub"
    using tokens_trimmed [OF law sp] sub(1) by (auto intro!: map_idI)
  moreover have "map (\<lambda>i. toks ! i) (map f sub) = sub" using f by (auto intro!: map_idI)
  ultimately have "reconstruct_from_tokens \<Gamma> sub = Inr s"
    using tokens_positions [OF law sp, of "map f sub" sub] f sub by (auto simp: distinct_map)
  then show "(case \<Gamma>n of (\<Gamma>, name) \<Rightarrow> reconstruct_from_tokens \<Gamma>) sub = Inr s" by (simp add: \<Gamma>n)
qed

subsection \<open>Files\<close>

lemma write_tokens_keeps:
  "write_tokens io out stem its fs = (r, fs') \<Longrightarrow> fs p = Some b \<Longrightarrow> fs' p = Some b"
proof (induction its arbitrary: fs r)
  case Nil
  then show ?case by simp
next
  case (Cons it its)
  obtain i t where it: "it = (i, t)" by force
  let ?path = "token_path out stem i"
  show ?case
  proof (cases "si_open io i = None \<and> fs ?path = None \<and> si_write io i = None")
    case True
    with Cons.prems it obtain r' where "write_tokens io out stem its (fs(?path \<mapsto> utf8 t)) = (r', fs')"
      by (auto simp: Let_def split: prod.splits)
    with Cons.IH [OF this] True Cons.prems(2) show ?thesis by (cases "p = ?path") auto
  next
    case False
    with Cons.prems it show ?thesis by (auto simp: Let_def split: option.splits if_splits)
  qed
qed

lemma write_tokens_ok:
  "write_tokens io out stem its fs = (Inr paths, fs') \<Longrightarrow>
     paths = map (\<lambda>(i, t). token_path out stem i) its
     \<and> list_all (\<lambda>(i, t). fs' (token_path out stem i) = Some (utf8 t)) its"
proof (induction its arbitrary: fs paths)
  case Nil
  then show ?case by simp
next
  case (Cons it its)
  obtain i t where it: "it = (i, t)" by force
  with Cons.prems obtain ps where
      w: "write_tokens io out stem its (fs(token_path out stem i \<mapsto> utf8 t)) = (Inr ps, fs')"
      "paths = token_path out stem i # ps"
    by (auto simp: Let_def res_simps split: option.splits prod.splits if_splits)
  from Cons.IH [OF w(1)] write_tokens_keeps [OF w(1), of "token_path out stem i" "utf8 t"] w(2) it
  show ?case by simp
qed

text \<open>Reading the written files back gives the tokens.\<close>

lemma read_written_tokens:
  assumes "write_tokens io out stem (enumerate 0 toks) fs = (Inr paths, fs')"
  shows "length paths = length toks"
    and "i < length toks \<Longrightarrow> read_to_string fs' (paths ! i) = Inr (toks ! i)"
proof -
  have p: "paths = map (\<lambda>(i, t). token_path out stem i) (enumerate 0 toks)"
    and a: "list_all (\<lambda>(i, t). fs' (token_path out stem i) = Some (utf8 t)) (enumerate 0 toks)"
    using write_tokens_ok [OF assms] by blast+
  show "length paths = length toks" by (simp add: p)
  assume i: "i < length toks"
  then have "(i, toks ! i) \<in> set (enumerate 0 toks)" by (simp add: in_set_enumerate_eq)
  with a have "fs' (token_path out stem i) = Some (utf8 (toks ! i))" by (auto simp: list_all_iff)
  with i show "read_to_string fs' (paths ! i) = Inr (toks ! i)"
    by (simp add: p nth_enumerate_eq read_to_string_def)
qed

lemma share_cmd_parts:
  assumes "share_cmd C P \<Gamma> io name m n out (s, fs) = (Inr paths, s', fs')"
  obtains secret toks where "fetch_secret C P name s = (Inr secret, s')"
    "split_into_tokens \<Gamma> secret m n name = Inr toks"
    "write_tokens io out (safe_stem name) (enumerate 0 toks) fs = (Inr paths, fs')"
  using assms by (auto simp: share_cmd_def split: prod.splits sum.splits)

text \<open>Any quorum of the written files, in any order, reads back as a quorum of the tokens.\<close>

lemma quorum_of_files:
  assumes law: "share_law \<Gamma>" and sp: "split_into_tokens \<Gamma> secret m n name = Inr toks"
    and w: "write_tokens io out stem (enumerate 0 toks) fs = (Inr paths, fs')"
    and sub: "set sub \<subseteq> set paths" "distinct sub" "m \<le> length sub"
  shows "and_then (collect_res (\<lambda>p. map_err (\<lambda>e. Cli (ReadFileFailed p e)) (read_to_string fs' p)) sub)
    (reconstruct_from_tokens \<Gamma>) = Inr secret"
proof -
  have len: "length toks = n" using split_into_tokens_parts [OF sp] by metis
  note rd = read_written_tokens [OF w]
  have "\<forall>p\<in>set sub. \<exists>i<n. p = paths ! i" using sub(1) rd(1) len by (metis in_set_conv_nth subsetD)
  then obtain f where f: "\<And>p. p \<in> set sub \<Longrightarrow> f p < n \<and> p = paths ! f p" by metis
  have "inj_on f (set sub)" by (rule inj_onI) (metis f)
  then have "is": "distinct (map f sub)" "\<forall>i\<in>set (map f sub). i < n" "m \<le> length (map f sub)"
    using sub f by (auto simp: distinct_map)
  have "read_to_string fs' p = Inr (toks ! f p)" if "p \<in> set sub" for p
    using rd(2) [of "f p"] f [OF that] len by simp
  then have "collect_res (\<lambda>p. map_err (\<lambda>e. Cli (ReadFileFailed p e)) (read_to_string fs' p)) sub
      = Inr (map (\<lambda>p. toks ! f p) sub)"
    by (intro collect_res_map_Inr) simp
  moreover have "map trim (map (\<lambda>p. toks ! f p) sub) = map (\<lambda>i. toks ! i) (map f sub)"
    using tokens_trimmed [OF law sp] f len by (auto simp: comp_def)
  ultimately show ?thesis using tokens_positions [OF law sp "is"] by simp
qed

subsection \<open>An instance\<close>

definition demo_keys :: "bytes list" where
  "demo_keys = replicate 3 demo_token"

definition demo_split :: split_result where
  "demo_split = projr (split_secret demo_crates (sconst 5) (\<lambda>_. []) [5] 2 3 demo_keys)"

definition demo_share_env :: share_env where
  "demo_share_env = \<lparr>se_manager_env = demo_manager_env,
     se_codec = table_codec (map (token_file (lit ''k'') demo_keys demo_split) [0..<3]),
     se_rng = sconst 5, se_nonces = (\<lambda>_. [])\<rparr>"

definition demo_peer :: "unit peer" where
  "demo_peer = \<lparr>pe_alive = (\<lambda>_. True), pe_talk = (\<lambda>_ s. (frame [1], s))\<rparr>"

definition demo_share_io :: share_io where
  "demo_share_io = \<lparr>si_mkdir = (\<lambda>_. Inr ()), si_open = (\<lambda>_. None), si_write = (\<lambda>_. None)\<rparr>"

lemma demo_share_select:
  "se_manager_env demo_share_env = demo_manager_env" "se_rng demo_share_env = sconst 5"
  "se_nonces demo_share_env = (\<lambda>_. [])"
  by (simp_all only: demo_share_env_def share_env.select_convs)

lemma demo_share_crates: "se_crates demo_share_env = demo_crates"
  by (simp add: se_crates_def demo_share_env_def demo_manager_env_def demo_vault_def)

lemma demo_share_law: "share_law demo_share_env"
  using demo_crates_ok
  by (simp add: share_law_def demo_share_crates) (simp add: demo_share_env_def table_codec_ok)

lemma demo_split_Inr: "split_secret demo_crates (sconst 5) (\<lambda>_. []) [5] 2 3 demo_keys = Inr demo_split"
proof -
  have "\<exists>r. split_secret demo_crates (sconst 5) (\<lambda>_. []) [5] 2 3 demo_keys = Inr r"
    by (rule split_secret_ok) (simp_all add: demo_crates_ok demo_crates_simps demo_keys_def)
  then show ?thesis by (auto simp: demo_split_def)
qed

lemma demo_tokens: "\<exists>toks. split_into_tokens demo_share_env [5] 2 3 (lit ''k'') = Inr toks \<and> length toks = 3"
proof -
  have "random_bytes demo_manager_env i 32 = Inr demo_token" for i
    by (simp add: random_bytes_def demo_manager_env_def demo_token_def)
  then have k: "collect_res (\<lambda>i. random_bytes demo_manager_env i 32) [0..<3] = Inr demo_keys"
    by (simp add: demo_keys_def upt_rec numeral_3_eq_3)
  let ?tf = "token_file (lit ''k'') demo_keys demo_split"
  have "\<exists>b. ser (table_codec (map ?tf [0..<3])) (?tf i) = Inr b" if "i < 3" for i
    using position_ex [of "?tf i" "map ?tf [0..<3]"] that by (auto simp: table_codec_def)
  then have ser: "\<exists>b. ser (se_codec demo_share_env) (?tf i) = Inr b" if "i < 3" for i
    using that by (simp only: demo_share_env_def share_env.select_convs)
  have ok: "is_ok (encode_share demo_share_env (?tf i))" if i: "i < 3" for i
  proof -
    obtain b where "ser (se_codec demo_share_env) (?tf i) = Inr b" using ser [OF i] by blast
    then show ?thesis by (simp only: encode_share_def map_err_simps and_then_simps is_ok_simps)
  qed
  have g: "encode_share demo_share_env (?tf i) = Inr (projr (encode_share demo_share_env (?tf i)))"
    if "i < 3" for i
    using ok [of i] that by (cases "encode_share demo_share_env (?tf i)") auto
  have "collect_res (\<lambda>i. encode_share demo_share_env (?tf i)) [0..<3] 
      = Inr (map (\<lambda>i. projr (encode_share demo_share_env (?tf i))) [0..<3])"
    by (rule collect_res_map_Inr) (rule g, simp)
  then have "split_into_tokens demo_share_env [5] 2 3 (lit ''k'')
      = Inr (map (\<lambda>i. projr (encode_share demo_share_env (?tf i))) [0..<3])"
    using k demo_split_Inr demo_share_crates
    by (simp only: split_into_tokens_def mg_share_secret_def demo_share_select se_crates_def
        token_file_def and_then_simps) simp
  then show ?thesis by simp
qed

lemma demo_fetch: "fetch_secret demo_cli demo_peer (lit ''k'') () = (Inr [5], ())"
proof -
  have tok: "session_token demo_cli = Inr demo_token"
    using demo_session_inv by (simp add: cli_inv_def session_ok_def demo_session_def process_start_def
        clock_touch_def agent_new_def)
  have w: "write_msg (cl_req demo_cli) (ReqGet demo_token (lit ''k'')) (fresh_writer None)
      = (Inr (), \<lparr>w_out = frame [1], w_room = None\<rparr>)"
    by (rule write_msg_fresh) (simp_all add: demo_cli_def demo_session_env_def table_codec_def as_u8_def
        unat_MAX_FRAME)
  have r: "fst (read_msg (cl_resp demo_cli) (frame [1])) = Inr (RespSecret (Some [5]))"
    using read_frame [of "[1]" "cl_resp demo_cli" "[]"]
    by (simp add: demo_cli_def demo_session_env_def table_codec_def unat_MAX_FRAME)
  have "connect demo_cli demo_peer () = Inr ()"
    using demo_socket by (auto simp: connect_def demo_peer_def demo_cli_def is_ok_iff)
  then show ?thesis
    using tok w r
    by (simp add: fetch_secret_def with_session_def send_request_def demo_peer_def demo_cli_def)
qed

lemma demo_share_cmd:
  "\<exists>paths s' fs'. share_cmd demo_cli demo_peer demo_share_env demo_share_io (lit ''k'') 2 3 (lit ''d'') ((), Map.empty)
     = (Inr paths, s', fs') \<and> length paths = 3 \<and> distinct paths"
proof -
  obtain toks where toks: "split_into_tokens demo_share_env [5] 2 3 (lit ''k'') = Inr toks" "length toks = 3"
    using demo_tokens by blast
  then obtain a b c where abc: "toks = [a, b, c]" by (auto simp: length_Suc_conv numeral_3_eq_3)
  have n: "show_nat (Suc 0) = [rchr 49]" "show_nat 2 = [rchr 50]" "show_nat 3 = [rchr 51]"
    by (simp_all add: show_nat.simps digit_char_def)
  have stem: "safe_stem (lit ''k'') = [rchr 107]"
    by (simp add: safe_stem_def safe_char_def is_control_def ascii_def)
  have w: "\<exists>paths fs'. write_tokens demo_share_io (lit ''d'') [rchr 107] [(0, a), (1, b), (2, c)] Map.empty = (Inr paths, fs')
      \<and> length paths = 3 \<and> distinct paths"
    by (simp add: demo_share_io_def token_path_def path_join_def n numeral_2_eq_2 [symmetric]
        numeral_3_eq_3 [symmetric] ascii_def Let_def)
  have "si_mkdir demo_share_io (lit ''d'') = Inr ()" by (simp add: demo_share_io_def)
  then show ?thesis
    using demo_fetch toks(1) abc stem w
    by (auto simp: share_cmd_def numeral_2_eq_2 simp del: write_tokens.simps lit_simps)
qed

subsection \<open>Properties\<close>

text \<open>C5. Share and reconstruct through the file system: when \<open>share\<close> has reported success, any
  \<open>threshold\<close> or more of the files it wrote, in any order, are enough for \<open>reconstruct\<close> to print
  exactly the secret that the agent held, offline; and no file that was there before is touched.\<close>

theorem share_files_recover_secret:
  assumes "share_law \<Gamma>" "share_cmd C P \<Gamma> io name m n out (s, fs) = (Inr paths, s', fs')"
    and "set sub \<subseteq> set paths" "distinct sub" "m \<le> length sub"
  shows "\<exists>secret. fst (fetch_secret C P name s) = Inr secret
    \<and> reconstruct_cmd C Q \<Gamma> sub None fs' (t, fresh_writer None)
      = (Inr (), t, \<lparr>w_out = secret @ [10], w_room = None\<rparr>)
    \<and> (\<forall>p b. fs p = Some b \<longrightarrow> fs' p = Some b)"
proof -
  obtain secret toks where parts: "fetch_secret C P name s = (Inr secret, s')"
    "split_into_tokens \<Gamma> secret m n name = Inr toks"
    "write_tokens io out (safe_stem name) (enumerate 0 toks) fs = (Inr paths, fs')"
    using share_cmd_parts [OF assms(2)] by metis
  have "2 \<le> m" using split_into_tokens_parts [OF parts(2)] by metis
  then have "sub \<noteq> []" using assms(5) by auto
  with quorum_of_files [OF assms(1) parts(2,3) assms(3-5)]
  have "reconstruct_cmd C Q \<Gamma> sub None fs' (t, fresh_writer None)
      = (Inr (), t, \<lparr>w_out = secret @ [10], w_room = None\<rparr>)"
    by (simp add: reconstruct_cmd_def write_all_def fresh_writer_def)
  with parts(1) write_tokens_keeps [OF parts(3)] show ?thesis by auto
qed

theorem share_files_recover_secret_witness:
  "\<exists>paths s' fs' secret. share_cmd demo_cli demo_peer demo_share_env demo_share_io (lit ''k'') 2 3 (lit ''d'')
      ((), Map.empty) = (Inr paths, s', fs')
    \<and> reconstruct_cmd demo_cli demo_peer demo_share_env [paths ! 2, paths ! 0] None fs' ((), fresh_writer None)
      = (Inr (), (), \<lparr>w_out = secret @ [10], w_room = None\<rparr>)"
proof -
  obtain paths s' fs' where c: "share_cmd demo_cli demo_peer demo_share_env demo_share_io (lit ''k'') 2 3 (lit ''d'')
      ((), Map.empty) = (Inr paths, s', fs')" and p: "length paths = 3" "distinct paths"
    using demo_share_cmd by blast
  then obtain a b d where "paths = [a, b, d]" by (auto simp: length_Suc_conv numeral_3_eq_3)
  with p have sub: "set [paths ! 2, paths ! 0] \<subseteq> set paths" "distinct [paths ! 2, paths ! 0]"
    "2 \<le> length [paths ! 2, paths ! 0]"
    by (auto simp: numeral_2_eq_2)
  from share_files_recover_secret [OF demo_share_law c sub, of demo_peer "()"] c show ?thesis by blast
qed

text \<open>C29. What \<open>reconstruct\<close> insists on: a successful reconstruction had at least one token, every token
  decoded, all carried the same commitments and different indices, and there were at least as many
  as the threshold of the first one; any other input is an error.\<close>

theorem reconstruct_refuses_unfit_tokens:
  assumes "reconstruct_from_tokens \<Gamma> tokens = Inr secret"
  shows "tokens \<noteq> [] \<and> (\<exists>parsed. list_all2 (\<lambda>t sf. decode_share \<Gamma> t = Inr sf) tokens parsed
    \<and> list_all (\<lambda>sf. sf_commitments sf = sf_commitments (hd parsed)) parsed
    \<and> distinct (map sf_index parsed) \<and> sf_threshold (hd parsed) \<le> length tokens)"
proof -
  obtain parsed where p: "tokens \<noteq> []" "collect_res (decode_share \<Gamma>) tokens = Inr parsed"
    "check_files (sf_commitments (parsed ! 0)) {} parsed = Inr ()"
    "\<not> length parsed < sf_threshold (parsed ! 0)"
    using assms by (auto simp: reconstruct_from_tokens_def Let_def res_simps split: if_splits)
  have "length parsed = length tokens" using collect_res_length [OF p(2)] .
  moreover from this have "parsed ! 0 = hd parsed" using p(1) by (cases parsed) auto
  ultimately show ?thesis
    using p by (auto simp: check_files_Inr_iff collect_res_Inr_iff list_all_iff not_less intro!: exI [of _ parsed])
qed

theorem reconstruct_refuses_unfit_tokens_witness:
  "\<exists>toks parsed. reconstruct_from_tokens demo_share_env toks = Inr [5]
    \<and> list_all2 (\<lambda>t sf. decode_share demo_share_env t = Inr sf) toks parsed"
proof -
  obtain toks where toks: "split_into_tokens demo_share_env [5] 2 3 (lit ''k'') = Inr toks"
    using demo_tokens by blast
  then have "reconstruct_from_tokens demo_share_env toks = Inr [5]"
    using token_scheme.recon_all [of "(demo_share_env, lit ''k'')" "[5]" 2 3 toks] demo_share_law by simp
  from reconstruct_refuses_unfit_tokens [OF this] this show ?thesis by blast
qed

text \<open>A threshold of 1 passes the check of \<open>share\<close>, whose message says that thresholds from 1 on are
  fine, and always fails below it, in \<open>shamir\<close>, which wants at least 2.\<close>

theorem share_threshold_one_fails:
  assumes "2 \<le> n" "n \<le> 255" "\<forall>k. is_ok (random_bytes (se_manager_env \<Gamma>) k 32)"
  shows "split_into_tokens \<Gamma> secret 1 n name = Inl (ThresholdRange 1)"
proof -
  have "\<forall>k. \<exists>bs. random_bytes (se_manager_env \<Gamma>) k 32 = Inr bs"
    using assms(3) by (simp add: is_ok_iff)
  then obtain f where f: "\<And>k. random_bytes (se_manager_env \<Gamma>) k 32 = Inr (f k)" by metis
  have "collect_res (\<lambda>i. random_bytes (se_manager_env \<Gamma>) i 32) [0..<n] = Inr (map f [0..<n])"
    by (rule collect_res_map_Inr) (rule f)
  with assms(1,2) show ?thesis
    by (simp add: split_into_tokens_def mg_share_secret_def split_secret_def Let_def shamir_split_def)
qed

theorem share_threshold_one_fails_witness:
  "split_into_tokens demo_share_env [5] 1 3 (lit ''k'') = Inl (ThresholdRange 1)"
proof (rule share_threshold_one_fails)
  show "\<forall>k. is_ok (random_bytes (se_manager_env demo_share_env) k 32)"
    by (simp only: demo_share_select) (simp add: random_bytes_def demo_manager_env_def)
qed simp_all

end
