(* ===== verification/PqcAuth.thy ===== *)
theory PqcAuth
  imports Externals
begin

text \<open>
  \<open>src/crypto/pqc_auth.rs\<close>: the key pairs for signing (ML-DSA-65) and for encapsulation (ML-KEM-768). The
  algorithms are those of a crate the program links: encapsulation is part of \<open>crates\<close>, signing, which the
  rest of the program does not use, is \<open>sig_crate\<close>. The randomness of a key pair is an argument.
\<close>

record sig_crate =
  sig_generate :: "bytes \<Rightarrow> rstr + (bytes \<times> bytes)"
  sig_sign :: "bytes \<Rightarrow> bytes \<Rightarrow> rstr + bytes"
  sig_verify :: "bytes \<Rightarrow> bytes \<Rightarrow> bytes \<Rightarrow> rstr + bool"

definition sig_ok :: "sig_crate \<Rightarrow> bool" where
  "sig_ok S \<longleftrightarrow>
     (\<forall>g vk sk msg sig. sig_generate S g = Inr (vk, sk)
        \<longrightarrow> sig_sign S sk msg = Inr sig \<longrightarrow> sig_verify S vk msg sig = Inr True)"

record authenticator =
  au_public :: bytes
  au_secret :: bytes

definition authenticator_generate :: "sig_crate \<Rightarrow> bytes \<Rightarrow> rstr + authenticator" where
  "authenticator_generate S coins =
     map_ok (\<lambda>(vk, sk). \<lparr>au_public = vk, au_secret = sk\<rparr>) (sig_generate S coins)"

definition auth_sign :: "sig_crate \<Rightarrow> authenticator \<Rightarrow> bytes \<Rightarrow> rstr + bytes" where
  "auth_sign S au message = sig_sign S (au_secret au) message"

definition auth_verify :: "sig_crate \<Rightarrow> bytes \<Rightarrow> bytes \<Rightarrow> bytes \<Rightarrow> rstr + bool" where
  "auth_verify S verifying_key message signature = sig_verify S verifying_key message signature"

definition auth_public_key :: "authenticator \<Rightarrow> bytes" where
  "auth_public_key au = au_public au"

record encryptor =
  en_public :: bytes
  en_secret :: bytes

definition encryptor_generate :: "crates \<Rightarrow> bytes \<Rightarrow> rstr + encryptor" where
  "encryptor_generate X coins =
     map_ok (\<lambda>(pk, sk). \<lparr>en_public = pk, en_secret = sk\<rparr>) (kem_generate X coins)"

definition encryptor_decapsulate :: "crates \<Rightarrow> encryptor \<Rightarrow> bytes \<Rightarrow> rstr + bytes" where
  "encryptor_decapsulate X en ciphertext = kem_decapsulate X (en_secret en) ciphertext"

definition encryptor_public_key :: "encryptor \<Rightarrow> bytes" where
  "encryptor_public_key en = en_public en"

definition encapsulate_for :: "crates \<Rightarrow> bytes \<Rightarrow> bytes \<Rightarrow> rstr + (bytes \<times> bytes)" where
  "encapsulate_for X public_key coins = kem_encapsulate X public_key coins"

lemma signed_message_verifies:
  "sig_ok S \<Longrightarrow> authenticator_generate S g = Inr au \<Longrightarrow> auth_sign S au msg = Inr sig
     \<Longrightarrow> auth_verify S (auth_public_key au) msg sig = Inr True"
  by (auto simp: sig_ok_def authenticator_generate_def auth_sign_def auth_verify_def auth_public_key_def
      map_ok_def split: sum.splits)

lemma encapsulated_key_arrives:
  "kem_ok X \<Longrightarrow> encryptor_generate X g = Inr en
     \<Longrightarrow> encapsulate_for X (encryptor_public_key en) e = Inr (ct, ss) \<Longrightarrow> encryptor_decapsulate X en ct = Inr ss"
  by (auto simp: encryptor_generate_def encapsulate_for_def encryptor_public_key_def encryptor_decapsulate_def
      map_ok_def split: sum.splits dest: kem_okD)

end
