(* ===== verification/Pairing.thy ===== *)
theory Pairing
  imports Errors PqcAuth Name
begin

text \<open>
  \<open>src/network/transfer.rs\<close> with \<open>network/pairing.rs\<close> and \<open>network/mod.rs\<close>, on the key pairs
  of \<open>PqcAuth\<close>: pairing codes, transfer bundles and verification codes. The payload that is
  sealed from borrowed fields and the one that is opened into owned fields have the same encoding.
\<close>

definition PAIRCODE_PREFIX :: rstr where
  "PAIRCODE_PREFIX = lit ''simple-secrets-paircode-v1:''"

definition BUNDLE_PREFIX :: rstr where
  "BUNDLE_PREFIX = lit ''simple-secrets-pair-v1:''"

definition MAX_BUNDLE_LEN :: nat where
  "MAX_BUNDLE_LEN = 1024 * 1024"

record wire_bundle =
  bd_ciphertext :: bytes
  bd_blob :: bytes

record payload =
  pl_name :: rstr
  pl_secret :: bytes

record transfer_env =
  t_crates :: crates
  t_wire :: "wire_bundle bincode"
  t_payload :: "payload bincode"
  t_qr :: "rstr \<Rightarrow> rstr + rstr"

record pairing_session =
  ps_encryptor :: encryptor

subsection \<open>Key encapsulation and sealing\<close>

definition session_new :: "crates \<Rightarrow> bytes \<Rightarrow> rstr + pairing_session" where
  "session_new X coins = map_ok (\<lambda>en. \<lparr>ps_encryptor = en\<rparr>) (encryptor_generate X coins)"

definition session_public_key :: "pairing_session \<Rightarrow> bytes" where
  "session_public_key s = encryptor_public_key (ps_encryptor s)"

definition receive_encapsulated_secret :: "crates \<Rightarrow> pairing_session \<Rightarrow> bytes \<Rightarrow> rstr + bytes" where
  "receive_encapsulated_secret X s ciphertext = encryptor_decapsulate X (ps_encryptor s) ciphertext"

lemma session_public_key_simp [simp]: "session_public_key \<lparr>ps_encryptor = \<lparr>en_public = pk, en_secret = sk\<rparr>\<rparr> = pk"
  by (simp add: session_public_key_def encryptor_public_key_def)

definition generate_encapsulated_secret :: "crates \<Rightarrow> bytes \<Rightarrow> bytes \<Rightarrow> rstr + (bytes \<times> bytes)" where
  "generate_encapsulated_secret X peer_public_key coins = kem_encapsulate X peer_public_key coins"

text \<open>Two conversions that the rest of the program does not use.\<close>

definition serialize_to_ascii :: "crates \<Rightarrow> bytes \<Rightarrow> rstr" where
  "serialize_to_ascii X blob = b64_encode X blob"

definition deserialize_from_ascii :: "crates \<Rightarrow> rstr \<Rightarrow> rstr + bytes" where
  "deserialize_from_ascii X text_line = b64_decode X text_line"

lemma ascii_roundtrip: "b64_ok X \<Longrightarrow> deserialize_from_ascii X (serialize_to_ascii X blob) = Inr blob"
  by (simp add: serialize_to_ascii_def deserialize_from_ascii_def b64_okD)

definition EXCHANGE_AAD :: bytes where
  "EXCHANGE_AAD = utf8 (lit ''simple-secrets-exchange'')"

definition prepare_secret_blob :: "crates \<Rightarrow> bytes \<Rightarrow> bytes \<Rightarrow> bytes \<Rightarrow> rstr + bytes" where
  "prepare_secret_blob X nonce secret shared_key = encrypt_aad X shared_key nonce secret EXCHANGE_AAD"

definition extract_secret_blob :: "crates \<Rightarrow> bytes \<Rightarrow> bytes \<Rightarrow> rstr + bytes" where
  "extract_secret_blob X blob shared_key = decrypt_aad X shared_key blob EXCHANGE_AAD"

subsection \<open>Pairing codes\<close>

definition new_pairing :: "crates \<Rightarrow> bytes \<Rightarrow> error + (pairing_session \<times> rstr)" where
  "new_pairing X coins =
     and_then (map_err (Transfer \<circ> PairingInit) (session_new X coins)) (\<lambda>session.
     Inr (session, PAIRCODE_PREFIX @ b64_encode_nopad X (session_public_key session)))"

definition code_address :: "rstr \<Rightarrow> rstr option" where
  "code_address code =
     Option.bind (strip_prefix PAIRCODE_PREFIX (trim code)) (\<lambda>body.
     map_option snd (split_once (ascii CHR ''@'') body))"

text \<open>The key in a code: what stands before the first \<open>@\<close>.\<close>

definition code_key :: "crates \<Rightarrow> rstr \<Rightarrow> error + bytes" where
  "code_key X code =
     and_then (ok_or (Transfer NotAPairingCode) (strip_prefix PAIRCODE_PREFIX (trim code))) (\<lambda>body.
     map_err (Transfer \<circ> MalformedPairingCode) (b64_decode_nopad X
       (case split_once (ascii CHR ''@'') body of Some (p, _) \<Rightarrow> p | None \<Rightarrow> body)))"

definition fingerprint :: "crates \<Rightarrow> bytes \<Rightarrow> rstr" where
  "fingerprint X pubkey =
     (let d = sha256 X (utf8 (lit ''simple-secrets/pair-fingerprint/v1'') @ pubkey);
          dash = [ascii CHR ''-'']
      in show_hex2 (d ! 0) @ show_hex2 (d ! 1) @ dash @ show_hex2 (d ! 2) @ show_hex2 (d ! 3) @ dash
         @ show_hex2 (d ! 4) @ show_hex2 (d ! 5) @ dash @ show_hex2 (d ! 6) @ show_hex2 (d ! 7))"

definition code_fingerprint :: "crates \<Rightarrow> rstr \<Rightarrow> error + rstr" where
  "code_fingerprint X code = map_ok (fingerprint X) (code_key X code)"

definition qr_code :: "transfer_env \<Rightarrow> rstr \<Rightarrow> error + rstr" where
  "qr_code E data = map_err (Transfer \<circ> QrFailed) (t_qr E data)"

subsection \<open>Bundles\<close>

definition seal_for ::
  "transfer_env \<Rightarrow> bytes \<Rightarrow> bytes \<Rightarrow> rstr \<Rightarrow> rstr \<Rightarrow> bytes \<Rightarrow> error + rstr" where
  "seal_for E coins nonce peer_paircode name secret =
     and_then (code_key (t_crates E) peer_paircode) (\<lambda>peer_pub.
     and_then (map_err (Transfer \<circ> EncapsulateFailed)
         (generate_encapsulated_secret (t_crates E) peer_pub coins)) (\<lambda>(ciphertext, shared).
     and_then (map_err (Transfer \<circ> SharedKeyError) (locked_slice (t_crates E) shared)) (\<lambda>key.
     and_then (map_err (Transfer \<circ> EncodePayload)
         (ser (t_payload E) \<lparr>pl_name = name, pl_secret = secret\<rparr>)) (\<lambda>inner.
     and_then (map_err (Transfer \<circ> SealFailed) (prepare_secret_blob (t_crates E) nonce inner key)) (\<lambda>blob.
     and_then (map_err (Transfer \<circ> EncodeBundle)
         (ser (t_wire E) \<lparr>bd_ciphertext = ciphertext, bd_blob = blob\<rparr>)) (\<lambda>bs.
     Inr (BUNDLE_PREFIX @ b64_encode_nopad (t_crates E) bs)))))))"

definition open_transfer :: "transfer_env \<Rightarrow> pairing_session \<Rightarrow> rstr \<Rightarrow> error + payload" where
  "open_transfer E session text =
     (let body = trim text in
      if length (utf8 body) > MAX_BUNDLE_LEN then Inl (Transfer (BundleTooLarge (length (utf8 body))))
      else
        and_then (ok_or (Transfer NotABundle) (strip_prefix BUNDLE_PREFIX body)) (\<lambda>b64.
        and_then (map_err (Transfer \<circ> MalformedBundle) (b64_decode_nopad (t_crates E) b64)) (\<lambda>bs.
        and_then (map_err (Transfer \<circ> ParseBundle) (de (t_wire E) bs)) (\<lambda>parsed.
        and_then (map_err (Transfer \<circ> DecapsulateFailed)
            (receive_encapsulated_secret (t_crates E) session (bd_ciphertext parsed))) (\<lambda>shared.
        and_then (map_err (Transfer \<circ> SharedKeyError) (locked_slice (t_crates E) shared)) (\<lambda>key.
        and_then (map_err (Transfer \<circ> OpenFailed)
            (extract_secret_blob (t_crates E) (bd_blob parsed) key)) (\<lambda>inner.
        and_then (map_err (Transfer \<circ> ParsePayload) (de (t_payload E) inner)) (\<lambda>payload.
        and_then (validate_secret_name (pl_name payload)) (\<lambda>_. Inr payload)))))))))"

subsection \<open>Lemmas\<close>

definition transfer_law :: "transfer_env \<Rightarrow> bool" where
  "transfer_law E \<longleftrightarrow> kem_ok (t_crates E) \<and> aead_aad_ok (t_crates E) \<and> b64_ok (t_crates E)
     \<and> codec_ok (t_wire E) \<and> codec_ok (t_payload E)"

lemma ascii_text_trim:
  assumes "b64_ok X" "p \<noteq> []" "\<forall>c\<in>set p. \<not> is_whitespace c"
  shows "trim (p @ b64_encode_nopad X b) = p @ b64_encode_nopad X b"
proof (rule trim_id)
  have "\<not> is_whitespace c" if "c \<in> set (p @ b64_encode_nopad X b)" for c
    using that assms(3) b64_okD(4) [OF assms(1), of b] is_b64_char_not(1) by (auto simp: list_all_iff)
  moreover show ne: "p @ b64_encode_nopad X b \<noteq> []" using assms(2) by simp
  ultimately show "\<not> is_whitespace (hd (p @ b64_encode_nopad X b))"
    "\<not> is_whitespace (last (p @ b64_encode_nopad X b))"
    by (meson hd_in_set last_in_set)+
qed

lemma b64_no_at: "b64_ok X \<Longrightarrow> ascii CHR ''@'' \<notin> set (b64_encode_nopad X b)"
  using b64_okD(4) [of X b] is_b64_char_not(2) by (auto simp: list_all_iff)

text \<open>A code may be followed by an address, and whitespace around it does not matter.\<close>

definition code_variant :: "rstr \<Rightarrow> rstr \<Rightarrow> bool" where
  "code_variant code text \<longleftrightarrow> trim text = code \<or> (\<exists>addr. trim text = code @ [ascii CHR ''@''] @ addr)"

lemma new_pairing_key:
  assumes "b64_ok X" "new_pairing X coins = Inr (session, code)" "code_variant code text"
  shows "code_key X text = Inr (session_public_key session)"
proof -
  let ?k = "b64_encode_nopad X (session_public_key session)" and ?at = "ascii CHR ''@''"
  have code: "code = PAIRCODE_PREFIX @ ?k"
    using assms(2) by (auto simp: new_pairing_def res_simps)
  note at = b64_no_at [OF assms(1), of "session_public_key session"]
  from assms(3) consider "trim text = PAIRCODE_PREFIX @ ?k"
    | addr where "trim text = PAIRCODE_PREFIX @ ?k @ [?at] @ addr"
    by (auto simp: code_variant_def code)
  then show ?thesis
  proof cases
    case 1
    moreover have "split_once ?at ?k = None" using at by (simp add: split_once_None_iff)
    ultimately show ?thesis using b64_okD(2) [OF assms(1)] by (simp add: code_key_def)
  next
    case (2 addr)
    then show ?thesis
      using b64_okD(2) [OF assms(1)] split_once_append [OF at, of addr] by (simp add: code_key_def)
  qed
qed

lemma seal_open:
  assumes law: "transfer_law E" and np: "new_pairing (t_crates E) g = Inr (session, code)"
    and code: "code_variant code peer" and sl: "seal_for E e r peer name secret = Inr b"
    and name: "validate_secret_name name = Inr ()" and len: "length (utf8 b) \<le> MAX_BUNDLE_LEN"
    and tx: "trim text = b"
  shows "open_transfer E session text = Inr \<lparr>pl_name = name, pl_secret = secret\<rparr>"
proof -
  let ?X = "t_crates E"
  have laws: "kem_ok ?X" "aead_aad_ok ?X" "b64_ok ?X" "codec_ok (t_wire E)" "codec_ok (t_payload E)"
    using law by (simp_all add: transfer_law_def)
  obtain pk sk where kem: "kem_generate ?X g = Inr (pk, sk)" "session = \<lparr>ps_encryptor = \<lparr>en_public = pk, en_secret = sk\<rparr>\<rparr>"
    using np by (auto simp: new_pairing_def session_new_def encryptor_generate_def res_simps)
  note key = new_pairing_key [OF laws(3) np code]
  obtain ct ss k inner blob bs where s: "kem_encapsulate ?X pk e = Inr (ct, ss)" "locked_slice ?X ss = Inr k"
    "ser (t_payload E) \<lparr>pl_name = name, pl_secret = secret\<rparr> = Inr inner"
    "encrypt_aad ?X k r inner EXCHANGE_AAD = Inr blob"
    "ser (t_wire E) \<lparr>bd_ciphertext = ct, bd_blob = blob\<rparr> = Inr bs"
    "b = BUNDLE_PREFIX @ b64_encode_nopad ?X bs"
    using sl key kem(2)
    by (auto simp: seal_for_def generate_encapsulated_secret_def prepare_secret_blob_def res_simps)
  have "kem_decapsulate ?X sk ct = Inr ss" by (rule kem_okD [OF laws(1) kem(1) s(1)])
  moreover have "decrypt_aad ?X k blob EXCHANGE_AAD = Inr inner" by (rule aead_aad_okD [OF laws(2) s(4)])
  moreover note codec_okD [OF laws(4) s(5)] codec_okD [OF laws(5) s(3)] b64_okD(2) [OF laws(3), of bs]
  ultimately show ?thesis
    using len name s(2,6) tx kem(2)
    by (simp add: open_transfer_def Let_def receive_encapsulated_secret_def encryptor_decapsulate_def extract_secret_blob_def
        del: validate_secret_name_ok)
qed

text \<open>The eight bytes of a verification code can be read off it.\<close>

lemma show_hex2_inj: "show_hex2 a = show_hex2 b \<longleftrightarrow> a = b"
proof
  assume h: "show_hex2 a = show_hex2 b"
  have inj: "hex_char i = hex_char j \<Longrightarrow> i < 16 \<Longrightarrow> j < 16 \<Longrightarrow> i = j" for i j
    by (auto simp: hex_char_def split: if_splits)
  have "unat a div 16 = unat b div 16" "unat a mod 16 = unat b mod 16"
    using h nibbles_less by (auto simp: show_hex2_def intro: inj)
  then have "unat a = unat b" by (metis div_mult_mod_eq)
  then show "a = b" by (metis as_u8_unat)
qed simp

lemma show_hex2_append:
  "show_hex2 a @ s = show_hex2 b @ t \<longleftrightarrow> a = b \<and> s = t"
proof -
  have "length (show_hex2 a) = length (show_hex2 b)" by (simp add: show_hex2_def)
  then show ?thesis by (simp add: show_hex2_inj)
qed

definition pair_digest :: "crates \<Rightarrow> bytes \<Rightarrow> bytes" where
  "pair_digest X pubkey = take 8 (sha256 X (utf8 (lit ''simple-secrets/pair-fingerprint/v1'') @ pubkey))"

lemma fingerprint_eq_iff:
  assumes "digest_lengths X"
  shows "fingerprint X a = fingerprint X b \<longleftrightarrow> pair_digest X a = pair_digest X b"
proof -
  have t: "take 8 d = [d ! 0, d ! 1, d ! 2, d ! 3, d ! 4, d ! 5, d ! 6, d ! 7]" if "length d = 32" for d :: bytes
    using that by (intro nth_equalityI) (auto simp: less_Suc_eq numeral_eq_Suc)
  show ?thesis
    unfolding pair_digest_def t [OF digest_lengthsD(2) [OF assms]]
    by (simp add: fingerprint_def Let_def show_hex2_append show_hex2_inj del: lit_simps)
qed

subsection \<open>An instance\<close>

definition demo_transfer_env :: transfer_env where
  "demo_transfer_env = \<lparr>t_crates = demo_crates,
     t_wire = table_codec [\<lparr>bd_ciphertext = [2], bd_blob = [1, 2] @ EXCHANGE_AAD @ [0]\<rparr>],
     t_payload = table_codec [\<lparr>pl_name = lit ''k'', pl_secret = [5]\<rparr>],
     t_qr = Inr\<rparr>"

lemma demo_transfer_law: "transfer_law demo_transfer_env"
  by (simp add: transfer_law_def demo_transfer_env_def demo_crates_ok table_codec_ok)

definition demo_paircode :: rstr where
  "demo_paircode = PAIRCODE_PREFIX @ demo_b64_encode [1]"

definition demo_bundle_text :: rstr where
  "demo_bundle_text = BUNDLE_PREFIX @ demo_b64_encode [0]"

lemma demo_new_pairing:
  "new_pairing demo_crates [1] = Inr (\<lparr>ps_encryptor = \<lparr>en_public = [1], en_secret = [1]\<rparr>\<rparr>, demo_paircode)"
  by (simp add: new_pairing_def session_new_def encryptor_generate_def demo_crates_simps demo_paircode_def)

lemma no_ws_prefixes:
  "PAIRCODE_PREFIX \<noteq> []" "\<forall>c\<in>set PAIRCODE_PREFIX. \<not> is_whitespace c"
  "BUNDLE_PREFIX \<noteq> []" "\<forall>c\<in>set BUNDLE_PREFIX. \<not> is_whitespace c"
  by (simp_all add: PAIRCODE_PREFIX_def BUNDLE_PREFIX_def is_whitespace_def ascii_def)

lemma demo_texts_trim: "trim demo_paircode = demo_paircode" "trim demo_bundle_text = demo_bundle_text"
  using ascii_text_trim [OF demo_crates_ok(6) no_ws_prefixes(1,2), of "[1]"]
    ascii_text_trim [OF demo_crates_ok(6) no_ws_prefixes(3,4), of "[0]"]
  by (simp_all add: demo_paircode_def demo_bundle_text_def demo_crates_simps)

lemma demo_seal:
  "seal_for demo_transfer_env [2] [] demo_paircode (lit ''k'') [5] = Inr demo_bundle_text"
proof -
  have "code_variant demo_paircode demo_paircode" by (simp add: code_variant_def demo_texts_trim)
  then have "code_key demo_crates demo_paircode = Inr [1]"
    using new_pairing_key [OF demo_crates_ok(6) demo_new_pairing] by simp
  then show ?thesis
    by (simp add: seal_for_def demo_transfer_env_def generate_encapsulated_secret_def
        prepare_secret_blob_def demo_crates_simps table_codec_def demo_bundle_text_def as_u8_def
        del: lit_simps)
qed

subsection \<open>Properties\<close>

text \<open>C11. A secret sealed for a pairing code arrives: whatever code of the receiver's session the sender
  was given (with or without an address, with whitespace around it), the bundle sealed for it opens
  in that session to exactly the name and the secret, and both sides compute the same verification
  code from the code they hold. This needs a valid name and a bundle of at most 1 MiB, which sealing
  does not check.\<close>

theorem sealed_secret_arrives:
  assumes "transfer_law E" "new_pairing (t_crates E) g = Inr (session, code)"
    and "code_variant code peer" "seal_for E e r peer name secret = Inr b"
    and "validate_secret_name name = Inr ()" "length (utf8 b) \<le> MAX_BUNDLE_LEN" "trim text = b"
  shows "open_transfer E session text = Inr \<lparr>pl_name = name, pl_secret = secret\<rparr>
    \<and> code_fingerprint (t_crates E) peer = Inr (fingerprint (t_crates E) (session_public_key session))"
  using seal_open [OF assms] new_pairing_key [OF _ assms(2,3)] assms(1)
  by (simp add: code_fingerprint_def transfer_law_def)

theorem sealed_secret_arrives_witness:
  "open_transfer demo_transfer_env \<lparr>ps_encryptor = \<lparr>en_public = [1], en_secret = [1]\<rparr>\<rparr> demo_bundle_text
     = Inr \<lparr>pl_name = lit ''k'', pl_secret = [5]\<rparr>"
proof -
  have "length (utf8 demo_bundle_text) \<le> MAX_BUNDLE_LEN"
    by (simp add: demo_bundle_text_def BUNDLE_PREFIX_def demo_b64_encode_def MAX_BUNDLE_LEN_def
        encode_utf8_ascii ascii_def)
  moreover have "validate_secret_name (lit ''k'') = Inr ()"
    by (simp add: valid_name_def MAX_NAME_LEN_def is_control_def ascii_def encode_utf8_ascii)
  moreover have "code_variant demo_paircode demo_paircode" by (simp add: code_variant_def demo_texts_trim)
  ultimately show ?thesis
    using sealed_secret_arrives [OF demo_transfer_law, of "[1]" "\<lparr>ps_encryptor = \<lparr>en_public = [1], en_secret = [1]\<rparr>\<rparr>"
        demo_paircode demo_paircode "[2]" "[]" "lit ''k''" "[5]" demo_bundle_text demo_bundle_text]
      demo_seal demo_new_pairing demo_texts_trim
    by (simp add: demo_transfer_env_def)
qed

text \<open>What comparing the verification codes tells: two codes show the same verification code exactly
  when the first 64 bits of the SHA-256 digests of their keys agree, so a substituted key goes
  unnoticed only with a collision in these 64 bits.\<close>

theorem verification_codes_agree_iff:
  assumes "digest_lengths X" "code_key X a = Inr ka" "code_key X b = Inr kb"
  shows "code_fingerprint X a = code_fingerprint X b \<longleftrightarrow> pair_digest X ka = pair_digest X kb"
  using assms(2,3) fingerprint_eq_iff [OF assms(1)] by (simp add: code_fingerprint_def)

theorem verification_codes_agree_iff_witness:
  "code_fingerprint demo_crates demo_paircode = code_fingerprint demo_crates demo_paircode
    \<longleftrightarrow> pair_digest demo_crates [1] = pair_digest demo_crates [1]"
proof -
  have "code_variant demo_paircode demo_paircode" by (simp add: code_variant_def demo_texts_trim)
  then have "code_key demo_crates demo_paircode = Inr [1]"
    using new_pairing_key [OF demo_crates_ok(6) demo_new_pairing] by simp
  from verification_codes_agree_iff [OF demo_crates_ok(1) this this] show ?thesis .
qed

end
