(* ===== verification/PairingCli.thy ===== *)
theory PairingCli
  imports CliSharing Pairing
begin

text \<open>
  \<open>src/cli/pairing.rs\<close>: \<open>pair-send\<close> and \<open>pair-receive\<close>. The world they act in is \<open>pair_env\<close>: the
  terminal, the outcome of opening and writing files, the parser of socket addresses and the network.
  What a socket delivers is a list of timed read events; a wait for which no event is listed has not
  ended, and the routines that wait return \<open>None\<close> there. Times are milliseconds. Messages on
  standard error are left out.
\<close>

definition MAX_LAN_READ :: nat where
  "MAX_LAN_READ = 256 * 1024"

definition RECEIVE_DEADLINE :: nat where
  "RECEIVE_DEADLINE = 60 * 1000"

definition SOCKET_TIMEOUT :: nat where
  "SOCKET_TIMEOUT = 30 * 1000"

definition MAX_ACCEPT_ATTEMPTS :: nat where
  "MAX_ACCEPT_ATTEMPTS = 20"

datatype read_event = ReadByte byte | ReadEof | ReadWait | ReadError rstr

record lan_conn =
  lc_clone :: "rstr + unit"
  lc_start :: nat
  lc_events :: "(nat \<times> read_event) list"

record pair_env =
  pv_transfer :: transfer_env
  pv_coins :: bytes
  pv_nonce :: bytes
  pv_tty :: "(rstr + rstr) option"
  pv_stdin :: "rstr + rstr"
  pv_open :: "rstr \<Rightarrow> rstr option"
  pv_write :: "rstr \<Rightarrow> (nat \<times> rstr) option"
  pv_parse_addr :: "rstr \<Rightarrow> bool option"
  pv_connect :: "rstr \<Rightarrow> rstr + unit"
  pv_send :: "rstr + unit"
  pv_ack :: "rstr + rstr"
  pv_udp_bind :: "rstr \<Rightarrow> rstr + unit"
  pv_udp_connect :: "rstr \<Rightarrow> rstr \<Rightarrow> rstr + unit"
  pv_udp_ip :: "rstr \<Rightarrow> rstr \<Rightarrow> rstr + rstr"
  pv_bind :: "rstr \<Rightarrow> nat \<Rightarrow> rstr + (rstr + nat)"
  pv_conns :: "(rstr + lan_conn) list"
  pv_show :: "error \<Rightarrow> rstr"

subsection \<open>Files and the terminal\<close>

definition write_private :: "pair_env \<Rightarrow> rstr \<Rightarrow> rstr \<Rightarrow> fs \<Rightarrow> (error + unit) \<times> fs" where
  "write_private V path content fs =
     (case pv_open V path of
        Some e \<Rightarrow> (Inl (Cli (WriteFileFailed path e)), fs)
      | None \<Rightarrow>
          if fs path \<noteq> None then (Inl (Cli (WriteFileFailed path (lit ''File exists''))), fs)
          else
            (case pv_write V path of
               Some (k, e) \<Rightarrow> (Inl (Cli (WriteFileFailed path e)), fs(path \<mapsto> take k (utf8 content)))
             | None \<Rightarrow> (Inr (), fs(path \<mapsto> utf8 content))))"

text \<open>Without a terminal the answer is no.\<close>

definition confirm_code :: "pair_env \<Rightarrow> error + bool" where
  "confirm_code V =
     (case pv_tty V of
        None \<Rightarrow> Inr False
      | Some answer \<Rightarrow>
          map_ok (\<lambda>a. trim a \<in> {lit ''y'', lit ''Y'', lit ''yes'', lit ''YES''})
            (map_err (Transfer \<circ> ReadTerminalFailed) answer))"

definition confirmed :: "pair_env \<Rightarrow> bool \<Rightarrow> error + bool" where
  "confirmed V assume_yes = (if assume_yes then Inr True else confirm_code V)"

definition emit_code :: "pair_env \<Rightarrow> rstr \<Rightarrow> rstr option \<Rightarrow> bool \<Rightarrow> fs \<Rightarrow> (error + rstr list) \<times> fs" where
  "emit_code V code code_out qr fs =
     (case (case code_out of
              Some path \<Rightarrow> (case write_private V path code fs of (r, fs') \<Rightarrow> (map_ok (\<lambda>_. []) r, fs'))
            | None \<Rightarrow> (Inr [code], fs)) of
        (Inl e, fs') \<Rightarrow> (Inl e, fs')
      | (Inr printed, fs') \<Rightarrow>
          (if qr then map_ok (\<lambda>_. printed) (qr_code (pv_transfer V) code) else Inr printed, fs'))"

subsection \<open>The local network\<close>

definition probe_src :: "pair_env \<Rightarrow> rstr \<Rightarrow> rstr \<Rightarrow> rstr option" where
  "probe_src V local dest =
     Option.bind (res_ok (pv_udp_bind V local)) (\<lambda>_.
     Option.bind (res_ok (pv_udp_connect V local dest)) (\<lambda>_.
     res_ok (pv_udp_ip V local dest)))"

definition local_lan_ip :: "pair_env \<Rightarrow> rstr" where
  "local_lan_ip V =
     (case probe_src V (lit ''0.0.0.0:0'') (lit ''8.8.8.8:80'') of
        Some ip \<Rightarrow> ip
      | None \<Rightarrow>
          (case probe_src V (lit ''[::]:0'') (lit ''[2001:4860:4860::8888]:80'') of
             Some ip \<Rightarrow> ip
           | None \<Rightarrow> lit ''127.0.0.1''))"

definition fmt_addr :: "rstr \<Rightarrow> nat \<Rightarrow> rstr" where
  "fmt_addr ip port =
     (if ascii CHR '':'' \<in> set ip then lit ''['' @ ip @ lit '']:'' @ show_nat port
      else ip @ lit '':'' @ show_nat port)"

definition parse_lan_addr :: "pair_env \<Rightarrow> rstr \<Rightarrow> error + unit" where
  "parse_lan_addr V addr =
     (case pv_parse_addr V addr of
        None \<Rightarrow> Inl (Transfer (NotLiteralAddress addr))
      | Some unspecified \<Rightarrow> if unspecified then Inl (Transfer UnspecifiedAddress) else Inr ())"

text \<open>
  The acknowledgement, and the line that was sent, if one was. \<open>pv_ack\<close> is what \<open>read_line\<close> gives: the first line
  that the other end writes, or an error, for one when nothing comes for \<open>SOCKET_TIMEOUT\<close>.
\<close>

definition send_over_tcp :: "pair_env \<Rightarrow> rstr \<Rightarrow> rstr \<Rightarrow> (error + rstr) \<times> (rstr \<times> rstr) option" where
  "send_over_tcp V addr content =
     (case and_then (parse_lan_addr V addr) (\<lambda>_.
           map_err (\<lambda>e. Transfer (ConnectFailed addr e)) (pv_connect V addr)) of
        Inl e \<Rightarrow> (Inl e, None)
      | Inr _ \<Rightarrow>
          (case pv_send V of
             Inl e \<Rightarrow> (Inl (Transfer (SendFailed e)), None)
           | Inr _ \<Rightarrow> (map_ok trim (map_err (Transfer \<circ> NoAck) (pv_ack V)), Some (addr, trim content))))"

fun read_loop :: "nat \<Rightarrow> (nat \<times> read_event) list \<Rightarrow> bytes \<Rightarrow> (error + bytes) option" where
  "read_loop deadline [] buf = None"
| "read_loop deadline ((now, ev) # evs) buf =
     (if now \<ge> deadline then Some (Inl (Transfer TimedOut))
      else if length buf \<ge> MAX_LAN_READ then Some (Inl (Transfer SizeLimit))
      else case ev of
             ReadEof \<Rightarrow> Some (Inr buf)
           | ReadByte b \<Rightarrow> if b = 10 then Some (Inr buf) else read_loop deadline evs (buf @ [b])
           | ReadWait \<Rightarrow> read_loop deadline evs buf
           | ReadError e \<Rightarrow> Some (Inl (Cli (ReadFailed e))))"

definition read_line_bounded :: "lan_conn \<Rightarrow> (error + rstr) option" where
  "read_line_bounded cn =
     (case lc_clone cn of
        Inl e \<Rightarrow> Some (Inl (Transfer (SocketClone e)))
      | Inr _ \<Rightarrow>
          map_option (\<lambda>r. and_then r (\<lambda>buf. ok_or (Transfer NotUtf8Bundle) (from_utf8 buf)))
            (read_loop (lc_start cn + RECEIVE_DEADLINE) (lc_events cn) []))"

text \<open>
  \<open>n\<close> attempts are left; \<open>acks\<close> are the lines that were written back so far, one for each bundle that
  did not open. Failures to write them are ignored.
\<close>

fun accept_loop ::
  "pair_env \<Rightarrow> pairing_session \<Rightarrow> nat \<Rightarrow> (rstr + lan_conn) list \<Rightarrow> rstr list
     \<Rightarrow> ((error + payload) \<times> rstr list) option" where
  "accept_loop V session 0 cs acks = Some (Inl (Transfer TooManyAttempts), acks)"
| "accept_loop V session (Suc n) [] acks = None"
| "accept_loop V session (Suc n) (Inl e # cs) acks = Some (Inl (Transfer (AcceptFailed e)), acks)"
| "accept_loop V session (Suc n) (Inr cn # cs) acks =
     (case read_line_bounded cn of
        None \<Rightarrow> None
      | Some (Inl _) \<Rightarrow> accept_loop V session n cs acks
      | Some (Inr line) \<Rightarrow>
          (case open_transfer (pv_transfer V) session line of
             Inr opened \<Rightarrow> Some (Inr opened, acks)
           | Inl e \<Rightarrow> accept_loop V session n cs (acks @ [lit ''ERR '' @ pv_show V e])))"

definition accept_until_valid ::
  "pair_env \<Rightarrow> pairing_session \<Rightarrow> (rstr + lan_conn) list \<Rightarrow> ((error + payload) \<times> rstr list) option" where
  "accept_until_valid V session cs = accept_loop V session MAX_ACCEPT_ATTEMPTS cs []"

subsection \<open>\<open>pair-send\<close>\<close>

text \<open>The result, the peer, the files and what went over the network: the address, the line, and what was read as the
  acknowledgement, which is shown to the user.\<close>

definition pair_send ::
  "cli_env \<Rightarrow> 's peer \<Rightarrow> pair_env \<Rightarrow> rstr \<Rightarrow> rstr option \<Rightarrow> rstr option \<Rightarrow> rstr option \<Rightarrow> bool \<Rightarrow> 's \<times> fs
     \<Rightarrow> (error + rstr list) \<times> 's \<times> fs \<times> (rstr \<times> rstr \<times> (error + rstr)) option" where
  "pair_send C P V name to to_file bundle_out assume_yes = (\<lambda>(s, fs).
     let E = pv_transfer V in
     case (case (to, to_file) of
             (Some _, Some _) \<Rightarrow> Inl (Transfer OnlyOneCodeSource)
           | (Some code, None) \<Rightarrow> Inr code
           | (None, Some path) \<Rightarrow> map_err (\<lambda>e. Cli (ReadFileFailed path e)) (read_to_string fs path)
           | (None, None) \<Rightarrow> Inl (Transfer NeedPeerCode)) of
       Inl e \<Rightarrow> (Inl e, s, fs, None)
     | Inr raw \<Rightarrow>
         let paircode = trim raw in
         (case and_then (code_fingerprint (t_crates E) paircode) (\<lambda>fp. confirmed V assume_yes) of
            Inl e \<Rightarrow> (Inl e, s, fs, None)
          | Inr False \<Rightarrow> (Inl (Transfer NotConfirmed), s, fs, None)
          | Inr True \<Rightarrow>
              (case fetch_secret C P name s of
                 (Inl e, s') \<Rightarrow> (Inl e, s', fs, None)
               | (Inr secret, s') \<Rightarrow>
                   (case seal_for E (pv_coins V) (pv_nonce V) paircode name secret of
                      Inl e \<Rightarrow> (Inl e, s', fs, None)
                    | Inr sealed \<Rightarrow>
                        (case (bundle_out, code_address paircode) of
                           (Some path, _) \<Rightarrow>
                             (case write_private V path sealed fs of
                                (r, fs') \<Rightarrow> (map_ok (\<lambda>_. []) r, s', fs', None))
                         | (None, Some addr) \<Rightarrow>
                             (case send_over_tcp V addr sealed of
                                (r, sent) \<Rightarrow>
                                  (map_ok (\<lambda>_. []) r, s', fs, map_option (\<lambda>(a, line). (a, line, r)) sent))
                         | (None, None) \<Rightarrow> (Inr [sealed], s', fs, None))))))"

subsection \<open>\<open>pair-receive\<close>\<close>

definition store_received ::
  "cli_env \<Rightarrow> 's peer \<Rightarrow> payload \<Rightarrow> rstr option \<Rightarrow> 's \<Rightarrow> (error + rstr) \<times> 's" where
  "store_received C P opened into s =
     (let target = (case into of Some n \<Rightarrow> n | None \<Rightarrow> pl_name opened) in
      case list_names C P s of
        (Inl e, s1) \<Rightarrow> (Inl e, s1)
      | (Inr names, s1) \<Rightarrow>
          if list_ex (\<lambda>n. n = target) names then (Inl (Transfer (ExistsAlready target)), s1)
          else
            (case store_secret C P target (pl_secret opened) s1 of
               (Inl e, s2) \<Rightarrow> (Inl e, s2)
             | (Inr _, s2) \<Rightarrow> (Inr target, s2)))"

text \<open>The listener's address, if one is wanted.\<close>

definition bind_listener :: "pair_env \<Rightarrow> bool \<Rightarrow> nat \<Rightarrow> error + rstr option" where
  "bind_listener V listen port =
     (if listen
      then
        let ip = local_lan_ip V in
        and_then (map_err (Transfer \<circ> ListenFailed) (pv_bind V ip port)) (\<lambda>local.
        and_then (map_err (Transfer \<circ> LocalAddrFailed) local) (\<lambda>real_port.
        Inr (Some (fmt_addr ip real_port))))
      else Inr None)"

definition receive_opened ::
  "pair_env \<Rightarrow> pairing_session \<Rightarrow> rstr option \<Rightarrow> rstr option \<Rightarrow> fs
     \<Rightarrow> ((error + payload) \<times> rstr list) option" where
  "receive_opened V session bound bundle_in fs =
     (let E = pv_transfer V in
      case (bound, bundle_in) of
        (Some addr, _) \<Rightarrow> accept_until_valid V session (pv_conns V)
      | (None, Some path) \<Rightarrow>
          Some (and_then (map_err (\<lambda>e. Cli (ReadFileFailed path e)) (read_to_string fs path))
                  (open_transfer E session), [])
      | (None, None) \<Rightarrow>
          Some (and_then (map_err (Transfer \<circ> ReadBundleFailed) (pv_stdin V)) (open_transfer E session), []))"

text \<open>The line written back on the connection that brought the bundle, if there is one.\<close>

definition stored_ack :: "pair_env \<Rightarrow> error + rstr \<Rightarrow> rstr" where
  "stored_ack V stored =
     (case stored of
        Inr target \<Rightarrow> lit ''OK stored '' @ [rchr 39] @ target @ [rchr 39]
      | Inl e \<Rightarrow> lit ''ERR '' @ pv_show V e)"

text \<open>The result, the peer, the files and the lines that were written back over the network.\<close>

definition pair_receive ::
  "cli_env \<Rightarrow> 's peer \<Rightarrow> pair_env \<Rightarrow> rstr option \<Rightarrow> rstr option \<Rightarrow> bool \<Rightarrow> rstr option \<Rightarrow> bool \<Rightarrow> nat \<Rightarrow> bool
     \<Rightarrow> 's \<times> fs \<Rightarrow> ((error + rstr) \<times> 's \<times> fs \<times> rstr list) option" where
  "pair_receive C P V into code_out qr bundle_in listen port assume_yes = (\<lambda>(s, fs).
     let E = pv_transfer V in
     case new_pairing (t_crates E) (pv_coins V) of
       Inl e \<Rightarrow> Some (Inl e, s, fs, [])
     | Inr (session, code0) \<Rightarrow>
         (case bind_listener V listen port of
            Inl e \<Rightarrow> Some (Inl e, s, fs, [])
          | Inr bound \<Rightarrow>
              let code = (case bound of Some addr \<Rightarrow> code0 @ lit ''@'' @ addr | None \<Rightarrow> code0);
                  ack = (\<lambda>line. if bound = None then [] else [line])
              in
              (case emit_code V code code_out qr fs of
                 (Inl e, fs1) \<Rightarrow> Some (Inl e, s, fs1, [])
               | (Inr printed, fs1) \<Rightarrow>
                   (case receive_opened V session bound bundle_in fs1 of
                      None \<Rightarrow> None
                    | Some (Inl e, acks) \<Rightarrow> Some (Inl e, s, fs1, acks)
                    | Some (Inr opened, acks) \<Rightarrow>
                        (case and_then (code_fingerprint (t_crates E) code) (\<lambda>sas. confirmed V assume_yes) of
                           Inl e \<Rightarrow> Some (Inl e, s, fs1, acks)
                         | Inr False \<Rightarrow>
                             Some (Inl (Transfer NotConfirmed), s, fs1,
                               acks @ ack (lit ''ERR verification rejected by receiver''))
                         | Inr True \<Rightarrow>
                             (case store_received C P opened into s of
                                (r, s') \<Rightarrow> Some (r, s', fs1, acks @ ack (stored_ack V r))))))))"

subsection \<open>Lemmas\<close>

lemma read_loop_ends:
  "list_ex (\<lambda>(t, ev). deadline \<le> t) evs \<Longrightarrow> \<exists>r. read_loop deadline evs buf = Some r"
  by (induction evs arbitrary: buf) (auto split: read_event.splits)

lemma read_loop_bounds:
  "read_loop deadline evs buf = Some (Inr line) \<Longrightarrow> length buf \<le> MAX_LAN_READ \<Longrightarrow> 10 \<notin> set buf
     \<Longrightarrow> length line < MAX_LAN_READ \<and> 10 \<notin> set line \<and> (\<exists>more. line = buf @ more)"
proof (induction evs arbitrary: buf)
  case Nil
  then show ?case by simp
next
  case (Cons e evs)
  obtain t ev where e: "e = (t, ev)" by force
  show ?case
  proof (cases ev)
    case (ReadByte b)
    with Cons.prems e Cons.IH [of "buf @ [b]"] show ?thesis
      by (auto simp: not_le split: if_splits)
  qed (use Cons e in \<open>auto simp: not_le split: if_splits\<close>)
qed

text \<open>The bytes a peer sends, followed by a line feed, are the line that is read.\<close>

lemma read_loop_line:
  "list_all (\<lambda>(t, ev). t < deadline) evs \<Longrightarrow>
     map snd evs = map ReadByte bs @ [ReadByte 10] \<Longrightarrow> 10 \<notin> set bs \<Longrightarrow> length buf + length bs < MAX_LAN_READ
     \<Longrightarrow> read_loop deadline evs buf = Some (Inr (buf @ bs))"
proof (induction bs arbitrary: evs buf)
  case Nil
  then obtain t where "evs = [(t, ReadByte 10)]" by (cases evs) auto
  with Nil show ?case by auto
next
  case (Cons b bs)
  then obtain t evs' where "evs = (t, ReadByte b) # evs'" "map snd evs' = map ReadByte bs @ [ReadByte 10]"
    by (cases evs) auto
  with Cons show ?case by auto
qed

lemma confirmed_False: "\<not> assume_yes \<Longrightarrow> confirm_code V \<noteq> Inr True \<Longrightarrow> confirmed V assume_yes \<noteq> Inr True"
  by (simp add: confirmed_def)

lemma pair_send_unconfirmed:
  assumes "confirmed V y \<noteq> Inr True"
  shows "\<exists>e. pair_send C P V name to to_file out y (s, fs) = (Inl e, s, fs, None)"
  using assms
  by (auto simp: pair_send_def Let_def and_then_def split: option.splits sum.splits bool.splits)

lemma pair_receive_unconfirmed:
  assumes "confirmed V y \<noteq> Inr True"
    and "pair_receive C P V into code_out qr bundle_in listen port y (s, fs) = Some (r, s', fs', acks)"
  shows "s' = s \<and> (\<exists>e. r = Inl e)"
  using assms
  by (auto simp: pair_receive_def Let_def and_then_def
      split: option.splits sum.splits bool.splits prod.splits)

text \<open>Every end of \<open>pair-receive\<close> in which something was stored.\<close>

lemma pair_receive_stored:
  assumes "pair_receive C P V into code_out qr bundle_in listen port y (s, fs) = Some (Inr target, s', fs', acks)"
  obtains session code opened bound fs1 acks1 where
    "new_pairing (t_crates (pv_transfer V)) (pv_coins V) = Inr (session, code)"
    "receive_opened V session bound bundle_in fs1 = Some (Inr opened, acks1)"
    "confirmed V y = Inr True" "store_received C P opened into s = (Inr target, s')"
  using assms
  by (auto simp: pair_receive_def Let_def res_simps split: option.splits sum.splits bool.splits prod.splits)

lemma store_received_Inr:
  assumes "store_received C P opened into s = (Inr target, s')"
  obtains names s1 where "list_names C P s = (Inr names, s1)" "target \<notin> set names"
    "target = (case into of Some n \<Rightarrow> n | None \<Rightarrow> pl_name opened)"
    "store_secret C P target (pl_secret opened) s1 = (Inr (), s')"
  using assms
  by (auto simp: store_received_def Let_def list_ex_iff split: sum.splits prod.splits if_splits)

lemma from_utf8_length: "from_utf8 bs = Some s \<Longrightarrow> length s \<le> length bs"
proof (induction bs arbitrary: s rule: from_utf8.induct)
  case (1 bs)
  show ?case
  proof (cases "bs = []")
    case False
    with "1.prems" obtain c r s' where s: "decode_char bs = Some (c, r)" "from_utf8 r = Some s'" "s = c # s'"
      by (subst (asm) from_utf8.simps) (auto split: option.splits)
    with "1.IH" [OF False s(1) refl s(2)] decode_char_shorter [OF s(1)] show ?thesis by simp
  qed (use 1 in simp)
qed

text \<open>A sender that goes through with it: what it printed is the bundle for the code it was given.\<close>

lemma pair_send_printed:
  assumes "pair_send C P V name (Some peer) None None y (s, fs) = (Inr [sealed], s', fs', sent)"
  obtains secret where "fetch_secret C P name s = (Inr secret, s')" "confirmed V y = Inr True"
    "seal_for (pv_transfer V) (pv_coins V) (pv_nonce V) (trim peer) name secret = Inr sealed"
  using assms
  by (auto simp: pair_send_def Let_def res_simps and_then_def map_ok_def split: option.splits sum.splits bool.splits prod.splits if_splits)

subsection \<open>An instance\<close>

definition demo_pair_env :: pair_env where
  "demo_pair_env = \<lparr>pv_transfer = demo_transfer_env, pv_coins = [1], pv_nonce = [],
     pv_tty = None, pv_stdin = Inr [], pv_open = (\<lambda>_. None), pv_write = (\<lambda>_. None),
     pv_parse_addr = (\<lambda>_. None), pv_connect = (\<lambda>_. Inr ()), pv_send = Inr (), pv_ack = Inr [],
     pv_udp_bind = (\<lambda>_. Inl []), pv_udp_connect = (\<lambda>_ _. Inl []), pv_udp_ip = (\<lambda>_ _. Inl []), pv_bind = (\<lambda>_ _. Inr (Inr 7)), pv_conns = [], pv_show = (\<lambda>e. [])\<rparr>"

subsection \<open>Properties\<close>

text \<open>C16. No secret moves without the confirmation: unless \<open>--yes\<close> was given, whenever the user does not
  confirm the verification code (answers anything but yes, cannot be asked, or the terminal fails),
  \<open>pair-send\<close> has neither asked the agent for the secret nor written or sent anything, and
  \<open>pair-receive\<close> has sent no request to the agent; both end in an error.\<close>

theorem unconfirmed_pairing_moves_nothing:
  assumes "\<not> assume_yes" "confirm_code V \<noteq> Inr True"
  shows "(\<exists>e. pair_send C P V name to to_file bundle_out assume_yes (s, fs) = (Inl e, s, fs, None))
    \<and> (\<forall>r s' fs' acks. pair_receive C P V into code_out qr bundle_in listen port assume_yes (s, fs)
          = Some (r, s', fs', acks) \<longrightarrow> s' = s \<and> (\<exists>e. r = Inl e))"
proof (intro conjI allI impI)
  note no = confirmed_False [OF assms]
  show "\<exists>e. pair_send C P V name to to_file bundle_out assume_yes (s, fs) = (Inl e, s, fs, None)"
    by (rule pair_send_unconfirmed [OF no])
  fix r s' fs' acks
  assume "pair_receive C P V into code_out qr bundle_in listen port assume_yes (s, fs) = Some (r, s', fs', acks)"
  from pair_receive_unconfirmed [OF no this] show "s' = s" "\<exists>e. r = Inl e" by simp_all
qed

theorem unconfirmed_pairing_moves_nothing_witness:
  "\<exists>e. pair_send demo_cli demo_peer demo_pair_env (lit ''k'') (Some demo_paircode) None None False ((), Map.empty)
     = (Inl e, (), Map.empty, None)"
proof -
  have "confirm_code demo_pair_env \<noteq> Inr True" by (simp add: confirm_code_def demo_pair_env_def)
  from unconfirmed_pairing_moves_nothing [OF _ this, of False demo_cli demo_peer "lit ''k''"
      "Some demo_paircode" None None "()" Map.empty] show ?thesis by simp
qed

text \<open>A transfer by file from end to end: the receiver's code, with or without an address, is given to
  \<open>pair-send\<close>, which prints a bundle; when \<open>pair-receive\<close> of that session reads this bundle from a
  file and the user confirms, what it does to its agent is exactly to store the sender's secret
  under the sender's name (or the one of \<open>--into\<close>).\<close>

theorem pairing_transfers_secret:
  assumes "transfer_law (pv_transfer V)" "pv_transfer U = pv_transfer V"
    and "new_pairing (t_crates (pv_transfer V)) (pv_coins V) = Inr (session, code)"
    and "code_variant code (trim peer)"
    and "pair_send C P U name (Some peer) None None y (s, fs) = (Inr [sealed], s1, fs1, sent)"
    and "validate_secret_name name = Inr ()" "length (utf8 sealed) \<le> MAX_BUNDLE_LEN"
    and "read_to_string fsr path = Inr text" "trim text = sealed"
    and "confirmed V y' = Inr True"
  shows "\<exists>secret. fst (fetch_secret C P name s) = Inr secret
    \<and> pair_receive D Q V into None False (Some path) False port y' (t, fsr)
      = (case store_received D Q \<lparr>pl_name = name, pl_secret = secret\<rparr> into t of (r, t') \<Rightarrow> Some (r, t', fsr, []))"
proof -
  obtain secret where f: "fetch_secret C P name s = (Inr secret, s1)"
    and sl: "seal_for (pv_transfer U) (pv_coins U) (pv_nonce U) (trim peer) name secret = Inr sealed"
    using pair_send_printed [OF assms(5)] by metis
  have op: "open_transfer (pv_transfer V) session text = Inr \<lparr>pl_name = name, pl_secret = secret\<rparr>"
    using assms(2) by (intro seal_open [OF assms(1,3,4) _ assms(6,7,9)]) (use sl in simp)
  have b: "b64_ok (t_crates (pv_transfer V))" using assms(1) by (simp add: transfer_law_def)
  have "trim code = code"
    using assms(3) ascii_text_trim [OF b no_ws_prefixes(1,2)]
    by (auto simp: new_pairing_def res_simps)
  then have "code_key (t_crates (pv_transfer V)) code = Inr (session_public_key session)"
    by (intro new_pairing_key [OF b assms(3)]) (simp add: code_variant_def)
  then show ?thesis
    using f op assms(3,8,10)
    by (simp add: pair_receive_def bind_listener_def emit_code_def receive_opened_def
        code_fingerprint_def Let_def split: prod.splits)
qed

theorem pairing_transfers_secret_witness:
  "pair_receive demo_cli demo_peer (demo_pair_env\<lparr>pv_tty := Some (Inr (lit ''y''))\<rparr>) None None False
      (Some (lit ''b'')) False 0 False ((), [lit ''b'' \<mapsto> utf8 demo_bundle_text])
    = (case store_received demo_cli demo_peer \<lparr>pl_name = lit ''k'', pl_secret = [5]\<rparr> None () of
         (r, t') \<Rightarrow> Some (r, t', [lit ''b'' \<mapsto> utf8 demo_bundle_text], []))"
proof -
  let ?V = "demo_pair_env\<lparr>pv_tty := Some (Inr (lit ''y''))\<rparr>" and ?U = "demo_pair_env\<lparr>pv_coins := [2]\<rparr>"
  let ?fs = "[lit ''b'' \<mapsto> utf8 demo_bundle_text]"
  have V: "pv_transfer ?V = demo_transfer_env" "pv_coins ?V = [1]" "pv_transfer ?U = demo_transfer_env"
    "t_crates demo_transfer_env = demo_crates"
    by (simp_all add: demo_pair_env_def demo_transfer_env_def)
  have name: "validate_secret_name (lit ''k'') = Inr ()"
    by (simp add: valid_name_def is_control_def ascii_def encode_utf8_ascii)
  have len: "length (utf8 demo_bundle_text) \<le> MAX_BUNDLE_LEN"
    by (simp add: demo_bundle_text_def BUNDLE_PREFIX_def demo_b64_encode_def MAX_BUNDLE_LEN_def
        encode_utf8_ascii ascii_def)
  have var: "code_variant demo_paircode (trim demo_paircode)" by (simp add: code_variant_def demo_texts_trim)
  have "code_key demo_crates demo_paircode = Inr [1]"
    using new_pairing_key [OF demo_crates_ok(6) demo_new_pairing, of demo_paircode] var
    by (simp add: demo_texts_trim)
  then have fp: "is_ok (code_fingerprint demo_crates demo_paircode)" by (simp add: code_fingerprint_def)
  have tok: "session_token demo_cli = Inr demo_token"
    using demo_session_inv by (simp add: cli_inv_def session_ok_def demo_session_def process_start_def
        clock_touch_def agent_new_def)
  have f: "fetch_secret demo_cli demo_peer (lit ''k'') () = (Inr [5], ())"
    using demo_fetch .
  have "code_address demo_paircode = None"
    using b64_no_at [OF demo_crates_ok(6), of "[1]"]
    by (simp add: code_address_def demo_texts_trim)
       (simp add: demo_paircode_def demo_crates_simps split_once_None_iff)
  then have send: "pair_send demo_cli demo_peer ?U (lit ''k'') (Some demo_paircode) None None True ((), Map.empty)
      = (Inr [demo_bundle_text], (), Map.empty, None)"
    using fp f demo_seal
    by (auto simp: pair_send_def V demo_texts_trim confirmed_def is_ok_iff demo_pair_env_def Let_def
        simp del: lit_simps)
  have conf: "confirmed ?V False = Inr True"
    by (simp add: confirmed_def confirm_code_def trim_def is_whitespace_def ascii_def)
  have rd: "read_to_string ?fs (lit ''b'') = Inr demo_bundle_text"
    by (simp add: read_to_string_def del: lit_simps)
  show ?thesis
    using pairing_transfers_secret [of ?V ?U "\<lparr>ps_encryptor = \<lparr>en_public = [1], en_secret = [1]\<rparr>\<rparr>" demo_paircode demo_paircode
        demo_cli demo_peer "lit ''k''" True "()" Map.empty demo_bundle_text "()" Map.empty None ?fs
        "lit ''b''" demo_bundle_text False demo_cli demo_peer None 0 "()"]
      demo_transfer_law demo_new_pairing var send name len rd conf f
    by (simp add: V demo_texts_trim del: lit_simps validate_secret_name_ok)
qed

text \<open>C39. The receiver of a LAN transfer never waits for good, whatever the peer does: once the clock of a
  connection has passed its deadline of one minute (at the next read event), \<open>read_line_bounded\<close> has
  returned, and a line it returns holds fewer than 256 Ki characters and no line feed.\<close>

theorem lan_read_ends_and_is_bounded:
  assumes "list_ex (\<lambda>(t, ev). lc_start cn + RECEIVE_DEADLINE \<le> t) (lc_events cn)"
  shows "\<exists>r. read_line_bounded cn = Some r
    \<and> (\<forall>line. r = Inr line \<longrightarrow> length line < 256 * 1024)"
proof -
  obtain r where r: "read_loop (lc_start cn + RECEIVE_DEADLINE) (lc_events cn) [] = Some r"
    using read_loop_ends [OF assms] by blast
  have "length line < 256 * 1024" if ok: "read_line_bounded cn = Some (Inr line)" for line
  proof -
    obtain buf where buf: "r = Inr buf" "from_utf8 buf = Some line"
      using ok r by (auto simp: read_line_bounded_def res_simps split: sum.splits)
    then show ?thesis
      using read_loop_bounds [OF r [unfolded buf(1)]] from_utf8_length [OF buf(2)]
      by (simp add: MAX_LAN_READ_def)
  qed
  then show ?thesis using r by (auto simp: read_line_bounded_def split: sum.splits)
qed

theorem lan_read_ends_and_is_bounded_witness:
  "\<exists>r. read_line_bounded \<lparr>lc_clone = Inr (), lc_start = 5, lc_events = [(6, ReadByte 65), (7, ReadWait), (60009, ReadWait)]\<rparr>
     = Some r"
  using lan_read_ends_and_is_bounded
    [of "\<lparr>lc_clone = Inr (), lc_start = 5, lc_events = [(6, ReadByte 65), (7, ReadWait), (60009, ReadWait)]\<rparr>"]
  by (simp add: RECEIVE_DEADLINE_def) blast

end
