(* ===== verification/Dispatch.thy ===== *)
theory Dispatch
  imports PairingCli
begin

text \<open>
  \<open>src/cli/mod.rs\<close>: the verbs of the command line and the function that runs one. Parsing the arguments
  is the work of \<open>clap\<close>; a verb arrives here as a value. The two processes of their own, the terminal
  interface that starts without a verb and the agent that \<open>signin\<close> spawns, are \<open>TuiRun\<close> and \<open>Agent\<close>.
  Headings and hints around what a verb prints are left out, and so is standard error.
\<close>

datatype (plugins only: size code) verb =
    Init
  | Signin
  | Signout
  | Get rstr
  | ListNames
  | PutValue rstr "rstr option"
  | GeneratePhrase nat
  | Otp rstr
  | OtpAdd rstr bool
  | Status
  | ShareOut rstr nat nat rstr
  | Reconstruct "rstr list" "rstr option"
  | PairSend rstr "rstr option" "rstr option" "rstr option" bool
  | PairReceive "rstr option" bool nat "rstr option" bool "rstr option" bool

text \<open>
  What one run meets. \<open>cw_child\<close> is the process that \<open>signin\<close> spawns, as in \<open>signin_cmd\<close>. The files of
  the user are those the run reads and writes itself; what the agent reads and writes is in its state.
\<close>

record 's cli_world =
  cw_cli :: cli_env
  cw_peer :: "'s peer"
  cw_manager :: manager_env
  cw_op :: op_env
  cw_share :: share_env
  cw_share_io :: share_io
  cw_pair :: pair_env
  cw_stdin :: "rstr + bytes"
  cw_pass :: "rstr + rstr"
  cw_confirm :: "rstr + rstr"
  cw_now :: u64
  cw_child :: "fs \<Rightarrow> rstr \<Rightarrow> rstr \<times> 's option"

record 's cli_state =
  cs_peer :: 's
  cs_files :: fs
  cs_out :: writer

definition stdin_text :: "'s cli_world \<Rightarrow> rstr + rstr" where
  "stdin_text W =
     and_then (cw_stdin W) (\<lambda>bs. ok_or (lit ''stream did not contain valid UTF-8'') (from_utf8 bs))"

text \<open>\<open>generate\<close>, with a new manager.\<close>

definition generate_verb :: "manager_env \<Rightarrow> nat \<Rightarrow> error + rstr list" where
  "generate_verb M words = map_ok (\<lambda>phrase. [phrase]) (generate_passphrase M 0 words)"

definition run_verb :: "'s cli_world \<Rightarrow> verb \<Rightarrow> 's cli_state \<Rightarrow> ((error + rstr list) \<times> 's cli_state) option" where
  "run_verb W v st =
     (let C = cw_cli W; P = cw_peer W; s = cs_peer st; fs = cs_files st;
          peer = (\<lambda>(r, s'). Some (r, st\<lparr>cs_peer := s'\<rparr>));
          quiet = (\<lambda>(r, s'). Some (map_ok (\<lambda>_. []) r, st\<lparr>cs_peer := s'\<rparr>));
          written = (\<lambda>(r, s', out'). Some (map_ok (\<lambda>_. []) r, st\<lparr>cs_peer := s', cs_out := out'\<rparr>))
      in case v of
           Init \<Rightarrow>
             (case init_cmd C (cw_manager W) (cw_op W) (cw_pass W) (cw_confirm W) fs of
                (r, fs') \<Rightarrow> Some (r, st\<lparr>cs_files := fs'\<rparr>))
         | Signin \<Rightarrow>
             (case signin_cmd C P s fs (cw_pass W) (cw_child W fs) of
                (r, started) \<Rightarrow> Some (r, st\<lparr>cs_peer := (case started of Some s' \<Rightarrow> s' | None \<Rightarrow> s)\<rparr>))
         | Signout \<Rightarrow> peer (signout_cmd C P s)
         | Get name \<Rightarrow> written (get_cmd C P name (s, cs_out st))
         | ListNames \<Rightarrow> peer (list_cmd C P s)
         | PutValue name value \<Rightarrow> quiet (put_cmd C P (cw_stdin W) name value s)
         | GeneratePhrase words \<Rightarrow> Some (generate_verb (cw_manager W) words, st)
         | Otp name \<Rightarrow>
             (case otp_cmd C P (cw_now W) name s of
                (r, s') \<Rightarrow> peer (map_ok (\<lambda>code. [code]) r, s'))
         | OtpAdd name generate \<Rightarrow>
             peer (otp_add C P (random_bytes (cw_manager W) 0 20) (stdin_text W) name generate s)
         | Status \<Rightarrow> peer (status_cmd C P s)
         | ShareOut name threshold_arg shares out \<Rightarrow>
             (case share_cmd C P (cw_share W) (cw_share_io W) name threshold_arg shares out (s, fs) of
                (r, s', fs') \<Rightarrow> Some (r, st\<lparr>cs_peer := s', cs_files := fs'\<rparr>))
         | Reconstruct files into \<Rightarrow>
             written (reconstruct_cmd C P (cw_share W) files into fs (s, cs_out st))
         | PairSend name to to_file bundle_out yes \<Rightarrow>
             (case pair_send C P (cw_pair W) name to to_file bundle_out yes (s, fs) of
                (r, s', fs', sent) \<Rightarrow> Some (r, st\<lparr>cs_peer := s', cs_files := fs'\<rparr>))
         | PairReceive into listen port code_out qr bundle_in yes \<Rightarrow>
             (case pair_receive C P (cw_pair W) into code_out qr bundle_in listen port yes (s, fs) of
                None \<Rightarrow> None
              | Some (r, s', fs', acks) \<Rightarrow> Some (map_ok (\<lambda>_. []) r, st\<lparr>cs_peer := s', cs_files := fs'\<rparr>)))"

text \<open>The exit code and what is printed; \<open>None\<close> where the run is still waiting for the network.\<close>

definition run_cli :: "'s cli_world \<Rightarrow> verb \<Rightarrow> 's cli_state \<Rightarrow> ((int \<times> rstr list) \<times> 's cli_state) option" where
  "run_cli W v st =
     map_option (\<lambda>(r, st'). (case r of Inr printed \<Rightarrow> (0, printed) | Inl e \<Rightarrow> (1, []), st')) (run_verb W v st)"

subsection \<open>Verbs that only read\<close>

definition only_reads :: "verb \<Rightarrow> bool" where
  "only_reads v =
     (case v of
        Get _ \<Rightarrow> True | ListNames \<Rightarrow> True | Otp _ \<Rightarrow> True | Status \<Rightarrow> True | GeneratePhrase _ \<Rightarrow> True
      | ShareOut _ _ _ _ \<Rightarrow> True | Reconstruct _ into \<Rightarrow> into = None | PairSend _ _ _ _ _ \<Rightarrow> True
      | _ \<Rightarrow> False)"

text \<open>Two states of the agent's process that hold the same vault.\<close>

definition same_holding :: "process \<Rightarrow> process \<Rightarrow> bool" where
  "same_holding p q \<longleftrightarrow> ag_manager (pr_agent q) = ag_manager (pr_agent p)
     \<and> ag_token (pr_agent q) = ag_token (pr_agent p) \<and> pr_fs q = pr_fs p \<and> pr_running q = pr_running p"

lemma same_holding_refl [simp]: "same_holding p p"
  by (simp add: same_holding_def)

definition reading :: "request \<Rightarrow> bool" where
  "reading req = (case req of ReqPut _ _ _ \<Rightarrow> False | ReqSignout _ \<Rightarrow> False | _ \<Rightarrow> True)"

lemma handle_reading:
  "reading req \<Longrightarrow> handle E c now req (ag, fs) = ((resp, signout), ag', fs') \<Longrightarrow> ag' = ag \<and> fs' = fs \<and> \<not> signout"
  by (cases req) (auto simp: handle_def reading_def Let_def split: sum.splits if_splits)

lemma serve_reading:
  assumes "\<forall>m. fst (read_msg (a_req E) input) = Inr m \<longrightarrow> reading m"
  shows "same_holding p (snd (pe_talk (agent_peer E c room) input p)) \<or> \<not> pr_running p"
proof (cases "fst (read_msg (a_req E) input)")
  case (Inl e)
  then show ?thesis
    by (auto simp: agent_peer_def serve_conn_def Let_def same_holding_def clock_touch_def)
next
  case (Inr req)
  let ?ag = "clock_touch (pr_now p) (pr_agent p)"
  obtain resp so ag' fs' where h: "handle E c (pr_now p) req (?ag, pr_fs p) = ((resp, so), ag', fs')"
    by (metis prod.exhaust)
  have "ag' = ?ag \<and> fs' = pr_fs p \<and> \<not> so" using handle_reading [OF _ h] assms Inr by blast
  with h Inr show ?thesis
    by (auto simp: agent_peer_def serve_conn_def Let_def same_holding_def clock_touch_def)
qed

lemma request_reading:
  assumes "codec_ok (a_req E)" "cl_req C = a_req E" "reading req"
    and "send_request C (agent_peer E c room) req p = (r, q)"
  shows "same_holding p q"
proof (cases "connect C (agent_peer E c room) p")
  case (Inl e)
  with assms(4) show ?thesis by (simp add: send_request_def)
next
  case (Inr u)
  then have run: "pr_running p"
    by (auto simp: connect_def guard_res_def res_simps split: if_splits)
  obtain wr w where w: "write_msg (a_req E) req (fresh_writer (cl_room C)) = (wr, w)" by force
  have "\<forall>m. fst (read_msg (a_req E) (w_out w)) = Inr m \<longrightarrow> reading m"
  proof (cases wr)
    case (Inl e)
    with write_failed_read [OF w [unfolded Inl], of "a_req E"] show ?thesis by auto
  next
    case (Inr u)
    with read_written [OF assms(1), of req "cl_room C" w] w assms(3) show ?thesis by simp
  qed
  from serve_reading [OF this, of p c room] run have "same_holding p (snd (pe_talk (agent_peer E c room) (w_out w) p))"
    by blast
  with assms(2,4) Inr w show ?thesis
    by (auto simp: send_request_def split: sum.splits prod.splits)
qed

lemma with_session_reading:
  assumes "codec_ok (a_req E)" "cl_req C = a_req E" "\<forall>t. reading (mk t)"
    and "with_session C (agent_peer E c room) mk k p = (r, q)"
  shows "same_holding p q"
  using assms(3,4) request_reading [OF assms(1,2), of "mk t" for t]
  by (auto simp: with_session_def split: sum.splits prod.splits)

lemma verbs_reading:
  assumes "codec_ok (a_req E)" "cl_req C = a_req E"
  shows "fetch_secret C (agent_peer E c room) n p = (r, q) \<Longrightarrow> same_holding p q"
    and "list_names C (agent_peer E c room) p = (r', q) \<Longrightarrow> same_holding p q"
    and "status_cmd C (agent_peer E c room) p = (r', q) \<Longrightarrow> same_holding p q"
proof -
  show "fetch_secret C (agent_peer E c room) n p = (r, q) \<Longrightarrow> same_holding p q"
    unfolding fetch_secret_def by (rule with_session_reading [OF assms]) (simp_all add: reading_def)
  show "list_names C (agent_peer E c room) p = (r', q) \<Longrightarrow> same_holding p q"
    unfolding list_names_def by (rule with_session_reading [OF assms]) (simp_all add: reading_def)
  have "same_holding p (snd (send_request C (agent_peer E c room) (ReqStatus t) p))" for t
    by (rule request_reading [OF assms, of "ReqStatus t" c room p "fst (send_request C (agent_peer E c room) (ReqStatus t) p)"])
      (simp_all add: reading_def)
  then show "status_cmd C (agent_peer E c room) p = (r', q) \<Longrightarrow> same_holding p q"
    unfolding status_cmd_def
    by (auto split: sum.splits prod.splits response.splits) (metis snd_conv)+
qed

text \<open>Without a session token no request leaves the client.\<close>

lemma no_session_verbs:
  assumes "session_token C = Inl e"
  shows "with_session C P mk k s = (Inl e, s)" "fetch_secret C P n s = (Inl e, s)"
    "store_secret C P n x s = (Inl e, s)" "list_names C P s = (Inl e, s)" "signout_cmd C P s = (Inl e, s)"
    "snd (status_cmd C P s) = s"
  using assms
  by (simp_all add: with_session_def fetch_secret_def store_secret_def list_names_def signout_cmd_def status_cmd_def)

lemma share_cmd_peer: "share_cmd C P \<Gamma> io n k m out (s, fs) = (r, s', fs') \<Longrightarrow> s' = snd (fetch_secret C P n s)"
  by (auto simp: share_cmd_def split: sum.splits prod.splits)

lemma pair_send_peer:
  "pair_send C P V n to to_file out y (s, fs) = (r, s', fs', sent) \<Longrightarrow> s' = s \<or> s' = snd (fetch_secret C P n s)"
  by (auto simp: pair_send_def Let_def split: option.splits sum.splits prod.splits bool.splits)

lemma get_cmd_peer: "get_cmd C P n (s, out) = (r, s', out') \<Longrightarrow> s' = snd (fetch_secret C P n s)"
  by (auto simp: get_cmd_def split: sum.splits prod.splits)

lemma otp_cmd_peer: "otp_cmd C P now n s = (r, s') \<Longrightarrow> s' = snd (fetch_secret C P n s)"
  by (auto simp: otp_cmd_def split: sum.splits prod.splits option.splits)

lemma reconstruct_cmd_peer:
  "reconstruct_cmd C P \<Gamma> files into fs (s, out) = (r, s', out')
     \<Longrightarrow> s' = s \<or> (\<exists>n x. into = Some n \<and> s' = snd (store_secret C P n x s))"
  by (auto simp: reconstruct_cmd_def split: sum.splits prod.splits option.splits if_splits) (metis snd_conv)+

lemma put_cmd_peer: "put_cmd C P stdin n v s = (r, s') \<Longrightarrow> s' = s \<or> (\<exists>x. s' = snd (store_secret C P n x s))"
  by (auto simp: put_cmd_def split: sum.splits) (metis snd_conv)+

lemma otp_add_peer: "otp_add C P seed stdin n g s = (r, s') \<Longrightarrow> s' = s \<or> (\<exists>x. s' = snd (store_secret C P n x s))"
  by (auto simp: otp_add_def Let_def split: sum.splits prod.splits) (metis snd_conv)+

lemma store_received_peer:
  "store_received C P opened into s = (r, s')
     \<Longrightarrow> s' = snd (list_names C P s) \<or> (\<exists>n x. s' = snd (store_secret C P n x (snd (list_names C P s))))"
  by (auto simp: store_received_def Let_def split: sum.splits prod.splits if_splits) (metis snd_conv)+

lemma pair_receive_peer:
  "pair_receive C P V into code_out qr bundle_in listen port y (s, fs) = Some (r, s', fs', acks)
     \<Longrightarrow> s' = s \<or> (\<exists>opened. s' = snd (store_received C P opened into s))"
  by (auto simp: pair_receive_def Let_def split: option.splits sum.splits bool.splits prod.splits) (metis snd_conv)+

lemma run_verb_reading:
  assumes ok: "codec_ok (a_req E)" "cl_req (cw_cli W) = a_req E" "cw_peer W = agent_peer E c room"
    and ro: "only_reads v" and run: "run_verb W v st = Some (r, st')"
  shows "same_holding (cs_peer st) (cs_peer st')"
proof -
  let ?C = "cw_cli W" and ?P = "agent_peer E c room" and ?s = "cs_peer st"
  note rd = verbs_reading [OF ok(1,2)]
  have f: "same_holding ?s (snd (fetch_secret ?C ?P n ?s))" for n
    by (rule rd(1) [of c room n ?s "fst (fetch_secret ?C ?P n ?s)"]) simp
  show ?thesis
    using run ro f ok(3) unfolding run_verb_def only_reads_def Let_def
    by (cases v)
       (auto simp: list_cmd_def dest: rd(2,3) dest!: get_cmd_peer otp_cmd_peer share_cmd_peer
          pair_send_peer reconstruct_cmd_peer split: prod.splits)
qed

lemma run_verb_no_session:
  assumes ns: "\<not> is_ok (session_token (cw_cli W))" and v: "v \<noteq> Signin" and run: "run_verb W v st = Some (r, st')"
  shows "cs_peer st' = cs_peer st"
proof -
  obtain e where e: "session_token (cw_cli W) = Inl e"
    using ns by (cases "session_token (cw_cli W)") auto
  note no = no_session_verbs [OF e]
  have rcv: "snd (store_received (cw_cli W) P opened into s) = s" for P opened into and s :: 'a
    by (simp add: store_received_def no)
  show ?thesis
    using run v unfolding run_verb_def Let_def
    by (cases v)
       (auto simp: list_cmd_def no rcv dest!: get_cmd_peer otp_cmd_peer share_cmd_peer pair_send_peer
          reconstruct_cmd_peer put_cmd_peer otp_add_peer pair_receive_peer
          split: prod.splits option.splits dest: arg_cong [of _ _ snd])
qed

subsection \<open>Properties\<close>

text \<open>Reading verbs keep the vault: whatever \<open>get\<close>, \<open>list\<close>, \<open>otp\<close>, \<open>status\<close>, \<open>generate\<close>, \<open>share\<close>,
  \<open>reconstruct\<close> without \<open>--into\<close> and \<open>pair-send\<close> are given and whatever goes wrong on the way, the agent
  runs on with the same vault, the same token and the same files; and in a shell without a session
  token that holds of every verb but \<open>signin\<close>.\<close>

theorem reading_verbs_keep_the_vault:
  assumes "codec_ok (a_req E)" "cl_req (cw_cli W) = a_req E" "cw_peer W = agent_peer E c room"
    and "only_reads v \<or> \<not> is_ok (session_token (cw_cli W)) \<and> v \<noteq> Signin"
    and "run_cli W v st = Some ((code, printed), st')"
  shows "ag_manager (pr_agent (cs_peer st')) = ag_manager (pr_agent (cs_peer st))
    \<and> ag_token (pr_agent (cs_peer st')) = ag_token (pr_agent (cs_peer st))
    \<and> pr_fs (cs_peer st') = pr_fs (cs_peer st) \<and> pr_running (cs_peer st') = pr_running (cs_peer st)"
proof -
  obtain r where "run_verb W v st = Some (r, st')"
    using assms(5) by (auto simp: run_cli_def)
  then have "same_holding (cs_peer st) (cs_peer st')"
    using run_verb_reading [OF assms(1-3)] run_verb_no_session assms(4) by fastforce
  then show ?thesis by (simp add: same_holding_def)
qed

definition demo_cli_world :: "process cli_world" where
  "demo_cli_world = \<lparr>cw_cli = demo_cli, cw_peer = agent_peer demo_session_env demo_op None,
     cw_manager = demo_manager_env, cw_op = demo_op, cw_share = demo_share_env, cw_share_io = demo_share_io,
     cw_pair = demo_pair_env, cw_stdin = Inr [], cw_pass = Inr [], cw_confirm = Inr [], cw_now = 0,
     cw_child = (\<lambda>_ _. ([], None))\<rparr>"

definition demo_cli_state :: "process cli_state" where
  "demo_cli_state = \<lparr>cs_peer = demo_session, cs_files = Map.empty, cs_out = fresh_writer None\<rparr>"

theorem reading_verbs_keep_the_vault_witness:
  "\<exists>code printed st'. run_cli demo_cli_world (Get (lit ''k'')) demo_cli_state = Some ((code, printed), st')
    \<and> ag_manager (pr_agent (cs_peer st')) = ag_manager (pr_agent demo_session)"
proof -
  obtain r s out where "get_cmd demo_cli (agent_peer demo_session_env demo_op None) (lit ''k'')
      (demo_session, fresh_writer None) = (r, s, out)" by (metis prod.exhaust)
  then obtain code printed st' where run: "run_cli demo_cli_world (Get (lit ''k'')) demo_cli_state
      = Some ((code, printed), st')"
    by (cases "map_ok (\<lambda>_. [] :: rstr list) r")
       (auto simp: run_cli_def run_verb_def demo_cli_world_def demo_cli_state_def simp del: lit_simps)
  have "codec_ok (a_req demo_session_env)" using demo_wire by (simp add: wire_ok_def)
  moreover have "cl_req (cw_cli demo_cli_world) = a_req demo_session_env"
    using demo_session_inv by (simp add: cli_inv_def session_ok_def demo_cli_world_def)
  ultimately have "ag_manager (pr_agent (cs_peer st')) = ag_manager (pr_agent (cs_peer demo_cli_state))"
    using reading_verbs_keep_the_vault [OF _ _ _ _ run] by (simp add: demo_cli_world_def only_reads_def)
  with run show ?thesis by (simp add: demo_cli_state_def)
qed

end
