(* ===== verification/LanTransfer.thy ===== *)
theory LanTransfer
  imports Dispatch
begin

text \<open>
  A transfer over the local network from end to end: \<open>pair-send\<close> on one machine, \<open>pair-receive --listen\<close>
  on another, each with its own agent. What the sender writes to the socket is what the receiver's
  connection delivers, and what the receiver writes back there is what the sender reads, if it comes in time;
  other connections may come first.
\<close>

subsection \<open>Texts\<close>

lemma trim_trim [simp]: "trim (trim s) = trim s"
proof (cases "trim s = []")
  case False
  let ?d = "dropWhile is_whitespace (rev (dropWhile is_whitespace s))"
  have ne: "?d \<noteq> []" using False by (simp add: trim_def)
  have "\<not> is_whitespace (last (trim s))"
    using hd_dropWhile [OF ne] ne by (simp add: trim_def last_rev)
  moreover have "\<not> is_whitespace (hd (trim s))"
  proof -
    let ?e = "dropWhile is_whitespace s"
    obtain p where p: "rev ?e = p @ ?d" by (metis takeWhile_dropWhile_id)
    then have e: "?e = rev ?d @ rev p" by (metis rev_append rev_rev_ident)
    have "hd ?e = hd (trim s)" using ne e by (metis hd_append2 rev_is_Nil_conv trim_def)
    moreover have "?e \<noteq> []" using e ne by (metis Nil_is_append_conv rev_is_Nil_conv)
    ultimately show ?thesis using hd_dropWhile by metis
  qed
  ultimately show ?thesis using False by (intro trim_id)
qed simp

lemma code_address_at:
  assumes "b64_ok X" "new_pairing X coins = Inr (session, code)" "trim peer = code @ lit ''@'' @ addr"
  shows "code_address (trim peer) = Some addr"
proof -
  have "code = PAIRCODE_PREFIX @ b64_encode_nopad X (session_public_key session)"
    using assms(2) by (auto simp: new_pairing_def res_simps)
  then have "strip_prefix PAIRCODE_PREFIX (trim peer)
      = Some (b64_encode_nopad X (session_public_key session) @ lit ''@'' @ addr)"
    using assms(3) by simp
  then show ?thesis
    using split_once_append [OF b64_no_at [OF assms(1)], of "session_public_key session" addr] by (simp add: code_address_def)
qed

subsection \<open>Connections\<close>

text \<open>The connection delivers the line before its deadline; \<open>read\<close> may time out in between.\<close>

definition delivers :: "lan_conn \<Rightarrow> rstr \<Rightarrow> bool" where
  "delivers cn line \<longleftrightarrow> lc_clone cn = Inr ()
     \<and> list_all (\<lambda>(t, ev). t < lc_start cn + RECEIVE_DEADLINE) (lc_events cn)
     \<and> filter (\<lambda>ev. ev \<noteq> ReadWait) (map snd (lc_events cn)) = map ReadByte (utf8 line) @ [ReadByte 10]"

lemma read_loop_delivers:
  "list_all (\<lambda>(t, ev). t < deadline) evs \<Longrightarrow>
     filter (\<lambda>ev. ev \<noteq> ReadWait) (map snd evs) = map ReadByte bs @ [ReadByte 10] \<Longrightarrow> 10 \<notin> set bs
     \<Longrightarrow> length buf + length bs < MAX_LAN_READ \<Longrightarrow> read_loop deadline evs buf = Some (Inr (buf @ bs))"
proof (induction evs arbitrary: bs buf)
  case Nil
  then show ?case by simp
next
  case (Cons e evs)
  obtain t ev where e: "e = (t, ev)" by force
  show ?case
  proof (cases "ev = ReadWait")
    case True
    with Cons e show ?thesis by simp
  next
    case False
    with Cons.prems e show ?thesis
      by (cases bs) (auto intro: Cons.IH [of _ "buf @ [b]" for b, simplified])
  qed
qed

lemma read_delivered:
  assumes "delivers cn line" "10 \<notin> set (utf8 line)" "length (utf8 line) < MAX_LAN_READ"
  shows "read_line_bounded cn = Some (Inr line)"
  using assms read_loop_delivers [of "lc_start cn + RECEIVE_DEADLINE" "lc_events cn" "utf8 line" "[]"]
  by (simp add: delivers_def read_line_bounded_def)

text \<open>A connection that ends without a bundle that opens.\<close>

definition stray :: "pair_env \<Rightarrow> pairing_session \<Rightarrow> rstr + lan_conn \<Rightarrow> bool" where
  "stray V session c \<longleftrightarrow> (\<exists>cn r. c = Inr cn \<and> read_line_bounded cn = Some r
     \<and> (\<forall>line. r = Inr line \<longrightarrow> \<not> is_ok (open_transfer (pv_transfer V) session line)))"

lemma accept_after_strays:
  assumes "read_line_bounded cn = Some (Inr line)" "open_transfer (pv_transfer V) session line = Inr opened"
  shows "\<forall>c\<in>set junk. stray V session c \<Longrightarrow> length junk < n \<Longrightarrow>
    \<exists>refusals. accept_loop V session n (junk @ Inr cn # rest) acks = Some (Inr opened, acks @ refusals)
      \<and> (\<forall>a\<in>set refusals. \<exists>e. a = lit ''ERR '' @ pv_show V e)"
proof (induction junk arbitrary: n acks)
  case Nil
  then obtain n' where "n = Suc n'" by (cases n) auto
  with assms show ?case by simp
next
  case (Cons c junk)
  then obtain n' where n: "n = Suc n'" "length junk < n'" by (cases n) auto
  obtain cn' r where c: "c = Inr cn'" "read_line_bounded cn' = Some r"
    "\<forall>line. r = Inr line \<longrightarrow> \<not> is_ok (open_transfer (pv_transfer V) session line)"
    using Cons.prems(1) by (auto simp: stray_def)
  have st: "\<forall>c\<in>set junk. stray V session c" using Cons.prems(1) by simp
  show ?case
  proof (cases r)
    case (Inl e)
    with Cons.IH [OF st n(2), of acks] c n(1) show ?thesis by simp
  next
    case (Inr line')
    then obtain e where "open_transfer (pv_transfer V) session line' = Inl e"
      using c(3) by (cases "open_transfer (pv_transfer V) session line'") auto
    with Cons.IH [OF st n(2), of "acks @ [lit ''ERR '' @ pv_show V e]"] c(1,2) n(1) Inr show ?thesis
      by (auto simp del: lit_simps)
  qed
qed

subsection \<open>The two verbs\<close>

lemma pair_send_lan:
  assumes "pair_send C P U name (Some peer) None None y (s, fs) = (r, s1, fs1, Some (a, line, answer))"
  obtains secret sealed where "fetch_secret C P name s = (Inr secret, s1)"
    "seal_for (pv_transfer U) (pv_coins U) (pv_nonce U) (trim peer) name secret = Inr sealed"
    "line = trim sealed" "code_address (trim peer) = Some a"
    "answer = map_ok trim (map_err (Transfer \<circ> NoAck) (pv_ack U))" "r = map_ok (\<lambda>_. []) answer"
  using assms
  by (auto simp: pair_send_def send_over_tcp_def Let_def res_simps and_then_def map_ok_def
      split: option.splits sum.splits bool.splits prod.splits if_splits)

text \<open>
  What the sender's \<open>read_line\<close> gives when the other end answers with \<open>line\<close> after \<open>delay\<close> milliseconds: its first
  line, or an error when the answer comes later than the timeout of the socket.
\<close>

definition hears :: "pair_env \<Rightarrow> nat \<Rightarrow> rstr \<Rightarrow> bool" where
  "hears U delay line \<longleftrightarrow>
     (if delay < SOCKET_TIMEOUT then pv_ack U = Inr (takeWhile (\<lambda>c. c \<noteq> rchr 10) line @ [rchr 10])
      else \<not> is_ok (pv_ack U))"

lemma trim_line_feed: "\<not> is_whitespace (hd s) \<Longrightarrow> \<not> is_whitespace (last s) \<Longrightarrow> s \<noteq> [] \<Longrightarrow> trim (s @ [rchr 10]) = s"
proof -
  assume s: "\<not> is_whitespace (hd s)" "\<not> is_whitespace (last s)" "s \<noteq> []"
  have lf: "is_whitespace (rchr 10)" by (simp add: is_whitespace_def)
  have "dropWhile is_whitespace (s @ [rchr 10]) = s @ [rchr 10]" using s(1,3) by (cases s) simp_all
  moreover have "dropWhile is_whitespace (rev s) = rev s" using s(2,3) by (cases "rev s") (simp_all add: last_rev hd_rev)
  ultimately show ?thesis using lf by (simp add: trim_def)
qed

lemma stored_line:
  assumes "rchr 10 \<notin> set target"
  shows "takeWhile (\<lambda>c. c \<noteq> rchr 10) (lit ''OK stored '' @ [rchr 39] @ target @ [rchr 39])
      = lit ''OK stored '' @ [rchr 39] @ target @ [rchr 39]"
    and "trim (lit ''OK stored '' @ [rchr 39] @ target @ [rchr 39] @ [rchr 10])
      = lit ''OK stored '' @ [rchr 39] @ target @ [rchr 39]"
proof -
  let ?l = "lit ''OK stored '' @ [rchr 39] @ target @ [rchr 39]"
  have "\<forall>c\<in>set ?l. c \<noteq> rchr 10" using assms by (auto simp: ascii_def)
  then show "takeWhile (\<lambda>c. c \<noteq> rchr 10) ?l = ?l" unfolding takeWhile_eq_all_conv .
  have "trim (?l @ [rchr 10]) = ?l" by (rule trim_line_feed) (simp_all add: ascii_def is_whitespace_def)
  then show "trim (lit ''OK stored '' @ [rchr 39] @ target @ [rchr 39] @ [rchr 10]) = ?l" by (simp only: append_assoc)
qed

text \<open>Whatever is answered, an \<open>ERR\<close> of a receiver who refused or nothing at all, the sender only shows it and succeeds.\<close>

lemma sender_ignores_ack:
  assumes "pair_send C P U name (Some peer) None None y (s, fs) = (r, s1, fs1, Some (a, line, answer))" "pv_ack U = Inr heard"
  shows "answer = Inr (trim heard) \<and> r = Inr []"
proof -
  have "answer = map_ok trim (map_err (Transfer \<circ> NoAck) (pv_ack U))" "r = map_ok (\<lambda>_. []) answer"
    using pair_send_lan [OF assms(1)] by blast+
  then show ?thesis using assms(2) by (simp add: map_ok_def map_err_def)
qed

text \<open>A bundle is one line of ASCII.\<close>

lemma ascii_no_lf: "is_ascii_str s \<Longrightarrow> rchr 10 \<notin> set s \<Longrightarrow> 10 \<notin> set (utf8 s)"
proof
  assume s: "is_ascii_str s" "rchr 10 \<notin> set s" and "10 \<in> set (utf8 s)"
  then obtain c where c: "c \<in> set s" "as_u8 (code_point c) = 10" "code_point c < 128"
    by (auto simp: utf8_ascii_str is_ascii_str_def list_all_iff)
  have "unat (as_u8 n) = n" if "n < 128" for n using that by (simp add: as_u8_def unat_of_nat take_bit_eq_mod)
  then have "unat (as_u8 (code_point c)) = code_point c" using c(3) by blast
  moreover have "unat (10 :: byte) = 10" by simp
  ultimately have "code_point c = 10" using c(2) by metis
  then have "c = rchr 10" by (metis rchr_code_point)
  with c(1) s(2) show False by simp
qed

lemma sealed_line:
  assumes "b64_ok (t_crates E)" "seal_for E coins nonce peer name secret = Inr sealed"
  shows "trim sealed = sealed" "10 \<notin> set (utf8 sealed)"
proof -
  obtain bs where s: "sealed = BUNDLE_PREFIX @ b64_encode_nopad (t_crates E) bs"
    using assms(2) by (auto simp: seal_for_def res_simps)
  show "trim sealed = sealed" unfolding s by (rule ascii_text_trim [OF assms(1) no_ws_prefixes(3,4)])
  have "\<forall>c\<in>set sealed. \<not> is_whitespace c"
    using b64_okD(4) [OF assms(1), of bs] is_b64_char_not(1) no_ws_prefixes(4) by (auto simp: s list_all_iff)
  moreover have "is_whitespace (rchr 10)" by (simp add: is_whitespace_def)
  ultimately have "rchr 10 \<notin> set sealed" by blast
  moreover have "is_b64_char c \<Longrightarrow> code_point c < 128" for c by (auto simp: is_b64_char_def ascii_def Let_def)
  then have "is_ascii_str sealed"
    using b64_okD(4) [OF assms(1), of bs] by (auto simp: s is_ascii_str_def list_all_iff BUNDLE_PREFIX_def ascii_def)
  ultimately show "10 \<notin> set (utf8 sealed)" using ascii_no_lf by blast
qed

text \<open>
  The receiver listens at \<open>addr\<close>; the sender was given its code; among the connections there are strays
  and then the one that delivers the line of the sender.
\<close>

lemma lan_transfer:
  assumes "transfer_law (pv_transfer V)" "pv_transfer U = pv_transfer V"
    and "new_pairing (t_crates (pv_transfer V)) (pv_coins V) = Inr (session, code)"
    and "bind_listener V True port = Inr (Some addr)" "trim peer = code @ lit ''@'' @ addr"
    and "pair_send C P U name (Some peer) None None y (s, fs) = (sr, s1, fs1, Some (a, line, answer))"
    and "validate_secret_name name = Inr ()" "length (utf8 line) < MAX_LAN_READ"
    and "pv_conns V = junk @ Inr cn # rest" "\<forall>c\<in>set junk. stray V session c" "length junk < MAX_ACCEPT_ATTEMPTS"
    and "delivers cn line" "confirmed V y' = Inr True"
  shows "\<exists>secret acks. a = addr \<and> fst (fetch_secret C P name s) = Inr secret
    \<and> answer = map_ok trim (map_err (Transfer \<circ> NoAck) (pv_ack U)) \<and> sr = map_ok (\<lambda>_. []) answer
    \<and> (\<forall>k\<in>set acks. \<exists>e. k = lit ''ERR '' @ pv_show V e)
    \<and> pair_receive D Q V into None False bundle_in True port y' (t, fsr)
      = (case store_received D Q \<lparr>pl_name = name, pl_secret = secret\<rparr> into t of
           (r, t') \<Rightarrow> Some (r, t', fsr, acks @ [stored_ack V r]))"
proof -
  let ?E = "pv_transfer V"
  have b: "b64_ok (t_crates ?E)" using assms(1) by (simp add: transfer_law_def)
  obtain secret sealed where f: "fetch_secret C P name s = (Inr secret, s1)"
    and sl: "seal_for ?E (pv_coins U) (pv_nonce U) (trim peer) name secret = Inr sealed"
    and ln: "line = trim sealed" "code_address (trim peer) = Some a"
    and an: "answer = map_ok trim (map_err (Transfer \<circ> NoAck) (pv_ack U))" "sr = map_ok (\<lambda>_. []) answer"
    using pair_send_lan [OF assms(6)] assms(2) by metis
  note line = sealed_line [OF b sl]
  have a: "a = addr" using code_address_at [OF b assms(3,5)] ln(2) by simp
  have var: "code_variant code (trim peer)" using assms(5) unfolding code_variant_def trim_trim by simp
  have op: "open_transfer ?E session line = Inr \<lparr>pl_name = name, pl_secret = secret\<rparr>"
    using assms(8) line(1) ln(1)
    by (intro seal_open [OF assms(1,3) var sl assms(7)]) (simp_all add: MAX_LAN_READ_def MAX_BUNDLE_LEN_def)
  have rd: "read_line_bounded cn = Some (Inr line)"
    using read_delivered [OF assms(12) _ assms(8)] line ln(1) by simp
  obtain acks where acks: "accept_until_valid V session (pv_conns V) = Some (Inr \<lparr>pl_name = name, pl_secret = secret\<rparr>, acks)"
      "\<forall>k\<in>set acks. \<exists>e. k = lit ''ERR '' @ pv_show V e"
    using accept_after_strays [OF rd op assms(10,11), of rest "[]"] assms(9) by (auto simp: accept_until_valid_def)
  have "code_key (t_crates ?E) (trim peer) = Inr (session_public_key session)" by (rule new_pairing_key [OF b assms(3) var])
  then have key: "code_key (t_crates ?E) (code @ lit ''@'' @ addr) = Inr (session_public_key session)" by (simp only: assms(5))
  have "pair_receive D Q V into None False bundle_in True port y' (t, fsr)
      = (case store_received D Q \<lparr>pl_name = name, pl_secret = secret\<rparr> into t of
           (r, t') \<Rightarrow> Some (r, t', fsr, acks @ [stored_ack V r]))"
    using assms(3,4,13) acks(1) key
    by (simp add: pair_receive_def emit_code_def receive_opened_def code_fingerprint_def Let_def
        split: prod.splits del: lit_simps)
  with a f acks(2) an show ?thesis by auto
qed

subsection \<open>The receiving agent\<close>

lemma same_holding_session:
  assumes "same_holding p q" "cli_inv C E pw p"
  shows "cli_inv C E pw q" "cli_view C (agent_peer E c None) q k = cli_view C (agent_peer E c None) p k"
proof -
  have s: "session_ok C E p" "session_ok C E q" using assms by (auto simp: cli_inv_def same_holding_def session_ok_def)
  show "cli_inv C E pw q" using assms s(2) by (simp add: cli_inv_def same_holding_def)
  show "cli_view C (agent_peer E c None) q k = cli_view C (agent_peer E c None) p k"
    using fetch_cong [OF s(2,1), of k c c] assms(1) by (simp add: cli_view_def same_holding_def)
qed

lemma received_is_stored:
  assumes "cli_inv C E pw t" "store_received C (agent_peer E c None) opened into t = (Inr target, t')"
  shows "target = (case into of Some n \<Rightarrow> n | None \<Rightarrow> pl_name opened)
    \<and> fst (fetch_secret C (agent_peer E demo_op None) target t') = Inr (pl_secret opened)
    \<and> (\<forall>k. k \<noteq> target \<longrightarrow> cli_view C (agent_peer E demo_op None) t' k = cli_view C (agent_peer E demo_op None) t k)
    \<and> cli_inv C E pw t' \<and> rchr 10 \<notin> set target"
proof -
  obtain names t1 where r: "list_names C (agent_peer E c None) t = (Inr names, t1)"
    "target = (case into of Some n \<Rightarrow> n | None \<Rightarrow> pl_name opened)"
    "store_secret C (agent_peer E c None) target (pl_secret opened) t1 = (Inr (), t')"
    using assms(2) by (rule store_received_Inr)
  have "codec_ok (a_req E)" "cl_req C = a_req E" using assms(1) by (auto simp: cli_inv_def session_ok_def wire_ok_def)
  from verbs_reading(2) [OF this r(1)] have same: "same_holding t t1" .
  note inv = same_holding_session(1) [OF same assms(1)]
  note view = cli.put_get [OF inv r(3)]
  have "fst (fetch_secret C (agent_peer E demo_op None) target t') = Inr (pl_secret opened)"
    using view [of target] by (auto simp: cli_view_def split: sum.splits if_splits)
  moreover have "session_ok C E t1" using inv by (simp add: cli_inv_def)
  from store_agent [OF this r(3)] have "valid_name target"
    by (auto simp: mg_put_secret_def ls_put_secret_def res_simps split: option.splits prod.splits sum.splits)
  then have "rchr 10 \<notin> set target" by (auto simp: valid_name_def is_control_def)
  ultimately show ?thesis
    using r(2) view same_holding_session(2) [OF same assms(1)] cli.put_inv [OF inv r(3)] by simp
qed

subsection \<open>An instance\<close>

definition lan_agent_env :: agent_env where
  "lan_agent_env = demo_session_env\<lparr>
     a_req := table_codec [ReqPut demo_token (lit ''k'') [5], ReqGet demo_token (lit ''k''), ReqList demo_token],
     a_resp := table_codec [RespOk, RespSecret (Some [5]), RespSecret None, RespNames []]\<rparr>"

definition lan_cli :: cli_env where
  "lan_cli = demo_cli\<lparr>cl_req := a_req lan_agent_env, cl_resp := a_resp lan_agent_env\<rparr>"

text \<open>The sender's agent holds a secret, the receiver's agent does not.\<close>

definition lan_process :: "local_store \<Rightarrow> process" where
  "lan_process st = process_start (agent_new (manager_new\<lparr>mg_vault := Some st\<rparr>)
     demo_token (lit ''v'') DEFAULT_IDLE 0) demo_files 0"

lemma lan_session: "session_ok lan_cli lan_agent_env (lan_process st)"
  using demo_session_inv
  by (auto simp: cli_inv_def session_ok_def wire_ok_def lan_cli_def lan_agent_env_def table_codec_ok fits_table
      lan_process_def process_start_def clock_touch_def agent_new_def demo_session_def session_token_def)

lemma lan_inv: "cli_inv lan_cli lan_agent_env [1] (lan_process demo_store)"
  using lan_session demo_inv(1)
  by (simp add: cli_inv_def mg_inv_def lan_process_def process_start_def clock_touch_def agent_new_def
      lan_agent_env_def demo_session_env_def demo_manager_env_def)

lemma lan_process_simps:
  "ag_token (pr_agent (lan_process st)) = demo_token" "pr_fs (lan_process st) = demo_files"
  "clock_touch 0 (pr_agent (lan_process st)) = pr_agent (lan_process st)" "pr_now (lan_process st) = 0"
  "ag_manager (pr_agent (lan_process st)) = manager_new\<lparr>mg_vault := Some st\<rparr>"
  "a_manager_env lan_agent_env = demo_manager_env"
  by (simp_all add: lan_process_def process_start_def clock_touch_def agent_new_def lan_agent_env_def demo_session_env_def)

lemma lan_respond:
  assumes "fits (a_req lan_agent_env) req" "resp \<in> {RespOk, RespSecret (Some [5]), RespSecret None, RespNames []}"
    and "handle lan_agent_env c 0 req (pr_agent (lan_process st), demo_files) = ((resp, False), ag', fs')"
  shows "send_request lan_cli (agent_peer lan_agent_env c None) req (lan_process st)
    = (Inr resp, (lan_process st)\<lparr>pr_agent := ag', pr_fs := fs', pr_running := True\<rparr>)"
proof -
  have "fits (a_resp lan_agent_env) resp" using assms(2) by (auto simp: lan_agent_env_def fits_table)
  then obtain w where w: "write_msg (a_resp lan_agent_env) resp (fresh_writer None) = (Inr (), w)" by (auto simp: fits_write)
  have "fst (read_msg (a_resp lan_agent_env) (w_out w)) = Inr resp"
    using lan_session by (intro read_written [OF _ w]) (simp add: session_ok_def wire_ok_def)
  then show ?thesis
    using request_agent [OF lan_session assms(1), of c st resp ag' fs'] assms(3) w by (simp add: lan_process_simps)
qed

lemma lan_fetch:
  "fst (fetch_secret lan_cli (agent_peer lan_agent_env demo_op None) (lit ''k'') (lan_process demo_full)) = Inr [5]"
proof -
  have "mg_get_secret demo_manager_env (manager_new\<lparr>mg_vault := Some demo_full\<rparr>) (lit ''k'') = Inr (Some [5])"
    using local.put_get [OF demo_inv(1) demo_put, where k = "lit ''k''"]
    by (simp add: mg_get_secret_def demo_manager_env_def del: lit_simps)
  then have h: "handle lan_agent_env demo_op 0 (ReqGet demo_token (lit ''k'')) (pr_agent (lan_process demo_full), demo_files)
      = ((RespSecret (Some [5]), False), pr_agent (lan_process demo_full), demo_files)"
    by (subst handle_get) (simp_all add: lan_process_simps del: lit_simps)
  have fit: "fits (a_req lan_agent_env) (ReqGet demo_token (lit ''k''))" by (simp add: lan_agent_env_def fits_table)
  have "session_token lan_cli = Inr demo_token"
    using lan_session [of demo_full] by (simp add: session_ok_def lan_process_simps)
  with lan_respond [OF fit _ h] show ?thesis by (simp add: fetch_secret_def with_session_def del: lit_simps)
qed

lemma lan_store:
  "\<exists>t'. store_received lan_cli (agent_peer lan_agent_env demo_op None) \<lparr>pl_name = lit ''k'', pl_secret = [5]\<rparr> None
      (lan_process demo_store) = (Inr (lit ''k''), t')"
proof -
  let ?p = "lan_process demo_store" and ?P = "agent_peer lan_agent_env demo_op None"
  let ?fs = "demo_files(lit ''v'' \<mapsto> demo_bytes 1, tmp_path (lit ''v'') := None)"
  have tok: "session_token lan_cli = Inr demo_token"
    using lan_session [of demo_store] by (simp add: session_ok_def lan_process_simps)
  have fit: "fits (a_req lan_agent_env) (ReqList demo_token)" "fits (a_req lan_agent_env) (ReqPut demo_token (lit ''k'') [5])"
    by (simp_all add: lan_agent_env_def fits_table)
  have "ls_names demo_vault demo_store = []" by (simp add: ls_names_def demo_vault_def demo_store_def)
  then have h: "handle lan_agent_env demo_op 0 (ReqList demo_token) (pr_agent ?p, demo_files)
      = ((RespNames [], False), pr_agent ?p, demo_files)"
    by (simp add: handle_def lan_process_simps mg_secret_names_def) (simp add: demo_manager_env_def)
  have "?p\<lparr>pr_agent := pr_agent ?p, pr_fs := demo_files, pr_running := True\<rparr> = ?p"
    by (simp add: lan_process_def process_start_def)
  with lan_respond [OF fit(1) _ h] tok have names: "list_names lan_cli ?P ?p = (Inr [], ?p)"
    by (simp add: list_names_def with_session_def)
  have "mg_put_secret demo_manager_env demo_op (lit ''k'') [5] (manager_new\<lparr>mg_vault := Some demo_store\<rparr>, demo_files)
      = (Inr (), manager_new\<lparr>mg_vault := Some demo_full\<rparr>, ?fs)"
    using demo_put [of demo_files] by (simp add: mg_put_secret_def demo_manager_env_def del: lit_simps fun_upd_apply)
  then have "handle lan_agent_env demo_op 0 (ReqPut demo_token (lit ''k'') [5]) (pr_agent ?p, demo_files)
      = ((RespOk, False), (pr_agent ?p)\<lparr>ag_manager := manager_new\<lparr>mg_vault := Some demo_full\<rparr>\<rparr>, ?fs)"
    using handle_put [OF lan_process_simps(1), of lan_agent_env demo_op "lit ''k''" "[5]" demo_store demo_files]
    by (simp add: lan_process_simps del: lit_simps fun_upd_apply)
  from lan_respond [OF fit(2) _ this] tok
  have "\<exists>t'. store_secret lan_cli ?P (lit ''k'') [5] ?p = (Inr (), t')"
    by (simp add: store_secret_def with_session_def del: lit_simps fun_upd_apply)
  with names show ?thesis by (auto simp: store_received_def simp del: lit_simps)
qed

text \<open>The sender's environment and the receiver's, where one connection brings nothing before the sender's.\<close>

definition lan_ack :: rstr where
  "lan_ack = lit ''OK stored '' @ [rchr 39] @ lit ''k'' @ [rchr 39]"

definition lan_sender :: pair_env where
  "lan_sender = demo_pair_env\<lparr>pv_coins := [2], pv_parse_addr := (\<lambda>_. Some False), pv_ack := Inr (lan_ack @ [rchr 10])\<rparr>"

definition lan_conns :: "(rstr + lan_conn) list" where
  "lan_conns = [Inr \<lparr>lc_clone = Inr (), lc_start = 0, lc_events = [(0, ReadEof)]\<rparr>,
     Inr \<lparr>lc_clone = Inr (), lc_start = 0,
        lc_events = map (\<lambda>b. (0, ReadByte b)) (utf8 demo_bundle_text) @ [(0, ReadByte 10)]\<rparr>]"

definition lan_receiver :: pair_env where
  "lan_receiver = demo_pair_env\<lparr>pv_conns := lan_conns\<rparr>"

definition lan_code :: rstr where
  "lan_code = demo_paircode @ lit ''@'' @ fmt_addr (lit ''127.0.0.1'') 7"

lemma lan_code_trim: "trim lan_code = lan_code"
proof (rule trim_id)
  have "show_nat 7 = [rchr 55]" by (simp add: show_nat.simps digit_char_def)
  then have f: "fmt_addr (lit ''127.0.0.1'') 7 = lit ''127.0.0.1'' @ lit '':'' @ [rchr 55]"
    by (simp add: fmt_addr_def ascii_def)
  show "lan_code \<noteq> []" by (simp add: lan_code_def)
  show "\<not> is_whitespace (hd lan_code)"
    by (simp add: lan_code_def demo_paircode_def PAIRCODE_PREFIX_def is_whitespace_def ascii_def)
  have "last lan_code = rchr 55" by (simp add: lan_code_def f del: lit_simps)
  then show "\<not> is_whitespace (last lan_code)" by (simp add: is_whitespace_def)
qed

lemma lan_envs:
  "pv_transfer lan_sender = demo_transfer_env" "pv_transfer lan_receiver = demo_transfer_env"
  "pv_coins lan_sender = [2]" "pv_coins lan_receiver = [1]" "pv_nonce lan_sender = []"
  "pv_conns lan_receiver = lan_conns" "t_crates demo_transfer_env = demo_crates"
  "pv_connect lan_sender a = Inr ()" "pv_send lan_sender = Inr ()" "pv_ack lan_sender = Inr (lan_ack @ [rchr 10])"
  "pv_parse_addr lan_sender a = Some False"
  by (simp_all add: lan_sender_def lan_receiver_def demo_pair_env_def demo_transfer_env_def)

lemma lan_heard: "takeWhile (\<lambda>c. c \<noteq> rchr 10) lan_ack = lan_ack" "trim (lan_ack @ [rchr 10]) = lan_ack"
proof -
  have "rchr 10 \<notin> set (lit ''k'')" by (simp add: ascii_def)
  from stored_line [OF this] show "takeWhile (\<lambda>c. c \<noteq> rchr 10) lan_ack = lan_ack" "trim (lan_ack @ [rchr 10]) = lan_ack"
    by (simp_all add: lan_ack_def del: lit_simps)
qed

lemma lan_send:
  "\<exists>s1. pair_send lan_cli (agent_peer lan_agent_env demo_op None) lan_sender (lit ''k'') (Some lan_code) None None True
      (lan_process demo_full, Map.empty)
    = (Inr [], s1, Map.empty, Some (fmt_addr (lit ''127.0.0.1'') 7, demo_bundle_text, Inr lan_ack))"
proof -
  have var: "code_variant demo_paircode lan_code"
    by (simp add: code_variant_def lan_code_trim) (simp add: lan_code_def)
  have key: "code_key demo_crates lan_code = Inr [1]" "code_key demo_crates demo_paircode = Inr [1]"
    using new_pairing_key [OF demo_crates_ok(6) demo_new_pairing var]
      new_pairing_key [OF demo_crates_ok(6) demo_new_pairing, of demo_paircode]
    by (simp_all add: code_variant_def demo_texts_trim)
  have "seal_for demo_transfer_env [2] [] lan_code (lit ''k'') [5] = Inr demo_bundle_text"
    using demo_seal key by (simp add: seal_for_def lan_envs del: lit_simps)
  moreover obtain s1 where "fetch_secret lan_cli (agent_peer lan_agent_env demo_op None) (lit ''k'') (lan_process demo_full) = (Inr [5], s1)"
    using lan_fetch by (metis prod.collapse)
  moreover have "code_address lan_code = Some (fmt_addr (lit ''127.0.0.1'') 7)"
    using code_address_at [OF demo_crates_ok(6) demo_new_pairing, of lan_code] by (simp add: lan_code_trim) (simp add: lan_code_def)
  ultimately show ?thesis
    using key(1) demo_texts_trim(2) lan_heard(2)
    by (simp add: pair_send_def lan_envs lan_code_trim confirmed_def code_fingerprint_def send_over_tcp_def parse_lan_addr_def
        Let_def del: lit_simps)
qed

subsection \<open>Properties\<close>

text \<open>C12. A transfer over the local network between two agents: the receiver listens and shows its code, the
  sender is given that code and sends. When fewer than twenty other connections came before, the sender's line
  arrives in time, and the receiver confirms and reports success, the receiver's agent returns under the
  name (or that of \<open>--into\<close>) exactly what the sender's agent returned, and every other secret of the receiver is as
  it was. When the line that the receiver then writes back reaches the sender within 30 s, the sender
  reads that it is stored, and under which name, and succeeds; otherwise, as when the receiver's user takes longer
  to confirm, the sender ends in an error although the secret is stored.\<close>

theorem lan_pairing_moves_secret:
  assumes "transfer_law (pv_transfer V)" "pv_transfer U = pv_transfer V"
    and "new_pairing (t_crates (pv_transfer V)) (pv_coins V) = Inr (session, code)"
    and "bind_listener V True port = Inr (Some addr)" "trim peer = code @ lit ''@'' @ addr"
    and "pair_send C (agent_peer F d None) U name (Some peer) None None y (s, fs) = (sr, s1, fs1, Some (a, line, answer))"
    and "validate_secret_name name = Inr ()" "length (utf8 line) < MAX_LAN_READ"
    and "pv_conns V = junk @ Inr cn # rest" "\<forall>c\<in>set junk. stray V session c" "length junk < MAX_ACCEPT_ATTEMPTS"
    and "delivers cn line" "confirmed V y' = Inr True" "cli_inv D E pw t"
    and "pair_receive D (agent_peer E c None) V into None False bundle_in True port y' (t, fsr)
      = Some (Inr target, t', fsr', acks)"
    and "hears U delay (last acks)"
  shows "a = addr \<and> target = (case into of Some n \<Rightarrow> n | None \<Rightarrow> name)
    \<and> fst (fetch_secret D (agent_peer E demo_op None) target t') = fst (fetch_secret C (agent_peer F d None) name s)
    \<and> (\<forall>k. k \<noteq> target \<longrightarrow> cli_view D (agent_peer E demo_op None) t' k = cli_view D (agent_peer E demo_op None) t k)
    \<and> (if delay < SOCKET_TIMEOUT
       then answer = Inr (lit ''OK stored '' @ [rchr 39] @ target @ [rchr 39]) \<and> sr = Inr []
       else \<exists>e. answer = Inl (Transfer (NoAck e)) \<and> sr = Inl (Transfer (NoAck e)))"
proof -
  obtain secret refusals where r: "a = addr" "fst (fetch_secret C (agent_peer F d None) name s) = Inr secret"
      "pair_receive D (agent_peer E c None) V into None False bundle_in True port y' (t, fsr)
        = (case store_received D (agent_peer E c None) \<lparr>pl_name = name, pl_secret = secret\<rparr> into t of
             (r, t') \<Rightarrow> Some (r, t', fsr, refusals @ [stored_ack V r]))"
    and an: "answer = map_ok trim (map_err (Transfer \<circ> NoAck) (pv_ack U))" "sr = map_ok (\<lambda>_. []) answer"
    using lan_transfer [OF assms(1-13), of D "agent_peer E c None" into bundle_in t fsr] by blast
  then have st: "store_received D (agent_peer E c None) \<lparr>pl_name = name, pl_secret = secret\<rparr> into t = (Inr target, t')"
    and ack: "last acks = stored_ack V (Inr target)"
    using assms(15) by (auto split: prod.splits)
  note got = received_is_stored [OF assms(14) st]
  then have "rchr 10 \<notin> set target" by blast
  note line = stored_line [OF this]
  let ?stored = "lit ''OK stored '' @ [rchr 39] @ target @ [rchr 39]"
  have "if delay < SOCKET_TIMEOUT then answer = Inr ?stored \<and> sr = Inr []
      else \<exists>e. answer = Inl (Transfer (NoAck e)) \<and> sr = Inl (Transfer (NoAck e))"
  proof (cases "delay < SOCKET_TIMEOUT")
    case True
    then have "pv_ack U = Inr (?stored @ [rchr 10])"
      using assms(16) line(1) by (simp add: ack stored_ack_def hears_def del: lit_simps)
    then show ?thesis using an line(2) True by (simp add: map_ok_def map_err_def del: lit_simps)
  next
    case False
    then obtain e where "pv_ack U = Inl e" using assms(16) by (cases "pv_ack U") (simp_all add: hears_def)
    then show ?thesis using an False by (simp add: map_ok_def map_err_def)
  qed
  then show ?thesis
    using got r(1,2) by (auto simp del: lit_simps split: option.splits)
qed

theorem lan_pairing_moves_secret_witness:
  "\<exists>s1 t' acks. pair_send lan_cli (agent_peer lan_agent_env demo_op None) lan_sender (lit ''k'') (Some lan_code) None None True
      (lan_process demo_full, Map.empty)
      = (Inr [], s1, Map.empty, Some (fmt_addr (lit ''127.0.0.1'') 7, demo_bundle_text, Inr lan_ack))
    \<and> pair_receive lan_cli (agent_peer lan_agent_env demo_op None) lan_receiver None None False None True 0 True
      (lan_process demo_store, Map.empty) = Some (Inr (lit ''k''), t', Map.empty, acks)
    \<and> hears lan_sender 5 (last acks)
    \<and> fst (fetch_secret lan_cli (agent_peer lan_agent_env demo_op None) (lit ''k'') t') = Inr [5]"
proof -
  let ?A = "agent_peer lan_agent_env demo_op None" and ?addr = "fmt_addr (lit ''127.0.0.1'') 7" and ?k = "lit ''k''"
    and ?s = "\<lparr>ps_encryptor = \<lparr>en_public = [1], en_secret = [1]\<rparr>\<rparr>" and ?cn = "\<lparr>lc_clone = Inr (), lc_start = 0,
        lc_events = map (\<lambda>b. (0, ReadByte b)) (utf8 demo_bundle_text) @ [(0, ReadByte 10)]\<rparr>"
  let ?junk = "Inr \<lparr>lc_clone = Inr (), lc_start = 0, lc_events = [(0, ReadEof)]\<rparr>"
  obtain s1 where send: "pair_send lan_cli ?A lan_sender ?k (Some lan_code) None None True (lan_process demo_full, Map.empty)
      = (Inr [], s1, Map.empty, Some (?addr, demo_bundle_text, Inr lan_ack))"
    using lan_send by blast
  have law: "transfer_law (pv_transfer lan_receiver)" "pv_transfer lan_sender = pv_transfer lan_receiver"
    using demo_transfer_law by (simp_all add: lan_envs)
  have np: "new_pairing (t_crates (pv_transfer lan_receiver)) (pv_coins lan_receiver) = Inr (?s, demo_paircode)"
    using demo_new_pairing by (simp add: lan_envs)
  have bind: "bind_listener lan_receiver True 0 = Inr (Some ?addr)"
    by (simp add: bind_listener_def local_lan_ip_def probe_src_def lan_receiver_def demo_pair_env_def Let_def del: lit_simps)
  have peer: "trim lan_code = demo_paircode @ lit ''@'' @ ?addr" unfolding lan_code_trim by (simp add: lan_code_def)
  have name: "validate_secret_name ?k = Inr ()" by (simp add: valid_name_def is_control_def ascii_def encode_utf8_ascii)
  have len: "length (utf8 demo_bundle_text) < MAX_LAN_READ"
    by (simp add: demo_bundle_text_def BUNDLE_PREFIX_def demo_b64_encode_def MAX_LAN_READ_def encode_utf8_ascii ascii_def)
  have conns: "pv_conns lan_receiver = [?junk] @ Inr ?cn # []" by (simp add: lan_envs lan_conns_def)
  have "open_transfer demo_transfer_env ?s [] = Inl (Transfer NotABundle)"
    by (simp add: open_transfer_def BUNDLE_PREFIX_def MAX_BUNDLE_LEN_def)
  then have stray: "\<forall>c\<in>set [?junk]. stray lan_receiver ?s c"
    by (simp add: stray_def read_line_bounded_def RECEIVE_DEADLINE_def MAX_LAN_READ_def lan_envs)
  have few: "length [?junk] < MAX_ACCEPT_ATTEMPTS" by (simp add: MAX_ACCEPT_ATTEMPTS_def)
  have del: "delivers ?cn demo_bundle_text"
    by (simp add: delivers_def RECEIVE_DEADLINE_def list_all_iff comp_def filter_map)
  have yes: "confirmed lan_receiver True = Inr True" by (simp add: confirmed_def)
  obtain t' where t': "store_received lan_cli ?A \<lparr>pl_name = ?k, pl_secret = [5]\<rparr> None (lan_process demo_store) = (Inr ?k, t')"
    using lan_store by blast
  obtain refusals where run: "pair_receive lan_cli ?A lan_receiver None None False None True 0 True (lan_process demo_store, Map.empty)
      = Some (Inr ?k, t', Map.empty, refusals @ [stored_ack lan_receiver (Inr ?k)])"
    using lan_transfer [OF law np bind peer send name len conns stray few del yes, of lan_cli ?A None None
        "lan_process demo_store" Map.empty] lan_fetch t' by auto
  have "stored_ack lan_receiver (Inr ?k) = lan_ack" by (simp add: stored_ack_def lan_ack_def del: lit_simps)
  then have hears: "hears lan_sender 5 (last (refusals @ [stored_ack lan_receiver (Inr ?k)]))"
    by (simp add: hears_def lan_heard(1) lan_envs SOCKET_TIMEOUT_def)
  from lan_pairing_moves_secret [OF law np bind peer send name len conns stray few del yes lan_inv run hears] lan_fetch
  have "fst (fetch_secret lan_cli ?A ?k t') = Inr [5]" by (simp del: lit_simps)
  with send run hears show ?thesis by blast
qed

end
