(* ===== verification/Editor.thy ===== *)
theory Editor
  imports Rust_Str
begin

text \<open>
  \<open>src/ui/editor.rs\<close>: the editor for one secret value, a buffer of fixed capacity in locked memory and
  the number of bytes in use. Allocating the buffer and borrowing its bytes succeed. The lemmas show
  that the buffer behaves like a text with a bounded encoding, and that the bytes beyond the text are
  always zero.
\<close>

definition CAPACITY :: nat where
  "CAPACITY = 64 * 1024"

record editor =
  ed_buf :: bytes
  ed_len :: nat

definition editor_from_bytes :: "bytes \<Rightarrow> editor" where
  "editor_from_bytes init =
     (let n = min (length init) CAPACITY in
      \<lparr>ed_buf = take n init @ replicate (CAPACITY - n) 0, ed_len = n\<rparr>)"

definition editor_new :: editor where
  "editor_new = editor_from_bytes []"

definition as_bytes :: "editor \<Rightarrow> bytes" where
  "as_bytes ed = take (ed_len ed) (ed_buf ed)"

text \<open>\<open>slice[a..b].copy_from_slice(bs)\<close>, with \<open>b = a + bs.len()\<close>.\<close>

definition overwrite :: "nat \<Rightarrow> bytes \<Rightarrow> bytes \<Rightarrow> bytes" where
  "overwrite a bs buf = take a buf @ bs @ drop (a + length bs) buf"

definition push_char :: "rchar \<Rightarrow> editor \<Rightarrow> editor" where
  "push_char c ed =
     (let bs = encode_utf8 c in
      if ed_len ed + length bs > CAPACITY then ed
      else ed\<lparr>ed_buf := overwrite (ed_len ed) bs (ed_buf ed), ed_len := ed_len ed + length bs\<rparr>)"

text \<open>The loop over continuation bytes, from index \<open>i\<close> down.\<close>

fun back_loop :: "bytes \<Rightarrow> nat \<Rightarrow> nat" where
  "back_loop buf 0 = 0"
| "back_loop buf (Suc i) =
     (if (buf ! Suc i AND 0xC0) = 0x80 then back_loop buf i else Suc i)"

definition backspace :: "editor \<Rightarrow> editor" where
  "backspace ed =
     (if ed_len ed = 0 then ed
      else
        let new_len = back_loop (ed_buf ed) (ed_len ed - 1) in
        ed\<lparr>ed_buf := overwrite new_len (replicate (ed_len ed - new_len) 0) (ed_buf ed), ed_len := new_len\<rparr>)"

definition display :: "editor \<Rightarrow> rstr" where
  "display ed = from_utf8_lossy (as_bytes ed)"

subsection \<open>The buffer\<close>

definition editor_inv :: "editor \<Rightarrow> bool" where
  "editor_inv ed \<longleftrightarrow> length (ed_buf ed) = CAPACITY \<and> ed_len ed \<le> CAPACITY
     \<and> drop (ed_len ed) (ed_buf ed) = replicate (CAPACITY - ed_len ed) 0"

lemma as_bytes_from_bytes: "as_bytes (editor_from_bytes init) = take CAPACITY init"
  by (simp add: as_bytes_def editor_from_bytes_def Let_def min_def)

lemma editor_from_bytes_inv: "editor_inv (editor_from_bytes init)"
  by (simp add: editor_inv_def editor_from_bytes_def Let_def min_def)

lemma editor_new_simps [simp]: "ed_len editor_new = 0" "editor_inv editor_new" "as_bytes editor_new = []"
proof -
  show "editor_inv editor_new" unfolding editor_new_def by (rule editor_from_bytes_inv)
  show "ed_len editor_new = 0" by (simp add: editor_new_def editor_from_bytes_def Let_def)
  show "as_bytes editor_new = []" unfolding editor_new_def as_bytes_from_bytes by simp
qed

lemma editor_inv_length: "editor_inv ed \<Longrightarrow> length (as_bytes ed) = ed_len ed"
  by (simp add: editor_inv_def as_bytes_def)

text \<open>An editor that holds \<open>bs\<close> is determined by it.\<close>

definition holding :: "bytes \<Rightarrow> editor \<Rightarrow> bool" where
  "holding bs ed \<longleftrightarrow> length bs \<le> CAPACITY \<and> ed_len ed = length bs
     \<and> ed_buf ed = bs @ replicate (CAPACITY - length bs) 0"

lemma holding_iff: "holding bs ed \<longleftrightarrow> editor_inv ed \<and> as_bytes ed = bs"
proof
  assume h: "holding bs ed"
  then have "as_bytes ed = bs" by (simp add: holding_def as_bytes_def)
  with h show "editor_inv ed \<and> as_bytes ed = bs" by (simp add: holding_def editor_inv_def)
next
  assume "editor_inv ed \<and> as_bytes ed = bs"
  then have i: "editor_inv ed" "as_bytes ed = bs" by simp_all
  then have "ed_buf ed = bs @ replicate (CAPACITY - ed_len ed) 0"
    unfolding editor_inv_def as_bytes_def by (metis append_take_drop_id)
  then show "holding bs ed"
    using i editor_inv_length [OF i(1)] by (simp add: holding_def editor_inv_def)
qed

lemma push_char_holding:
  assumes "holding bs ed"
  shows "holding (if length bs + length (encode_utf8 c) > CAPACITY then bs else bs @ encode_utf8 c) (push_char c ed)"
proof -
  have "replicate (CAPACITY - length bs - length (encode_utf8 c)) (0 :: byte)
      = drop (length (encode_utf8 c)) (replicate (CAPACITY - length bs) 0)"
    by simp
  with assms show ?thesis by (auto simp: holding_def push_char_def overwrite_def Let_def)
qed

lemma is_cont_as_u8: "k < 256 \<Longrightarrow> is_cont (as_u8 k) \<longleftrightarrow> 0x80 \<le> k \<and> k < 0xC0"
  by (simp add: is_cont_def)

lemma encode_utf8_shape:
  obtains b bs where "encode_utf8 c = b # bs" "\<not> is_cont b" "\<forall>x\<in>set bs. is_cont x"
proof -
  define n where "n = code_point c"
  have lt: "n < 0x110000" by (simp add: n_def code_point_less)
  have cont: "is_cont (as_u8 (0x80 + k mod 64))" for k by (simp add: is_cont_as_u8)
  consider "n < 0x80" | "0x80 \<le> n" "n < 0x800" | "0x800 \<le> n" "n < 0x10000" | "0x10000 \<le> n" by linarith
  then show thesis
  proof cases
    case 1
    then show thesis by (intro that [of "as_u8 n" "[]"]) (simp_all add: encode_utf8_def is_cont_as_u8 flip: n_def)
  next
    case 2
    then have "n div 64 < 32" by linarith
    with 2 cont [of n] show thesis
      by (intro that [of "as_u8 (0xC0 + n div 64)" "[as_u8 (0x80 + n mod 64)]"]) (simp_all add: encode_utf8_def is_cont_as_u8 Let_def flip: n_def)
  next
    case 3
    then have "n div 4096 < 16" by linarith
    with 3 cont show thesis
      by (intro that [of "as_u8 (0xE0 + n div 4096)" "[as_u8 (0x80 + n div 64 mod 64), as_u8 (0x80 + n mod 64)]"]) (simp_all add: encode_utf8_def is_cont_as_u8 Let_def flip: n_def)
  next
    case 4
    with lt have "n div 262144 < 8" by linarith
    with 4 cont show thesis
      by (intro that [of "as_u8 (0xF0 + n div 262144)"
        "[as_u8 (0x80 + n div 4096 mod 64), as_u8 (0x80 + n div 64 mod 64), as_u8 (0x80 + n mod 64)]"]) (simp_all add: encode_utf8_def is_cont_as_u8 Let_def flip: n_def)
  qed
qed

lemma back_loop_stop:
  "\<forall>j. a < j \<and> j \<le> i \<longrightarrow> is_cont (buf ! j) \<Longrightarrow> a \<le> i \<Longrightarrow> \<not> is_cont (buf ! a) \<Longrightarrow> back_loop buf i = a"
proof (induction i)
  case 0
  then show ?case by simp
next
  case (Suc i)
  then show ?case by (cases "a = Suc i") (auto simp: is_cont_mask)
qed

lemma backspace_holding:
  assumes "holding (utf8 (s @ [c])) ed"
  shows "holding (utf8 s) (backspace ed)"
proof -
  obtain b bs where e: "encode_utf8 c = b # bs" "\<not> is_cont b" "\<forall>x\<in>set bs. is_cont x"
    by (rule encode_utf8_shape)
  let ?s = "utf8 s" and ?r = "replicate (CAPACITY - length (utf8 (s @ [c]))) (0 :: byte)"
  have buf: "ed_buf ed = ?s @ b # bs @ ?r" and len: "ed_len ed = Suc (length ?s + length bs)"
    and cap: "Suc (length ?s + length bs) \<le> CAPACITY"
    using assms e(1) by (simp_all add: holding_def)
  have "back_loop (ed_buf ed) (ed_len ed - 1) = length ?s"
  proof (rule back_loop_stop)
    show "\<not> is_cont (ed_buf ed ! length ?s)" using e(2) by (simp add: buf)
    show "\<forall>j. length ?s < j \<and> j \<le> ed_len ed - 1 \<longrightarrow> is_cont (ed_buf ed ! j)"
    proof (intro allI impI, elim conjE)
      fix j assume j: "length ?s < j" "j \<le> ed_len ed - 1"
      have i: "j - Suc (length ?s) < length bs" using j len by linarith
      have "ed_buf ed = (?s @ [b]) @ bs @ ?r" by (simp only: buf append_assoc append_Cons append_Nil)
      then have "ed_buf ed ! j = (bs @ ?r) ! (j - Suc (length ?s))"
        using j(1) by (simp only: nth_append length_append_singleton) simp
      then have "ed_buf ed ! j = bs ! (j - Suc (length ?s))" using i by (simp only: nth_append if_True)
      then show "is_cont (ed_buf ed ! j)" using e(3) i by simp
    qed
  qed (simp add: len)
  moreover have "replicate (Suc (length bs)) (0 :: byte) @ ?r = replicate (CAPACITY - length ?s) 0"
    using cap e(1) by (simp add: replicate_add [symmetric] flip: replicate_Suc)
  ultimately show ?thesis
    using cap by (simp add: holding_def backspace_def len overwrite_def Let_def buf)
qed

lemma backspace_empty: "holding [] ed \<Longrightarrow> backspace ed = ed"
  by (simp add: backspace_def holding_def)

text \<open>On any contents, text or not, \<open>backspace\<close> keeps the buffer in order.\<close>

lemma back_loop_le: "back_loop buf i \<le> i"
  by (induction i) auto

lemma backspace_inv: "editor_inv ed \<Longrightarrow> editor_inv (backspace ed)"
proof (cases "ed_len ed = 0")
  case True
  then show "editor_inv ed \<Longrightarrow> ?thesis" by (simp add: backspace_def)
next
  case False
  assume "editor_inv ed"
  then have h: "holding (as_bytes ed) ed" by (simp add: holding_iff)
  let ?n = "back_loop (ed_buf ed) (ed_len ed - 1)" and ?bs = "as_bytes ed"
  have n: "?n \<le> ed_len ed" using back_loop_le [of "ed_buf ed" "ed_len ed - 1"] by linarith
  have "replicate (ed_len ed - ?n) (0 :: byte) @ replicate (CAPACITY - ed_len ed) 0 = replicate (CAPACITY - ?n) 0"
    using n h by (simp add: holding_def flip: replicate_add)
  then have "holding (take ?n ?bs) (backspace ed)"
    using n h False by (simp add: holding_def backspace_def overwrite_def Let_def)
  then show ?thesis by (simp add: holding_iff)
qed

lemma push_char_inv: "editor_inv ed \<Longrightarrow> editor_inv (push_char c ed)"
  using push_char_holding [of "as_bytes ed" ed c] by (simp add: holding_iff)

subsection \<open>A bounded text\<close>

datatype edit = Push rchar | Back

fun edit_step :: "edit \<Rightarrow> editor \<Rightarrow> editor" where
  "edit_step (Push c) ed = push_char c ed"
| "edit_step Back ed = backspace ed"

fun text_step :: "edit \<Rightarrow> rstr \<Rightarrow> rstr" where
  "text_step (Push c) s = (if length (utf8 (s @ [c])) > CAPACITY then s else s @ [c])"
| "text_step Back s = butlast s"

lemma edit_step_holding: "holding (utf8 s) ed \<Longrightarrow> holding (utf8 (text_step e s)) (edit_step e ed)"
proof (cases e)
  case (Push c)
  assume "holding (utf8 s) ed"
  from push_char_holding [OF this, of c] Push show ?thesis by (auto split: if_splits)
next
  case Back
  assume h: "holding (utf8 s) ed"
  show ?thesis
  proof (cases s rule: rev_cases)
    case Nil
    with h Back show ?thesis by (simp add: backspace_empty)
  next
    case (snoc t c)
    with h Back backspace_holding [of t c ed] show ?thesis by simp
  qed
qed

lemma edits_holding:
  "holding (utf8 s) ed \<Longrightarrow> holding (utf8 (fold text_step es s)) (fold edit_step es ed)"
  by (induction es arbitrary: s ed) (simp_all add: edit_step_holding)

subsection \<open>Properties\<close>

text \<open>C26. The editor implements a text: starting from a text that fits, any sequence of typed characters
  and backspaces leaves in the buffer exactly the UTF-8 of the text those keys produce (a character
  that does not fit being ignored, and backspace removing a whole character), it is displayed as
  that text, and every byte of the buffer beyond it is zero, so nothing erased lingers.\<close>

theorem editor_implements_text:
  assumes "length (utf8 s) \<le> CAPACITY"
  shows "let ed = fold edit_step es (editor_from_bytes (utf8 s)); s' = fold text_step es s in
    as_bytes ed = utf8 s' \<and> display ed = s'
    \<and> drop (ed_len ed) (ed_buf ed) = replicate (CAPACITY - length (utf8 s')) 0"
proof -
  have "holding (utf8 s) (editor_from_bytes (utf8 s))"
    using assms by (simp add: holding_iff editor_from_bytes_inv as_bytes_from_bytes)
  from edits_holding [OF this, of es] show ?thesis
    by (auto simp: Let_def display_def holding_def as_bytes_def)
qed

theorem editor_implements_text_witness:
  "as_bytes (fold edit_step [Push (rchr 0x20AC), Push (rchr 66), Back, Back, Push (rchr 67)]
     (editor_from_bytes (utf8 [rchr 65]))) = [65, 67]"
proof -
  have "length (utf8 [rchr 65]) \<le> CAPACITY" by (simp add: CAPACITY_def encode_utf8_ascii)
  from editor_implements_text [OF this, of "[Push (rchr 0x20AC), Push (rchr 66), Back, Back, Push (rchr 67)]"]
  show ?thesis
    by (simp add: Let_def CAPACITY_def encode_utf8_def code_point_rchr scalar_def as_u8_def)
qed

end
