(* ===== verification/Clipboard.thy ===== *)
theory Clipboard
  imports Errors StepSystem
begin

text \<open>
  \<open>src/ui/clipboard.rs\<close>: copying a value with the first clipboard tool that works, and clearing it after
  15 seconds. What happens with a tool is \<open>clip_tool\<close>. The threads that clear and everything else that
  writes to the clipboard are the step relation \<open>clip_step\<close>; times are milliseconds.
\<close>

definition CLEAR_AFTER :: nat where
  "CLEAR_AFTER = 15 * 1000"

definition CANDIDATES :: "rstr list list" where
  "CANDIDATES =
     [[lit ''pbcopy''], [lit ''wl-copy''], [lit ''xclip'', lit ''-selection'', lit ''clipboard''],
      [lit ''xsel'', lit ''-b'', lit ''-i'']]"

record clip_tool =
  ct_spawn :: "rstr + unit"
  ct_stdin :: bool
  ct_write :: "bytes \<Rightarrow> rstr + unit"
  ct_wait :: "rstr + unit"

definition spawn_write :: "(rstr list \<Rightarrow> clip_tool) \<Rightarrow> rstr list \<Rightarrow> bytes \<Rightarrow> rstr + unit" where
  "spawn_write tools cmd data =
     and_then (ct_spawn (tools cmd)) (\<lambda>_.
     and_then (guard_res (ct_stdin (tools cmd)) (lit ''clipboard tool has no stdin'')) (\<lambda>_.
     and_then (ct_write (tools cmd) data) (\<lambda>_.
     and_then (ct_wait (tools cmd)) (\<lambda>_. Inr ()))))"

definition write_clipboard :: "(rstr list \<Rightarrow> clip_tool) \<Rightarrow> bytes \<Rightarrow> rstr list option" where
  "write_clipboard tools data = find (\<lambda>cmd. is_ok (spawn_write tools cmd data)) CANDIDATES"

text \<open>The command with which the thread that was started will clear the clipboard; \<open>None\<close> is the one error.\<close>

definition copy_with_autoclear :: "(rstr list \<Rightarrow> clip_tool) \<Rightarrow> bytes \<Rightarrow> rstr list option" where
  "copy_with_autoclear tools data = write_clipboard tools data"

subsection \<open>The life of a copy\<close>

text \<open>
  The content of the clipboard, and the time at which it was put there if it is a copy of this program;
  the threads that sleep, each with the earliest end of its sleep and its command; and the ends of the sleeps
  after which a thread ran its tool without effect. An outsider is any other program or user that copies
  something. The threads end with the program.

  The program does not look at the exit status of a tool: one that could be started, fed and waited for
  counts as having worked, but may have left the clipboard as it was, both when a secret is copied and when
  it is cleared. One that could not is taken to have left it as it was. A sleep may last longer than asked
  for, so time passes freely; a thread that is due runs at some later time.
\<close>

record clip =
  cb_now :: nat
  cb_content :: bytes
  cb_copied :: "nat option"
  cb_threads :: "(nat \<times> rstr list) list"
  cb_missed :: "nat list"
  cb_running :: bool

definition start_thread :: "rstr list \<Rightarrow> clip \<Rightarrow> clip" where
  "start_thread cmd s = s\<lparr>cb_threads := cb_threads s @ [(cb_now s + CLEAR_AFTER, cmd)]\<rparr>"

inductive clip_step :: "(rstr list \<Rightarrow> clip_tool) \<Rightarrow> clip \<Rightarrow> clip \<Rightarrow> bool" for tools where
  copy: "cb_running s \<Longrightarrow> copy_with_autoclear tools data = Some cmd \<Longrightarrow>
    clip_step tools s (start_thread cmd (s\<lparr>cb_content := data, cb_copied := Some (cb_now s)\<rparr>))"
| copy_ignored: "cb_running s \<Longrightarrow> copy_with_autoclear tools data = Some cmd \<Longrightarrow>
    clip_step tools s (start_thread cmd s)"
| clear: "(due, cmd) \<in> set (cb_threads s) \<Longrightarrow> due \<le> cb_now s \<Longrightarrow> is_ok (spawn_write tools cmd []) \<Longrightarrow>
    clip_step tools s (s\<lparr>cb_content := [], cb_copied := None, cb_threads := remove1 (due, cmd) (cb_threads s)\<rparr>)"
| clear_missed: "(due, cmd) \<in> set (cb_threads s) \<Longrightarrow> due \<le> cb_now s \<Longrightarrow>
    clip_step tools s (s\<lparr>cb_threads := remove1 (due, cmd) (cb_threads s), cb_missed := due # cb_missed s\<rparr>)"
| quit: "clip_step tools s (s\<lparr>cb_running := False, cb_threads := []\<rparr>)"
| outsider: "clip_step tools s (s\<lparr>cb_content := data, cb_copied := None\<rparr>)"
| time_passes: "cb_now s \<le> t \<Longrightarrow> clip_step tools s (s\<lparr>cb_now := t\<rparr>)"

inductive_cases clip_stepE: "clip_step tools s s'"

text \<open>While the program runs, a copy that is still there has its thread, unless this one has run in vain.\<close>

definition clip_inv :: "clip \<Rightarrow> bool" where
  "clip_inv s \<longleftrightarrow>
     (\<forall>due\<in>set (cb_missed s). due \<le> cb_now s) \<and> (\<forall>(due, cmd)\<in>set (cb_threads s). cmd \<in> set CANDIDATES)
     \<and> (\<forall>t. cb_running s \<longrightarrow> cb_copied s = Some t \<longrightarrow>
          t \<le> cb_now s \<and> (t + CLEAR_AFTER \<in> set (cb_missed s) \<or> (\<exists>cmd. (t + CLEAR_AFTER, cmd) \<in> set (cb_threads s))))"

lemma copy_works: "copy_with_autoclear tools data = Some cmd \<Longrightarrow> is_ok (spawn_write tools cmd data) \<and> cmd \<in> set CANDIDATES"
  by (auto simp: copy_with_autoclear_def write_clipboard_def find_Some_iff)

lemma set_remove1_other: "x \<in> set xs \<Longrightarrow> x \<noteq> y \<Longrightarrow> x \<in> set (remove1 y xs)"
  by simp

lemma clip_inv_step:
  assumes "clip_step tools s s'" "clip_inv s"
  shows "clip_inv s'"
  using assms(1)
proof cases
  case (copy data cmd)
  with assms(2) copy_works [OF copy(3)] show ?thesis by (auto simp: clip_inv_def start_thread_def)
next
  case (copy_ignored data cmd)
  with assms(2) copy_works [OF copy_ignored(3)] show ?thesis by (auto simp: clip_inv_def start_thread_def)
next
  case (clear due cmd)
  with assms(2) show ?thesis by (auto simp: clip_inv_def dest: set_remove1_subset [THEN subsetD])
next
  case (clear_missed due cmd)
  have "(t + CLEAR_AFTER = due \<or> t + CLEAR_AFTER \<in> set (cb_missed s))
      \<or> (\<exists>cmd'. (t + CLEAR_AFTER, cmd') \<in> set (remove1 (due, cmd) (cb_threads s)))"
    if running: "cb_running s" "cb_copied s = Some t" for t
  proof -
    consider "t + CLEAR_AFTER \<in> set (cb_missed s)" | cmd' where "(t + CLEAR_AFTER, cmd') \<in> set (cb_threads s)"
      using assms(2) running unfolding clip_inv_def by blast
    then show ?thesis
    proof cases
      case 2
      then show ?thesis
        using set_remove1_other [of "(t + CLEAR_AFTER, cmd')" "cb_threads s" "(due, cmd)"] by blast
    qed simp
  qed
  with clear_missed assms(2) show ?thesis by (auto simp: clip_inv_def dest: set_remove1_subset [THEN subsetD])
qed (use assms(2) in \<open>auto simp: clip_inv_def\<close>)

interpretation clipping: step_invariant "clip_step tools" clip_inv for tools
  by unfold_locales (rule clip_inv_step)

definition clip_start :: clip where
  "clip_start = \<lparr>cb_now = 0, cb_content = [], cb_copied = None, cb_threads = [], cb_missed = [], cb_running = True\<rparr>"

lemma clip_inv_start: "clip_inv clip_start"
  by (simp add: clip_inv_def clip_start_def)

text \<open>A waiting thread with a tool that clears empties the clipboard at the end of its sleep, or at once.\<close>

lemma thread_clears:
  assumes "(due, cmd) \<in> set (cb_threads s)" "is_ok (spawn_write tools cmd [])"
  shows "\<exists>s'. (clip_step tools)\<^sup>*\<^sup>* s s' \<and> cb_content s' = [] \<and> cb_now s' = max (cb_now s) due"
proof -
  let ?s1 = "s\<lparr>cb_now := max (cb_now s) due\<rparr>"
  have "clip_step tools s ?s1" by (rule time_passes) simp
  moreover have "clip_step tools ?s1 (?s1\<lparr>cb_content := [], cb_copied := None, cb_threads := remove1 (due, cmd) (cb_threads ?s1)\<rparr>)"
    by (rule clear) (use assms in simp_all)
  ultimately show ?thesis by (intro exI conjI) (rule rtranclp.rtrancl_into_rtrancl [OF r_into_rtranclp], assumption+, simp_all)
qed

text \<open>A thread does not know what it clears: whatever was copied meanwhile goes with it, even the next
  secret, a moment after it was copied.\<close>

lemma clear_hits_later_copy:
  assumes "copy_with_autoclear tools v = Some cmd" "copy_with_autoclear tools w = Some cmd" "is_ok (spawn_write tools cmd [])"
    and "d \<le> CLEAR_AFTER"
  shows "\<exists>s s'. (clip_step tools)\<^sup>*\<^sup>* clip_start s \<and> cb_copied s = Some d \<and> cb_content s = w
    \<and> (clip_step tools)\<^sup>*\<^sup>* s s' \<and> cb_now s' = CLEAR_AFTER \<and> cb_content s' = []"
proof -
  let ?a = "start_thread cmd (clip_start\<lparr>cb_content := v, cb_copied := Some (cb_now clip_start)\<rparr>)"
  let ?b = "?a\<lparr>cb_now := d\<rparr>"
  let ?c = "start_thread cmd (?b\<lparr>cb_content := w, cb_copied := Some (cb_now ?b)\<rparr>)"
  have "clip_step tools clip_start ?a" using copy [OF _ assms(1), of clip_start] by (simp add: clip_start_def)
  moreover have "clip_step tools ?a ?b" by (rule time_passes) (simp add: start_thread_def clip_start_def)
  moreover have "clip_step tools ?b ?c" using copy [OF _ assms(2), of ?b] by (simp add: start_thread_def clip_start_def)
  ultimately have "(clip_step tools)\<^sup>*\<^sup>* clip_start ?c"
    by (meson rtranclp.rtrancl_into_rtrancl rtranclp.rtrancl_refl)
  moreover have "(CLEAR_AFTER, cmd) \<in> set (cb_threads ?c)" by (simp add: start_thread_def clip_start_def)
  then obtain s' where "(clip_step tools)\<^sup>*\<^sup>* ?c s'" "cb_content s' = []" "cb_now s' = max (cb_now ?c) CLEAR_AFTER"
    using thread_clears [OF _ assms(3)] by blast
  ultimately show ?thesis
    using assms(4) by (intro exI [of _ ?c] exI [of _ s']) (simp add: start_thread_def clip_start_def)
qed

text \<open>What was copied within the last 15 seconds of the program stays in the clipboard after it.\<close>

lemma quit_leaves_copy:
  assumes "copy_with_autoclear tools v = Some cmd"
  shows "\<exists>s. (clip_step tools)\<^sup>*\<^sup>* clip_start s \<and> cb_now s = now \<and> cb_content s = v \<and> cb_threads s = []"
proof -
  let ?a = "start_thread cmd (clip_start\<lparr>cb_content := v, cb_copied := Some (cb_now clip_start)\<rparr>)"
  let ?b = "?a\<lparr>cb_running := False, cb_threads := []\<rparr>"
  have "clip_step tools clip_start ?a" using copy [OF _ assms, of clip_start] by (simp add: clip_start_def)
  moreover have "clip_step tools ?a ?b" by (rule quit)
  moreover have "clip_step tools ?b (?b\<lparr>cb_now := now\<rparr>)" by (rule time_passes) (simp add: start_thread_def clip_start_def)
  ultimately have "(clip_step tools)\<^sup>*\<^sup>* clip_start (?b\<lparr>cb_now := now\<rparr>)"
    by (meson rtranclp.rtrancl_into_rtrancl rtranclp.rtrancl_refl)
  then show ?thesis by (intro exI [of _ "?b\<lparr>cb_now := now\<rparr>"]) (simp add: start_thread_def clip_start_def)
qed

text \<open>A tool that exits with an error when it should clear leaves the copy for good; nobody tries again.\<close>

lemma missed_clear_leaves_copy:
  assumes "copy_with_autoclear tools v = Some cmd"
  shows "\<exists>s. (clip_step tools)\<^sup>*\<^sup>* clip_start s \<and> cb_running s \<and> cb_content s = v \<and> cb_threads s = [] \<and> now \<le> cb_now s"
proof -
  let ?a = "start_thread cmd (clip_start\<lparr>cb_content := v, cb_copied := Some (cb_now clip_start)\<rparr>)"
  let ?b = "?a\<lparr>cb_now := max now CLEAR_AFTER\<rparr>"
  let ?c = "?b\<lparr>cb_threads := remove1 (CLEAR_AFTER, cmd) (cb_threads ?b), cb_missed := CLEAR_AFTER # cb_missed ?b\<rparr>"
  have "clip_step tools clip_start ?a" using copy [OF _ assms, of clip_start] by (simp add: clip_start_def)
  moreover have "clip_step tools ?a ?b" by (rule time_passes) (simp add: start_thread_def clip_start_def)
  moreover have "clip_step tools ?b ?c" by (rule clear_missed) (simp_all add: start_thread_def clip_start_def)
  ultimately have "(clip_step tools)\<^sup>*\<^sup>* clip_start ?c"
    by (meson rtranclp.rtrancl_into_rtrancl rtranclp.rtrancl_refl)
  then show ?thesis by (intro exI [of _ ?c]) (simp add: start_thread_def clip_start_def)
qed

subsection \<open>Properties\<close>

text \<open>C30. While the program runs, a copied secret is not forgotten: in whatever order copies, clearings and copies by other
  programs happen, however long the threads oversleep and whether or not the tools do what they should, for
  a copy that is still in the clipboard there is a thread, due 15 seconds after the copy, that runs a clipboard tool with
  the empty text, and once its sleep is over this can empty the clipboard; the only other case is that this thread has
  run already, not before the 15 seconds were over, and its tool had no effect.\<close>

theorem copies_are_cleared:
  assumes "(clip_step tools)\<^sup>*\<^sup>* clip_start s" "cb_running s" "cb_copied s = Some t"
  shows "(t + 15 * 1000 \<in> set (cb_missed s) \<and> t + 15 * 1000 \<le> cb_now s)
    \<or> (\<exists>cmd\<in>set CANDIDATES. (t + 15 * 1000, cmd) \<in> set (cb_threads s)
        \<and> (is_ok (spawn_write tools cmd []) \<longrightarrow>
             (\<exists>s'. (clip_step tools)\<^sup>*\<^sup>* s s' \<and> cb_content s' = [] \<and> cb_now s' = max (cb_now s) (t + 15 * 1000))))"
  using clipping.inv_run [OF assms(1) clip_inv_start] assms(2,3) thread_clears [of "t + 15 * 1000" _ s tools]
  by (fastforce simp: clip_inv_def CLEAR_AFTER_def)

definition demo_tool :: clip_tool where
  "demo_tool = \<lparr>ct_spawn = Inr (), ct_stdin = True, ct_write = (\<lambda>_. Inr ()), ct_wait = Inr ()\<rparr>"

theorem copies_are_cleared_witness:
  "\<exists>s s'. (clip_step (\<lambda>_. demo_tool))\<^sup>*\<^sup>* clip_start s \<and> cb_copied s = Some 0 \<and> cb_content s = [5]
    \<and> (clip_step (\<lambda>_. demo_tool))\<^sup>*\<^sup>* s s' \<and> cb_content s' = [] \<and> cb_now s' = 15000"
proof -
  let ?s = "start_thread [lit ''pbcopy''] (clip_start\<lparr>cb_content := [5], cb_copied := Some (cb_now clip_start)\<rparr>)"
  have ok: "spawn_write (\<lambda>_. demo_tool) cmd data = Inr ()" for cmd data
    by (simp add: spawn_write_def demo_tool_def)
  have "copy_with_autoclear (\<lambda>_. demo_tool) [5] = Some [lit ''pbcopy'']"
    by (simp add: copy_with_autoclear_def write_clipboard_def CANDIDATES_def ok del: lit_simps)
  from copy [OF _ this, of clip_start] have run: "(clip_step (\<lambda>_. demo_tool))\<^sup>*\<^sup>* clip_start ?s"
    by (simp add: clip_start_def del: lit_simps)
  have s: "cb_now ?s = 0" "cb_running ?s" "cb_copied ?s = Some 0" "cb_content ?s = [5]" "cb_missed ?s = []"
    by (simp_all add: start_thread_def clip_start_def)
  from copies_are_cleared [OF run s(2,3)] obtain s' where
    "(clip_step (\<lambda>_. demo_tool))\<^sup>*\<^sup>* ?s s'" "cb_content s' = []" "cb_now s' = 15000"
    by (auto simp: s(1,5) ok simp del: lit_simps)
  with run s(3,4) show ?thesis by blast
qed

end
