(* ===== verification/Tui.thy ===== *)
theory Tui
  imports CliSharing Pairing Editor Clipboard
begin

text \<open>
  \<open>src/ui/mod.rs\<close> with the details pane of \<open>ui/vault.rs\<close>: the state of the terminal interface and its
  reaction to keys. A key press comes with the world it meets (time, randomness, faults, the clipboard
  tools). What is drawn is in \<open>Screen\<close>. Generating a password may not return (see \<open>Manager\<close>), so a key
  press returns an option. Messages are the values that they are formatted from; times are milliseconds.
\<close>

datatype mode =
    CreateVault (cv_pass: rstr) (cv_confirm: rstr) (cv_confirming: bool)
  | Unlock rstr
  | Browse
  | AddName rstr
  | AddTotpName rstr
  | AddTotpSeed rstr rstr
  | EditValue rstr bool
  | Generate rstr bool bool rstr
  | ConfirmDelete rstr
  | ConfirmImport rstr bytes rstr

datatype ui_error =
    Failed error
  | UiPassphraseEmpty
  | UiPassphraseMismatch
  | UiNameEmpty
  | UiNameTaken rstr
  | UiImportTaken rstr
  | UiVanished rstr
  | UiCannotRead rstr rstr
  | UiWriteFailed rstr
  | UiInvalidSeed
  | UiNoClipboard

datatype ui_status =
    WrotePairingCode rstr
  | CopiedToClipboard
  | GeneratedTotp rstr
  | LockedStatus
  | AddedTotp rstr
  | Imported rstr rstr
  | ImportCancelled

record app =
  ap_index :: nat
  ap_editor :: editor
  ap_manager :: manager
  ap_vault_path :: rstr
  ap_names :: "rstr list"
  ap_selected :: nat
  ap_mode :: mode
  ap_error :: "ui_error option"
  ap_status :: "ui_status option"
  ap_pairing :: "(pairing_session \<times> rstr) option"
  ap_qr :: "rstr option"
  ap_reveal_until :: "nat option"
  ap_last_activity :: nat
  ap_idle_timeout :: nat

record ui_env =
  u_manager :: manager_env
  u_transfer :: transfer_env
  u_cwd :: rstr
  u_mkdir :: "rstr \<Rightarrow> rstr + unit"
  u_chmod :: "rstr \<Rightarrow> rstr + unit"

record key_world =
  kw_now :: nat
  kw_op :: op_env
  kw_coins :: bytes
  kw_tools :: "rstr list \<Rightarrow> clip_tool"

datatype key_code = KChar rchar | KEnter | KEsc | KBackspace | KTab | KBackTab | KUp | KDown | KOther

record key_event =
  k_code :: key_code
  k_ctrl :: bool

definition kc :: "char \<Rightarrow> key_code" where
  "kc c = KChar (ascii c)"

definition PASSWORD_CHARSET :: bytes where
  "PASSWORD_CHARSET = utf8 (lit ''ABCDEFGHIJKLMNOPQRSTUVWXYZabcdefghijklmnopqrstuvwxyz0123456789!@#$%^&*()-_=+[]{};:,.?'')"

definition num_titles :: nat where
  "num_titles = length [lit ''Vault'', lit ''Network'']"

text \<open>Seconds in \<open>SIMPLE_SECRETS_TUI_IDLE\<close>, 300 where it is not set or not a \<open>u64\<close>.\<close>

definition idle_timeout :: "(rstr \<Rightarrow> rstr option) \<Rightarrow> nat" where
  "idle_timeout vars =
     1000 * (case Option.bind (vars (lit ''SIMPLE_SECRETS_TUI_IDLE'')) (parse_unsigned (2 ^ 64)) of
               Some secs \<Rightarrow> secs | None \<Rightarrow> 300)"

definition app_new :: "(rstr \<Rightarrow> rstr option) \<Rightarrow> nat \<Rightarrow> rstr \<Rightarrow> fs \<Rightarrow> app" where
  "app_new vars now path fs =
     \<lparr>ap_index = 0, ap_editor = editor_new, ap_manager = manager_new, ap_vault_path = path,
      ap_names = [], ap_selected = 0,
      ap_mode = (if fs path \<noteq> None then Unlock [] else CreateVault [] [] False),
      ap_error = None, ap_status = None, ap_pairing = None, ap_qr = None, ap_reveal_until = None,
      ap_last_activity = now, ap_idle_timeout = idle_timeout vars\<rparr>"

subsection \<open>Operations\<close>

definition refresh_names :: "ui_env \<Rightarrow> app \<Rightarrow> (error + unit) \<times> app" where
  "refresh_names U ap =
     (case mg_secret_names (u_manager U) (ap_manager ap) of
        Inl e \<Rightarrow> (Inl e, ap)
      | Inr names \<Rightarrow>
          (Inr (), ap\<lparr>ap_names := sort names,
             ap_selected := (if ap_selected ap \<ge> length names then length names - 1 else ap_selected ap)\<rparr>))"

definition selected_name :: "app \<Rightarrow> rstr option" where
  "selected_name ap =
     (if ap_selected ap < length (ap_names ap) then Some (ap_names ap ! ap_selected ap) else None)"

definition select_name :: "rstr \<Rightarrow> app \<Rightarrow> app" where
  "select_name name ap =
     (case position name (ap_names ap) of Some i \<Rightarrow> ap\<lparr>ap_selected := i\<rparr> | None \<Rightarrow> ap)"

definition ensure_pairing :: "ui_env \<Rightarrow> key_world \<Rightarrow> app \<Rightarrow> app" where
  "ensure_pairing U W ap =
     (case ap_pairing ap of
        Some _ \<Rightarrow> ap
      | None \<Rightarrow>
          (case new_pairing (t_crates (u_transfer U)) (kw_coins W) of
             Inr p \<Rightarrow> ap\<lparr>ap_pairing := Some p\<rparr>
           | Inl e \<Rightarrow> ap\<lparr>ap_error := Some (Failed e)\<rparr>))"

definition write_paircode :: "ui_env \<Rightarrow> key_world \<Rightarrow> app \<times> fs \<Rightarrow> app \<times> fs" where
  "write_paircode U W = (\<lambda>(ap, fs).
     let ap1 = ensure_pairing U W ap in
     case ap_pairing ap1 of
       None \<Rightarrow> (ap1, fs)
     | Some (_, code) \<Rightarrow>
         let path = path_join (u_cwd U) (lit ''pairing-code.txt'') in
         (case fs_write (kw_op W) path (utf8 code) fs of
            (Inr _, fs') \<Rightarrow> (ap1\<lparr>ap_error := None, ap_status := Some (WrotePairingCode path)\<rparr>, fs')
          | (Inl e, fs') \<Rightarrow> (ap1\<lparr>ap_error := Some (UiWriteFailed e)\<rparr>, fs')))"

definition copy_selected :: "ui_env \<Rightarrow> key_world \<Rightarrow> app \<Rightarrow> app" where
  "copy_selected U W ap =
     (let ap1 = ap\<lparr>ap_error := None, ap_status := None\<rparr> in
      case selected_name ap1 of
        None \<Rightarrow> ap1
      | Some name \<Rightarrow>
          (case mg_get_secret (u_manager U) (ap_manager ap1) name of
             Inr (Some v) \<Rightarrow>
               (case copy_with_autoclear (kw_tools W) v of
                  Some _ \<Rightarrow> ap1\<lparr>ap_status := Some CopiedToClipboard\<rparr>
                | None \<Rightarrow> ap1\<lparr>ap_error := Some UiNoClipboard\<rparr>)
           | Inr None \<Rightarrow> ap1
           | Inl e \<Rightarrow> ap1\<lparr>ap_error := Some (Failed e)\<rparr>))"

definition save_edited_value ::
  "ui_env \<Rightarrow> key_world \<Rightarrow> rstr \<Rightarrow> bytes \<Rightarrow> app \<times> fs \<Rightarrow> (error + unit) \<times> app \<times> fs" where
  "save_edited_value U W name value = (\<lambda>(ap, fs).
     case mg_put_secret (u_manager U) (kw_op W) name value (ap_manager ap, fs) of
       (Inl e, mg', fs') \<Rightarrow> (Inl e, ap\<lparr>ap_manager := mg'\<rparr>, fs')
     | (Inr _, mg', fs') \<Rightarrow>
         (case refresh_names U (ap\<lparr>ap_manager := mg'\<rparr>) of (r, ap') \<Rightarrow> (r, ap', fs')))"

definition store_generated_totp ::
  "ui_env \<Rightarrow> key_world \<Rightarrow> rstr \<Rightarrow> app \<times> fs \<Rightarrow> mode \<times> app \<times> fs" where
  "store_generated_totp U W name = (\<lambda>(ap, fs).
     let mg = ap_manager ap; ap0 = ap\<lparr>ap_manager := mg\<lparr>mg_calls := Suc (mg_calls mg)\<rparr>\<rparr> in
     case random_bytes (u_manager U) (mg_calls mg) 20 of
       Inl e \<Rightarrow> (Browse, ap0\<lparr>ap_error := Some (Failed e)\<rparr>, fs)
     | Inr secret \<Rightarrow>
         let uri = to_uri \<lparr>totp_secret = secret, totp_digits = 6, totp_period = 30, totp_algorithm = Sha1\<rparr> name in
         (case save_edited_value U W name (utf8 uri) (ap0, fs) of
            (Inl e, ap1, fs1) \<Rightarrow> (Browse, ap1\<lparr>ap_error := Some (Failed e)\<rparr>, fs1)
          | (Inr _, ap1, fs1) \<Rightarrow>
              (Browse, (select_name name ap1)\<lparr>ap_status := Some (GeneratedTotp name), ap_qr := Some uri\<rparr>, fs1)))"

definition value_revealed :: "nat \<Rightarrow> app \<Rightarrow> bool" where
  "value_revealed now ap = (case ap_reveal_until ap of None \<Rightarrow> False | Some t \<Rightarrow> now < t)"

definition lock_app :: "app \<Rightarrow> app" where
  "lock_app ap =
     ap\<lparr>ap_manager := mg_lock (ap_manager ap), ap_editor := editor_new, ap_names := [],
        ap_selected := 0, ap_pairing := None, ap_qr := None, ap_reveal_until := None,
        ap_error := None, ap_status := Some LockedStatus, ap_mode := Unlock []\<rparr>"

definition prompting :: "mode \<Rightarrow> bool" where
  "prompting m = (case m of Unlock _ \<Rightarrow> True | CreateVault _ _ _ \<Rightarrow> True | _ \<Rightarrow> False)"

definition maybe_autolock :: "nat \<Rightarrow> app \<Rightarrow> app" where
  "maybe_autolock now ap =
     (if ap_idle_timeout ap = 0 then ap
      else if \<not> prompting (ap_mode ap) \<and> now - ap_last_activity ap \<ge> ap_idle_timeout ap then lock_app ap
      else ap)"

definition begin_import :: "ui_env \<Rightarrow> key_world \<Rightarrow> fs \<Rightarrow> app \<Rightarrow> mode \<times> app" where
  "begin_import U W fs ap =
     (let ap1 = ensure_pairing U W (ap\<lparr>ap_error := None, ap_status := None\<rparr>);
          path = path_join (u_cwd U) (lit ''pairing-bundle.txt'')
      in case ap_pairing ap1 of
           None \<Rightarrow> (Browse, ap1)
         | Some (session, code) \<Rightarrow>
             (case read_to_string fs path of
                Inl e \<Rightarrow> (Browse, ap1\<lparr>ap_error := Some (UiCannotRead path e)\<rparr>)
              | Inr content \<Rightarrow>
                  (case open_transfer (u_transfer U) session (trim content) of
                     Inl e \<Rightarrow> (Browse, ap1\<lparr>ap_error := Some (Failed e)\<rparr>)
                   | Inr opened \<Rightarrow>
                       if list_ex (\<lambda>n. n = pl_name opened) (ap_names ap1)
                       then (Browse, ap1\<lparr>ap_error := Some (UiImportTaken (pl_name opened))\<rparr>)
                       else (ConfirmImport (pl_name opened) (pl_secret opened)
                               (case code_fingerprint (t_crates (u_transfer U)) code of
                                  Inr fp \<Rightarrow> fp | Inl _ \<Rightarrow> []), ap1))))"

definition delete_named :: "ui_env \<Rightarrow> key_world \<Rightarrow> rstr \<Rightarrow> app \<times> fs \<Rightarrow> (error + unit) \<times> app \<times> fs" where
  "delete_named U W name = (\<lambda>(ap, fs).
     case mg_delete_secret (u_manager U) (kw_op W) name (ap_manager ap, fs) of
       (Inl e, mg', fs') \<Rightarrow> (Inl e, ap\<lparr>ap_manager := mg'\<rparr>, fs')
     | (Inr _, mg', fs') \<Rightarrow>
         (case refresh_names U (ap\<lparr>ap_manager := mg', ap_selected := ap_selected ap - 1\<rparr>) of
            (r, ap') \<Rightarrow> (r, ap', fs')))"

definition try_unlock :: "ui_env \<Rightarrow> key_world \<Rightarrow> rstr \<Rightarrow> app \<times> fs \<Rightarrow> (error + unit) \<times> app \<times> fs" where
  "try_unlock U W pass = (\<lambda>(ap, fs).
     case mg_open_vault (u_manager U) (kw_op W) (ap_vault_path ap) (utf8 pass) None (ap_manager ap, fs) of
       (Inl e, mg', fs') \<Rightarrow> (Inl e, ap\<lparr>ap_manager := mg'\<rparr>, fs')
     | (Inr _, mg', fs') \<Rightarrow>
         (case refresh_names U (ap\<lparr>ap_manager := mg'\<rparr>) of (r, ap') \<Rightarrow> (r, ap', fs')))"

definition try_create :: "ui_env \<Rightarrow> key_world \<Rightarrow> rstr \<Rightarrow> app \<times> fs \<Rightarrow> (error + unit) \<times> app \<times> fs" where
  "try_create U W pass = (\<lambda>(ap, fs).
     case (case path_parent (ap_vault_path ap) of
             None \<Rightarrow> Inr ()
           | Some parent \<Rightarrow> if parent = [] then Inr () else ensure_private_dir (u_mkdir U) (u_chmod U) parent) of
       Inl e \<Rightarrow> (Inl e, ap, fs)
     | Inr _ \<Rightarrow>
         (case mg_create_vault (u_manager U) (kw_op W) (ap_vault_path ap) (utf8 pass) default_argon2_params 0 None
                 (ap_manager ap, fs) of
            (Inl e, mg', fs') \<Rightarrow> (Inl e, ap\<lparr>ap_manager := mg'\<rparr>, fs')
          | (Inr _, mg', fs') \<Rightarrow>
              (case refresh_names U (ap\<lparr>ap_manager := mg'\<rparr>) of (r, ap') \<Rightarrow> (r, ap', fs'))))"

definition next_tab :: "app \<Rightarrow> app" where
  "next_tab ap = ap\<lparr>ap_index := (ap_index ap + 1) mod num_titles\<rparr>"

definition prev_tab :: "app \<Rightarrow> app" where
  "prev_tab ap = ap\<lparr>ap_index := (if ap_index ap = 0 then num_titles - 1 else ap_index ap - 1)\<rparr>"

definition select_prev :: "app \<Rightarrow> app" where
  "select_prev ap = ap\<lparr>ap_selected := ap_selected ap - 1\<rparr>"

definition select_next :: "app \<Rightarrow> app" where
  "select_next ap =
     (if ap_selected ap + 1 < length (ap_names ap) then ap\<lparr>ap_selected := ap_selected ap + 1\<rparr> else ap)"

definition begin_edit :: "ui_env \<Rightarrow> app \<Rightarrow> mode \<times> app" where
  "begin_edit U ap =
     (case selected_name ap of
        None \<Rightarrow> (Browse, ap)
      | Some name \<Rightarrow>
          (case mg_get_secret (u_manager U) (ap_manager ap) name of
             Inr (Some v) \<Rightarrow>
               (EditValue name False,
                ap\<lparr>ap_editor := editor_from_bytes v, ap_index := 0, ap_error := None\<rparr>)
           | Inr None \<Rightarrow> (Browse, ap\<lparr>ap_error := Some (UiVanished name)\<rparr>)
           | Inl e \<Rightarrow> (Browse, ap\<lparr>ap_error := Some (Failed e)\<rparr>)))"

subsection \<open>Keys, mode by mode\<close>

type_synonym turn = "(mode \<times> bool) \<times> app \<times> fs"

definition step_unlock :: "ui_env \<Rightarrow> key_world \<Rightarrow> rstr \<Rightarrow> key_event \<Rightarrow> app \<times> fs \<Rightarrow> turn" where
  "step_unlock U W input k = (\<lambda>(ap, fs).
     case k_code k of
       KEsc \<Rightarrow> ((Unlock input, True), ap, fs)
     | KEnter \<Rightarrow>
         (case try_unlock U W input (ap, fs) of
            (Inr _, ap', fs') \<Rightarrow> ((Browse, False), ap'\<lparr>ap_error := None\<rparr>, fs')
          | (Inl e, ap', fs') \<Rightarrow> ((Unlock [], False), ap'\<lparr>ap_error := Some (Failed e)\<rparr>, fs'))
     | KBackspace \<Rightarrow> ((Unlock (butlast input), False), ap, fs)
     | KChar c \<Rightarrow> ((Unlock (input @ [c]), False), ap, fs)
     | _ \<Rightarrow> ((Unlock input, False), ap, fs))"

definition step_create ::
  "ui_env \<Rightarrow> key_world \<Rightarrow> rstr \<Rightarrow> rstr \<Rightarrow> bool \<Rightarrow> key_event \<Rightarrow> app \<times> fs \<Rightarrow> turn" where
  "step_create U W pass confirm confirming k = (\<lambda>(ap, fs).
     case k_code k of
       KEsc \<Rightarrow> ((CreateVault pass confirm confirming, True), ap, fs)
     | KEnter \<Rightarrow>
         if \<not> confirming then ((CreateVault pass [] True, False), ap, fs)
         else
           let fresh = CreateVault [] [] False in
           if pass = [] then ((fresh, False), ap\<lparr>ap_error := Some UiPassphraseEmpty\<rparr>, fs)
           else if pass \<noteq> confirm then ((fresh, False), ap\<lparr>ap_error := Some UiPassphraseMismatch\<rparr>, fs)
           else
             (case try_create U W pass (ap, fs) of
                (Inr _, ap', fs') \<Rightarrow> ((Browse, False), ap'\<lparr>ap_error := None\<rparr>, fs')
              | (Inl e, ap', fs') \<Rightarrow> ((fresh, False), ap'\<lparr>ap_error := Some (Failed e)\<rparr>, fs'))
     | KBackspace \<Rightarrow>
         ((if confirming then CreateVault pass (butlast confirm) confirming
           else CreateVault (butlast pass) confirm confirming, False), ap, fs)
     | KChar c \<Rightarrow>
         ((if confirming then CreateVault pass (confirm @ [c]) confirming
           else CreateVault (pass @ [c]) confirm confirming, False), ap, fs)
     | _ \<Rightarrow> ((CreateVault pass confirm confirming, False), ap, fs))"

definition step_browse :: "ui_env \<Rightarrow> key_world \<Rightarrow> key_event \<Rightarrow> app \<times> fs \<Rightarrow> turn" where
  "step_browse U W k = (\<lambda>(ap, fs).
     if k_code k = KEsc then ((Browse, True), ap, fs)
     else if k_code k = KTab then ((Browse, False), next_tab ap, fs)
     else if k_code k = KBackTab then ((Browse, False), prev_tab ap, fs)
     else if ap_index ap = 0 then
       (if k_code k = KUp then ((Browse, False), (select_prev ap)\<lparr>ap_reveal_until := None\<rparr>, fs)
        else if k_code k = KDown then ((Browse, False), (select_next ap)\<lparr>ap_reveal_until := None\<rparr>, fs)
        else if k_code k = kc CHR ''s''
        then ((Browse, False), ap\<lparr>ap_reveal_until := Some (kw_now W + 10 * 1000)\<rparr>, fs)
        else if k_code k = kc CHR ''c'' then ((Browse, False), copy_selected U W ap, fs)
        else if k_code k = kc CHR ''a'' then ((AddName [], False), ap\<lparr>ap_error := None\<rparr>, fs)
        else if k_code k = kc CHR ''e'' then (case begin_edit U ap of (m, ap') \<Rightarrow> ((m, False), ap', fs))
        else if k_code k = kc CHR ''t'' then ((AddTotpName [], False), ap\<lparr>ap_error := None\<rparr>, fs)
        else if k_code k = kc CHR ''d'' then
          (case selected_name ap of
             Some name \<Rightarrow> ((ConfirmDelete name, False), ap, fs)
           | None \<Rightarrow> ((Browse, False), ap, fs))
        else ((Browse, False), ap, fs))
     else if ap_index ap = 1 then
       (if k_code k = kc CHR ''r'' then (case begin_import U W fs ap of (m, ap') \<Rightarrow> ((m, False), ap', fs))
        else if k_code k = kc CHR ''q'' then
          let ap1 = ensure_pairing U W (ap\<lparr>ap_error := None, ap_status := None\<rparr>) in
          ((Browse, False), ap1\<lparr>ap_qr := map_option snd (ap_pairing ap1)\<rparr>, fs)
        else if k_code k = kc CHR ''w'' then ((Browse, False), write_paircode U W (ap, fs))
        else ((Browse, False), ap, fs))
     else ((Browse, False), ap, fs))"

definition step_add_name :: "rstr \<Rightarrow> key_event \<Rightarrow> app \<times> fs \<Rightarrow> turn" where
  "step_add_name input k = (\<lambda>(ap, fs).
     case k_code k of
       KEsc \<Rightarrow> ((Browse, False), ap\<lparr>ap_error := None\<rparr>, fs)
     | KEnter \<Rightarrow>
         if input = [] then ((AddName input, False), ap\<lparr>ap_error := Some UiNameEmpty\<rparr>, fs)
         else if list_ex (\<lambda>n. n = input) (ap_names ap)
         then ((AddName input, False), ap\<lparr>ap_error := Some (UiNameTaken input)\<rparr>, fs)
         else ((EditValue input True, False),
               ap\<lparr>ap_editor := editor_new, ap_index := 0, ap_error := None\<rparr>, fs)
     | KBackspace \<Rightarrow> ((AddName (butlast input), False), ap, fs)
     | KChar c \<Rightarrow> ((AddName (input @ [c]), False), ap, fs)
     | _ \<Rightarrow> ((AddName input, False), ap, fs))"

definition step_totp_name :: "rstr \<Rightarrow> key_event \<Rightarrow> app \<times> fs \<Rightarrow> turn" where
  "step_totp_name input k = (\<lambda>(ap, fs).
     case k_code k of
       KEsc \<Rightarrow> ((Browse, False), ap\<lparr>ap_error := None\<rparr>, fs)
     | KEnter \<Rightarrow>
         if input = [] then ((AddTotpName input, False), ap\<lparr>ap_error := Some UiNameEmpty\<rparr>, fs)
         else if list_ex (\<lambda>n. n = input) (ap_names ap)
         then ((AddTotpName input, False), ap\<lparr>ap_error := Some (UiNameTaken input)\<rparr>, fs)
         else ((AddTotpSeed input [], False), ap\<lparr>ap_error := None\<rparr>, fs)
     | KBackspace \<Rightarrow> ((AddTotpName (butlast input), False), ap, fs)
     | KChar c \<Rightarrow> ((AddTotpName (input @ [c]), False), ap, fs)
     | _ \<Rightarrow> ((AddTotpName input, False), ap, fs))"

definition step_totp_seed ::
  "ui_env \<Rightarrow> key_world \<Rightarrow> rstr \<Rightarrow> rstr \<Rightarrow> key_event \<Rightarrow> app \<times> fs \<Rightarrow> turn" where
  "step_totp_seed U W name input k = (\<lambda>(ap, fs).
     if k_ctrl k \<and> k_code k = kc CHR ''g''
     then (case store_generated_totp U W name (ap, fs) of (m, s) \<Rightarrow> ((m, False), s))
     else
       case k_code k of
         KEsc \<Rightarrow> ((Browse, False), ap\<lparr>ap_error := None\<rparr>, fs)
       | KEnter \<Rightarrow>
           (case parse_totp (trim input) of
              Some cfg \<Rightarrow>
                (case save_edited_value U W name (utf8 (to_uri cfg name)) (ap, fs) of
                   (Inr _, ap', fs') \<Rightarrow>
                     ((Browse, False), (select_name name ap')\<lparr>ap_status := Some (AddedTotp name)\<rparr>, fs')
                 | (Inl e, ap', fs') \<Rightarrow> ((Browse, False), ap'\<lparr>ap_error := Some (Failed e)\<rparr>, fs'))
            | None \<Rightarrow> ((AddTotpSeed name input, False), ap\<lparr>ap_error := Some UiInvalidSeed\<rparr>, fs))
       | KBackspace \<Rightarrow> ((AddTotpSeed name (butlast input), False), ap, fs)
       | KChar c \<Rightarrow> ((AddTotpSeed name (input @ [c]), False), ap, fs)
       | _ \<Rightarrow> ((AddTotpSeed name input, False), ap, fs))"

definition step_edit ::
  "ui_env \<Rightarrow> key_world \<Rightarrow> rstr \<Rightarrow> bool \<Rightarrow> key_event \<Rightarrow> app \<times> fs \<Rightarrow> turn" where
  "step_edit U W name is_new k = (\<lambda>(ap, fs).
     if k_ctrl k \<and> k_code k = kc CHR ''s'' then
       (case save_edited_value U W name (as_bytes (ap_editor ap)) (ap, fs) of
          (Inr _, ap', fs') \<Rightarrow>
            ((Browse, False),
             (select_name name (ap'\<lparr>ap_editor := editor_new, ap_index := 0\<rparr>))\<lparr>ap_error := None\<rparr>, fs')
        | (Inl e, ap', fs') \<Rightarrow> ((EditValue name is_new, False), ap'\<lparr>ap_error := Some (Failed e)\<rparr>, fs'))
     else if k_ctrl k \<and> k_code k = kc CHR ''g''
     then ((Generate name is_new True [], False), ap\<lparr>ap_error := None\<rparr>, fs)
     else if k_code k = KEsc
     then ((Browse, False), ap\<lparr>ap_editor := editor_new, ap_index := 0\<rparr>, fs)
     else
       ((EditValue name is_new, False),
        (case k_code k of
           KChar c \<Rightarrow> ap\<lparr>ap_editor := push_char c (ap_editor ap)\<rparr>
         | KBackspace \<Rightarrow> ap\<lparr>ap_editor := backspace (ap_editor ap)\<rparr>
         | KEnter \<Rightarrow> ap\<lparr>ap_editor := push_char (rchr 10) (ap_editor ap)\<rparr>
         | _ \<Rightarrow> ap), fs))"

text \<open>How many words or characters: the typed count, or the default of the kind, within 1 to 256.\<close>

definition wanted_count :: "bool \<Rightarrow> rstr \<Rightarrow> nat" where
  "wanted_count words digits =
     (let default = (if words then 6 else 20);
          n = (if digits = [] then default
               else case parse_unsigned (2 ^ 64) digits of Some v \<Rightarrow> v | None \<Rightarrow> default)
      in max 1 (min 256 n))"

definition generate_value :: "ui_env \<Rightarrow> bool \<Rightarrow> nat \<Rightarrow> manager \<Rightarrow> ((error + rstr) \<times> manager) option" where
  "generate_value U words n mg =
     (if words
      then Some (generate_passphrase (u_manager U) (mg_calls mg) n, mg\<lparr>mg_calls := Suc (mg_calls mg)\<rparr>)
      else map_option (\<lambda>(r, calls). (r, mg\<lparr>mg_calls := calls\<rparr>))
             (generate_password (u_manager U) (mg_calls mg) n PASSWORD_CHARSET))"

definition step_generate ::
  "ui_env \<Rightarrow> rstr \<Rightarrow> bool \<Rightarrow> bool \<Rightarrow> rstr \<Rightarrow> key_event \<Rightarrow> app \<times> fs \<Rightarrow> turn option" where
  "step_generate U name is_new words digits k = (\<lambda>(ap, fs).
     case k_code k of
       KEsc \<Rightarrow> Some ((EditValue name is_new, False), ap, fs)
     | KChar c \<Rightarrow>
         if c = ascii CHR ''w'' then Some ((Generate name is_new True digits, False), ap, fs)
         else if c = ascii CHR ''c'' then Some ((Generate name is_new False digits, False), ap, fs)
         else if is_ascii_digit c \<and> length (utf8 digits) < 4
         then Some ((Generate name is_new words (digits @ [c]), False), ap, fs)
         else Some ((Generate name is_new words digits, False), ap, fs)
     | KBackspace \<Rightarrow> Some ((Generate name is_new words (butlast digits), False), ap, fs)
     | KEnter \<Rightarrow>
         (case generate_value U words (wanted_count words digits) (ap_manager ap) of
            None \<Rightarrow> None
          | Some (Inr value, mg') \<Rightarrow>
              Some ((EditValue name is_new, False),
                ap\<lparr>ap_manager := mg', ap_editor := editor_from_bytes (utf8 value), ap_error := None\<rparr>, fs)
          | Some (Inl e, mg') \<Rightarrow>
              Some ((EditValue name is_new, False), ap\<lparr>ap_manager := mg', ap_error := Some (Failed e)\<rparr>, fs))
     | _ \<Rightarrow> Some ((Generate name is_new words digits, False), ap, fs))"

definition says_yes :: "key_event \<Rightarrow> bool" where
  "says_yes k \<longleftrightarrow> k_code k = kc CHR ''y'' \<or> k_code k = kc CHR ''Y''"

definition step_delete :: "ui_env \<Rightarrow> key_world \<Rightarrow> rstr \<Rightarrow> key_event \<Rightarrow> app \<times> fs \<Rightarrow> turn" where
  "step_delete U W name k = (\<lambda>(ap, fs).
     if says_yes k then
       (case delete_named U W name (ap, fs) of
          (Inr _, ap', fs') \<Rightarrow> ((Browse, False), ap', fs')
        | (Inl e, ap', fs') \<Rightarrow> ((Browse, False), ap'\<lparr>ap_error := Some (Failed e)\<rparr>, fs'))
     else ((Browse, False), ap, fs))"

definition step_import ::
  "ui_env \<Rightarrow> key_world \<Rightarrow> rstr \<Rightarrow> bytes \<Rightarrow> rstr \<Rightarrow> key_event \<Rightarrow> app \<times> fs \<Rightarrow> turn" where
  "step_import U W name secret sas k = (\<lambda>(ap, fs).
     if says_yes k then
       (case save_edited_value U W name secret (ap, fs) of
          (Inr _, ap', fs') \<Rightarrow>
            ((Browse, False),
             (select_name name ap')\<lparr>ap_index := 0, ap_status := Some (Imported name sas)\<rparr>, fs')
        | (Inl e, ap', fs') \<Rightarrow> ((Browse, False), ap'\<lparr>ap_error := Some (Failed e)\<rparr>, fs'))
     else ((Browse, False), ap\<lparr>ap_status := Some ImportCancelled\<rparr>, fs))"

definition ui_step :: "ui_env \<Rightarrow> key_world \<Rightarrow> mode \<Rightarrow> key_event \<Rightarrow> app \<times> fs \<Rightarrow> turn option" where
  "ui_step U W m k s =
     (case m of
        Unlock input \<Rightarrow> Some (step_unlock U W input k s)
      | CreateVault pass confirm confirming \<Rightarrow> Some (step_create U W pass confirm confirming k s)
      | Browse \<Rightarrow> Some (step_browse U W k s)
      | AddName input \<Rightarrow> Some (step_add_name input k s)
      | AddTotpName input \<Rightarrow> Some (step_totp_name input k s)
      | AddTotpSeed name input \<Rightarrow> Some (step_totp_seed U W name input k s)
      | EditValue name is_new \<Rightarrow> Some (step_edit U W name is_new k s)
      | Generate name is_new words digits \<Rightarrow> step_generate U name is_new words digits k s
      | ConfirmDelete name \<Rightarrow> Some (step_delete U W name k s)
      | ConfirmImport name secret sas \<Rightarrow> Some (step_import U W name secret sas k s))"

text \<open>\<open>True\<close> means that the program ends.\<close>

definition handle_key :: "ui_env \<Rightarrow> key_world \<Rightarrow> key_event \<Rightarrow> app \<times> fs \<Rightarrow> (bool \<times> app \<times> fs) option" where
  "handle_key U W k = (\<lambda>(ap, fs).
     if k_code k = kc CHR ''c'' \<and> k_ctrl k then Some (True, ap, fs)
     else
       let ap1 = ap\<lparr>ap_last_activity := kw_now W\<rparr> in
       if k_code k = kc CHR ''l'' \<and> k_ctrl k then Some (False, lock_app ap1, fs)
       else if ap_qr ap1 \<noteq> None then Some (False, ap1\<lparr>ap_qr := None\<rparr>, fs)
       else
         (case ui_step U W (ap_mode ap1) k (ap1\<lparr>ap_mode := Browse\<rparr>, fs) of
            None \<Rightarrow> None
          | Some ((next, quit), ap2, fs2) \<Rightarrow> Some (quit, ap2\<lparr>ap_mode := next\<rparr>, fs2)))"

subsection \<open>The details pane\<close>

definition group_code :: "rstr \<Rightarrow> rstr" where
  "group_code code =
     (let mid = length code div 2 in
      if mid = 0 then code else take mid code @ lit '' '' @ drop mid code)"

definition render_value :: "crates \<Rightarrow> u64 \<Rightarrow> rstr \<Rightarrow> bytes \<Rightarrow> bool \<Rightarrow> rstr option" where
  "render_value X now name value revealed =
     (let txt = from_utf8_lossy value;
          totp = (if strip_prefix (lit ''otpauth://'') (trim_start txt) \<noteq> None then parse_totp txt else None);
          nl = [rchr 10]
      in case totp of
           Some cfg \<Rightarrow>
             map_option (\<lambda>code.
               lit ''selected: '' @ name @ lit ''   [TOTP / 2FA]'' @ nl @ nl @ lit ''  '' @ group_code code
               @ nl @ nl @ lit ''valid for '' @ show_nat (unat (seconds_remaining cfg now)) @ lit ''s   (''
               @ (case totp_algorithm cfg of Sha1 \<Rightarrow> lit ''SHA1'' | Sha256 \<Rightarrow> lit ''SHA256'' | Sha512 \<Rightarrow> lit ''SHA512'')
               @ lit '', '' @ show_nat (unat (totp_digits cfg)) @ lit '' digits, ''
               @ show_nat (unat (totp_period cfg)) @ lit ''s period)'' @ nl @ nl
               @ lit ''The seed is stored encrypted; only the rolling code is shown.'') (code_at X cfg now)
         | None \<Rightarrow>
             if revealed
             then Some (lit ''selected: '' @ name @ nl @ lit ''value (revealed):'' @ nl @ lit ''  '' @ txt)
             else Some (lit ''selected: '' @ name @ nl @ lit ''value: ''
                        @ replicate (max 1 (min 32 (length txt))) (rchr 0x2022)
                        @ lit ''   (press '' @ [rchr 39] @ lit ''s'' @ [rchr 39] @ lit '' to reveal ''
                        @ [rchr 0xB7] @ lit '' '' @ [rchr 39] @ lit ''c'' @ [rchr 39] @ lit '' to copy)''))"

subsection \<open>The invariant\<close>

definition editing :: "mode \<Rightarrow> bool" where
  "editing m = (case m of EditValue _ _ \<Rightarrow> True | Generate _ _ _ _ \<Rightarrow> True | _ \<Rightarrow> False)"

lemma mode_kinds [simp]:
  "prompting (Unlock i)" "prompting (CreateVault p c b)" "\<not> prompting Browse" "\<not> prompting (AddName i)"
  "\<not> prompting (AddTotpName i)" "\<not> prompting (AddTotpSeed n i)" "\<not> prompting (EditValue n b)"
  "\<not> prompting (Generate n b w d)" "\<not> prompting (ConfirmDelete n)" "\<not> prompting (ConfirmImport n s f)"
  "\<not> editing (Unlock i)" "\<not> editing (CreateVault p c b)" "\<not> editing Browse" "\<not> editing (AddName i)"
  "\<not> editing (AddTotpName i)" "\<not> editing (AddTotpSeed n i)" "editing (EditValue n b)"
  "editing (Generate n b w d)" "\<not> editing (ConfirmDelete n)" "\<not> editing (ConfirmImport n s f)"
  by (simp_all add: prompting_def editing_def)

text \<open>
  \<open>app_ok m ap\<close>: with mode \<open>m\<close>, the state is in order. The interface prompts for a passphrase exactly
  while the vault is locked, and then nothing of the vault is left in it; outside of editing the
  editor is empty; tab and selection are in range.
\<close>

definition app_ok :: "mode \<Rightarrow> app \<Rightarrow> bool" where
  "app_ok m ap \<longleftrightarrow>
     (prompting m \<longleftrightarrow> \<not> mg_is_unlocked (ap_manager ap))
     \<and> (prompting m \<longrightarrow> ap_names ap = [] \<and> ap_pairing ap = None \<and> ap_qr ap = None \<and> ap_reveal_until ap = None)
     \<and> editor_inv (ap_editor ap) \<and> (\<not> editing m \<longrightarrow> as_bytes (ap_editor ap) = [])
     \<and> ap_index ap < num_titles \<and> ap_selected ap < max 1 (length (ap_names ap))"

lemma num_titles_2: "num_titles = 2"
  by (simp add: num_titles_def)

lemma mg_put_unlocked:
  "mg_put_secret M c n v (mg, fs) = (r, mg', fs') \<Longrightarrow> mg_is_unlocked mg' = mg_is_unlocked mg"
  by (auto simp: mg_is_unlocked_def elim: mg_put_cases)

lemma mg_delete_unlocked:
  "mg_delete_secret M c n (mg, fs) = (r, mg', fs') \<Longrightarrow> mg_is_unlocked mg' = mg_is_unlocked mg"
  by (auto simp: mg_is_unlocked_def elim: mg_delete_cases)

lemma mg_open_unlocked:
  "mg_open_vault M c p pw hw (mg, fs) = (r, mg', fs') \<Longrightarrow> mg_is_unlocked mg' \<longleftrightarrow> r = Inr () \<or> mg_is_unlocked mg"
  by (auto simp: mg_open_vault_def mg_is_unlocked_def split: sum.splits)

lemma mg_create_unlocked:
  "mg_create_vault M c p pw pr v hw (mg, fs) = (r, mg', fs') \<Longrightarrow> mg_is_unlocked mg' \<longleftrightarrow> r = Inr () \<or> mg_is_unlocked mg"
  by (auto simp: mg_create_vault_def mg_is_unlocked_def Let_def split: sum.splits prod.splits)

text \<open>What the operations on the vault leave alone; the selection they leave is in range if it was.\<close>

definition relisted :: "app \<Rightarrow> app \<Rightarrow> bool" where
  "relisted ap ap' \<longleftrightarrow>
     ap_index ap' = ap_index ap \<and> ap_editor ap' = ap_editor ap \<and> ap_pairing ap' = ap_pairing ap
     \<and> ap_qr ap' = ap_qr ap \<and> ap_reveal_until ap' = ap_reveal_until ap \<and> ap_mode ap' = ap_mode ap
     \<and> (ap_selected ap < max 1 (length (ap_names ap)) \<longrightarrow> ap_selected ap' < max 1 (length (ap_names ap')))"

lemma relisted_refl [simp]: "relisted ap ap" "relisted ap (ap\<lparr>ap_manager := mg\<rparr>)"
  by (simp_all add: relisted_def)

text \<open>Refreshing the names of an open vault always succeeds.\<close>

lemma refresh_names_open:
  assumes "refresh_names U ap1 = (r, ap')" "mg_is_unlocked (ap_manager ap1)" "relisted ap (ap1\<lparr>ap_selected := sel\<rparr>)"
  shows "r = Inr () \<and> relisted ap ap' \<and> ap_manager ap' = ap_manager ap1"
proof -
  obtain st where "mg_vault (ap_manager ap1) = Some st" using assms(2) by (auto simp: mg_is_unlocked_def)
  then have r: "r = Inr ()" "ap' = ap1\<lparr>ap_names := sort (ls_names (m_vault_env (u_manager U)) st),
      ap_selected := (if length (ls_names (m_vault_env (u_manager U)) st) \<le> ap_selected ap1
        then length (ls_names (m_vault_env (u_manager U)) st) - 1 else ap_selected ap1)\<rparr>"
    using assms(1) by (auto simp: refresh_names_def mg_secret_names_def)
  have "(if length names \<le> s then length names - 1 else s) < max 1 (length names)" for s and names :: "rstr list" by auto
  with r assms(3) show ?thesis by (simp add: relisted_def)
qed

lemma save_edited_relists:
  assumes "save_edited_value U W n v (ap, fs) = (r, ap', fs')" "mg_is_unlocked (ap_manager ap)"
  shows "relisted ap ap' \<and> mg_is_unlocked (ap_manager ap')"
proof -
  obtain q mg1 fs1 where put: "mg_put_secret (u_manager U) (kw_op W) n v (ap_manager ap, fs) = (q, mg1, fs1)"
    by (metis prod.exhaust)
  have u: "mg_is_unlocked mg1" using mg_put_unlocked [OF put] assms(2) by simp
  show ?thesis
  proof (cases q)
    case (Inl e)
    with put assms(1) u show ?thesis by (auto simp: save_edited_value_def)
  next
    case (Inr w)
    then have "refresh_names U (ap\<lparr>ap_manager := mg1\<rparr>) = (r, ap')"
      using put assms(1) by (auto simp: save_edited_value_def split: prod.splits)
    from refresh_names_open [OF this, of ap "ap_selected ap"] u show ?thesis by (simp add: relisted_def)
  qed
qed

lemma delete_named_relists:
  assumes "delete_named U W n (ap, fs) = (r, ap', fs')" "mg_is_unlocked (ap_manager ap)"
  shows "relisted ap ap' \<and> mg_is_unlocked (ap_manager ap')"
proof -
  obtain q mg1 fs1 where del: "mg_delete_secret (u_manager U) (kw_op W) n (ap_manager ap, fs) = (q, mg1, fs1)"
    by (metis prod.exhaust)
  have u: "mg_is_unlocked mg1" using mg_delete_unlocked [OF del] assms(2) by simp
  show ?thesis
  proof (cases q)
    case (Inl e)
    with del assms(1) u show ?thesis by (auto simp: delete_named_def)
  next
    case (Inr w)
    then have "refresh_names U (ap\<lparr>ap_manager := mg1, ap_selected := ap_selected ap - 1\<rparr>) = (r, ap')"
      using del assms(1) by (auto simp: delete_named_def split: prod.splits)
    from refresh_names_open [OF this, of ap "ap_selected ap"] u show ?thesis by (simp add: relisted_def)
  qed
qed

text \<open>Unlocking and creating either open the vault or leave the interface as it was.\<close>

lemma try_unlock_result:
  assumes "try_unlock U W pw (ap, fs) = (r, ap', fs')" "\<not> mg_is_unlocked (ap_manager ap)"
  shows "relisted ap ap' \<and> (mg_is_unlocked (ap_manager ap') \<longleftrightarrow> r = Inr ())
    \<and> (r \<noteq> Inr () \<longrightarrow> ap_names ap' = ap_names ap)"
proof -
  obtain q mg1 fs1 where op: "mg_open_vault (u_manager U) (kw_op W) (ap_vault_path ap) (utf8 pw) None (ap_manager ap, fs)
      = (q, mg1, fs1)"
    by (metis prod.exhaust)
  show ?thesis
  proof (cases q)
    case (Inl e)
    with op assms mg_open_unlocked [OF op] show ?thesis by (auto simp: try_unlock_def)
  next
    case (Inr w)
    then have "refresh_names U (ap\<lparr>ap_manager := mg1\<rparr>) = (r, ap')" "mg_is_unlocked mg1"
      using op assms(1) mg_open_unlocked [OF op] by (auto simp: try_unlock_def split: prod.splits)
    with refresh_names_open [OF this(1), of ap "ap_selected ap"] show ?thesis by (simp add: relisted_def)
  qed
qed

lemma try_create_result:
  assumes "try_create U W pw (ap, fs) = (r, ap', fs')" "\<not> mg_is_unlocked (ap_manager ap)"
  shows "relisted ap ap' \<and> (mg_is_unlocked (ap_manager ap') \<longleftrightarrow> r = Inr ())
    \<and> (r \<noteq> Inr () \<longrightarrow> ap_names ap' = ap_names ap)"
proof -
  obtain q mg1 fs1 where cr: "mg_create_vault (u_manager U) (kw_op W) (ap_vault_path ap) (utf8 pw)
      default_argon2_params 0 None (ap_manager ap, fs) = (q, mg1, fs1)"
    by (metis prod.exhaust)
  let ?dir = "case path_parent (ap_vault_path ap) of
      None \<Rightarrow> Inr ()
    | Some parent \<Rightarrow> if parent = [] then Inr () else ensure_private_dir (u_mkdir U) (u_chmod U) parent"
  show ?thesis
  proof (cases "\<exists>e. ?dir = Inl e \<or> q = Inl e")
    case True
    with cr assms mg_create_unlocked [OF cr] show ?thesis
      by (cases ?dir) (auto simp: try_create_def)
  next
    case False
    then obtain u w where "?dir = Inr u" "q = Inr w" by (cases ?dir; cases q) auto
    then have "refresh_names U (ap\<lparr>ap_manager := mg1\<rparr>) = (r, ap')" "mg_is_unlocked mg1"
      using cr assms(1) mg_create_unlocked [OF cr] by (auto simp: try_create_def split: prod.splits)
    with refresh_names_open [OF this(1), of ap "ap_selected ap"] show ?thesis by (simp add: relisted_def)
  qed
qed

lemma app_ok_relisted:
  "app_ok m ap \<Longrightarrow> relisted ap ap' \<Longrightarrow> mg_is_unlocked (ap_manager ap') = mg_is_unlocked (ap_manager ap)
     \<Longrightarrow> \<not> prompting m \<Longrightarrow> app_ok m ap'"
  by (auto simp: app_ok_def relisted_def)

lemma select_name_same:
  "ap_manager (select_name n ap) = ap_manager ap" "ap_names (select_name n ap) = ap_names ap"
  "ap_editor (select_name n ap) = ap_editor ap" "ap_index (select_name n ap) = ap_index ap"
  by (simp_all add: select_name_def split: option.splits)

lemma select_name_range [simp]:
  "ap_selected ap < b \<Longrightarrow> length (ap_names ap) \<le> b \<Longrightarrow> ap_selected (select_name n ap) < b"
  by (auto simp: select_name_def dest: position_Some split: option.splits)

subsubsection \<open>Every key keeps it\<close>

lemma step_unlock_ok:
  assumes ok: "app_ok (Unlock input) ap" and st: "step_unlock U W input k (ap, fs) = ((m, q), ap', fs')"
  shows "app_ok m ap'"
proof (cases "k_code k = KEnter")
  case True
  obtain r ap1 fs1 where t: "try_unlock U W input (ap, fs) = (r, ap1, fs1)" by (metis prod.exhaust)
  from try_unlock_result [OF t] ok True st t show ?thesis
    by (cases r) (auto simp: step_unlock_def app_ok_def relisted_def)
next
  case False
  with ok st show ?thesis
    by (auto simp: step_unlock_def app_ok_def split: key_code.splits)
qed

lemma step_create_ok:
  assumes ok: "app_ok (CreateVault p c b) ap" and st: "step_create U W p c b k (ap, fs) = ((m, q), ap', fs')"
  shows "app_ok m ap'"
proof (cases "k_code k = KEnter \<and> b \<and> p \<noteq> [] \<and> p = c")
  case True
  obtain r ap1 fs1 where t: "try_create U W p (ap, fs) = (r, ap1, fs1)" by (metis prod.exhaust)
  from try_create_result [OF t] ok True st t show ?thesis
    by (cases r) (auto simp: step_create_def app_ok_def relisted_def Let_def)
next
  case False
  with ok st show ?thesis
    by (auto simp: step_create_def app_ok_def Let_def split: key_code.splits if_splits)
qed

lemma ensure_pairing_same:
  "ap_manager (ensure_pairing U W ap) = ap_manager ap" "ap_names (ensure_pairing U W ap) = ap_names ap"
  "ap_editor (ensure_pairing U W ap) = ap_editor ap" "ap_index (ensure_pairing U W ap) = ap_index ap"
  "ap_selected (ensure_pairing U W ap) = ap_selected ap"
  by (simp_all add: ensure_pairing_def split: option.splits sum.splits)

lemma write_paircode_same:
  assumes "write_paircode U W (ap, fs) = (ap', fs')"
  shows "ap_manager ap' = ap_manager ap" "ap_names ap' = ap_names ap" "ap_editor ap' = ap_editor ap"
    "ap_index ap' = ap_index ap" "ap_selected ap' = ap_selected ap"
  using assms
  by (auto simp: write_paircode_def Let_def ensure_pairing_same split: option.splits prod.splits sum.splits)

lemma copy_selected_same:
  "ap_manager (copy_selected U W ap) = ap_manager ap" "ap_names (copy_selected U W ap) = ap_names ap"
  "ap_editor (copy_selected U W ap) = ap_editor ap" "ap_index (copy_selected U W ap) = ap_index ap"
  "ap_selected (copy_selected U W ap) = ap_selected ap"
  by (simp_all add: copy_selected_def Let_def split: option.splits sum.splits)

lemma begin_import_ok:
  "app_ok Browse ap \<Longrightarrow> begin_import U W fs ap = (m, ap') \<Longrightarrow> app_ok m ap'"
  by (auto simp: begin_import_def Let_def app_ok_def ensure_pairing_same
      split: option.splits sum.splits prod.splits if_splits)

lemma begin_edit_ok: "app_ok Browse ap \<Longrightarrow> begin_edit U ap = (m, ap') \<Longrightarrow> app_ok m ap'"
  by (auto simp: begin_edit_def app_ok_def editor_from_bytes_inv num_titles_2
      split: option.splits sum.splits)

lemma navigation_ok:
  "app_ok Browse ap \<Longrightarrow> app_ok Browse (next_tab ap)" "app_ok Browse ap \<Longrightarrow> app_ok Browse (prev_tab ap)"
  "app_ok Browse ap \<Longrightarrow> app_ok Browse (select_prev ap)" "app_ok Browse ap \<Longrightarrow> app_ok Browse (select_next ap)"
  by (auto simp: app_ok_def next_tab_def prev_tab_def select_prev_def select_next_def num_titles_2)

lemma step_browse_ok:
  assumes ok: "app_ok Browse ap" and st: "step_browse U W k (ap, fs) = ((m, q), ap', fs')"
  shows "app_ok m ap'"
proof -
  have upd: "app_ok Browse (a\<lparr>ap_reveal_until := t\<rparr>)" "app_ok (AddName []) (a\<lparr>ap_error := e\<rparr>)"
    "app_ok (AddTotpName []) (a\<lparr>ap_error := e\<rparr>)" "app_ok (ConfirmDelete n) a"
    if "app_ok Browse a" for a t e n
    using that by (auto simp: app_ok_def)
  have cp: "app_ok Browse (copy_selected U W ap)" using ok by (auto simp: app_ok_def copy_selected_same)
  have qr: "app_ok Browse ((ensure_pairing U W (ap\<lparr>ap_error := None, ap_status := None\<rparr>))\<lparr>ap_qr := t\<rparr>)" for t
    using ok by (auto simp: app_ok_def ensure_pairing_same)
  have wp: "write_paircode U W (ap, fs) = (ap', fs') \<Longrightarrow> app_ok Browse ap'"
    using ok write_paircode_same [of U W ap fs ap' fs'] by (auto simp: app_ok_def)
  show ?thesis
    using st ok unfolding step_browse_def Let_def
    by (auto intro: navigation_ok upd cp qr begin_edit_ok begin_import_ok wp
        split: if_splits option.splits prod.splits)
qed

lemma step_names_ok:
  "app_ok (AddName i) ap \<Longrightarrow> step_add_name i k (ap, fs) = ((m, q), ap', fs') \<Longrightarrow> app_ok m ap'"
  "app_ok (AddTotpName i) ap \<Longrightarrow> step_totp_name i k (ap, fs) = ((m, q), ap', fs') \<Longrightarrow> app_ok m ap'"
  by (auto simp: step_add_name_def step_totp_name_def app_ok_def num_titles_2
      split: key_code.splits if_splits)

lemma store_generated_totp_ok:
  assumes ok: "app_ok (AddTotpSeed n i) ap" and st: "store_generated_totp U W n (ap, fs) = (m, ap', fs')"
  shows "app_ok m ap'"
proof -
  let ?mg = "ap_manager ap"
  let ?ap0 = "ap\<lparr>ap_manager := ?mg\<lparr>mg_calls := Suc (mg_calls ?mg)\<rparr>\<rparr>"
  have u: "mg_is_unlocked ?mg" "mg_is_unlocked (ap_manager ?ap0)" using ok by (auto simp: app_ok_def mg_is_unlocked_def)
  show ?thesis
  proof (cases "random_bytes (u_manager U) (mg_calls ?mg) 20")
    case (Inl e)
    with st ok u show ?thesis by (auto simp: store_generated_totp_def Let_def app_ok_def)
  next
    case (Inr secret)
    let ?uri = "to_uri \<lparr>totp_secret = secret, totp_digits = 6, totp_period = 30, totp_algorithm = Sha1\<rparr> n"
    obtain r ap1 fs1 where s: "save_edited_value U W n (utf8 ?uri) (?ap0, fs) = (r, ap1, fs1)"
      by (metis prod.exhaust)
    from save_edited_relists [OF s u(2)] Inr s st ok u show ?thesis
      by (cases r) (auto simp: store_generated_totp_def Let_def app_ok_def relisted_def select_name_same)
  qed
qed

lemma step_totp_seed_ok:
  assumes ok: "app_ok (AddTotpSeed n i) ap" and st: "step_totp_seed U W n i k (ap, fs) = ((m, q), ap', fs')"
  shows "app_ok m ap'"
proof -
  have u: "mg_is_unlocked (ap_manager ap)" using ok by (auto simp: app_ok_def)
  have save: "app_ok Browse (ap1\<lparr>ap_error := e\<rparr>)" "app_ok Browse ((select_name n ap1)\<lparr>ap_status := t\<rparr>)"
    if "save_edited_value U W n v (ap, fs) = (r, ap1, fs1)" for v r ap1 fs1 e t
    using save_edited_relists [OF that u] ok by (auto simp: app_ok_def relisted_def select_name_same)
  have upd: "app_ok Browse (a\<lparr>ap_error := e\<rparr>)" "app_ok (AddTotpSeed n j) (a\<lparr>ap_error := e\<rparr>)"
    "app_ok (AddTotpSeed n j) a" if "app_ok (AddTotpSeed n i) a" for a e j
    using that by (auto simp: app_ok_def)
  show ?thesis
    using st ok store_generated_totp_ok [OF ok]
    by (auto simp: step_totp_seed_def upd save
        split: if_splits key_code.splits option.splits prod.splits sum.splits)
qed

lemma step_edit_ok:
  assumes ok: "app_ok (EditValue n b) ap" and st: "step_edit U W n b k (ap, fs) = ((m, q), ap', fs')"
  shows "app_ok m ap'"
proof -
  have u: "mg_is_unlocked (ap_manager ap)" using ok by (auto simp: app_ok_def)
  have save: "app_ok (EditValue n b) (ap1\<lparr>ap_error := e\<rparr>)"
    "app_ok Browse ((select_name n (ap1\<lparr>ap_editor := editor_new, ap_index := 0\<rparr>))\<lparr>ap_error := e\<rparr>)"
    if "save_edited_value U W n v (ap, fs) = (r, ap1, fs1)" for v r ap1 fs1 e
    using save_edited_relists [OF that u] ok by (auto simp: app_ok_def relisted_def select_name_same num_titles_2)
  have upd: "app_ok (EditValue n b) (ap\<lparr>ap_editor := push_char c (ap_editor ap)\<rparr>)"
    "app_ok (EditValue n b) (ap\<lparr>ap_editor := backspace (ap_editor ap)\<rparr>)"
    "app_ok Browse (ap\<lparr>ap_editor := editor_new, ap_index := 0\<rparr>)"
    "app_ok (Generate n b True []) (ap\<lparr>ap_error := None\<rparr>)" for c
    using ok by (auto simp: app_ok_def push_char_inv backspace_inv num_titles_2)
  show ?thesis
    using st ok
    by (auto simp: step_edit_def upd save split: if_splits key_code.splits prod.splits sum.splits)
qed

lemma generate_value_unlocked:
  "generate_value U w n mg = Some (r, mg') \<Longrightarrow> mg_is_unlocked mg' = mg_is_unlocked mg"
  by (auto simp: generate_value_def mg_is_unlocked_def split: if_splits)

lemma step_generate_ok:
  assumes ok: "app_ok (Generate n b w d) ap" and st: "step_generate U n b w d k (ap, fs) = Some ((m, q), ap', fs')"
  shows "app_ok m ap'"
  using assms
  by (auto simp: step_generate_def app_ok_def editor_from_bytes_inv
      split: key_code.splits if_splits option.splits prod.splits sum.splits dest!: generate_value_unlocked)

lemma step_delete_ok:
  assumes ok: "app_ok (ConfirmDelete n) ap" and st: "step_delete U W n k (ap, fs) = ((m, q), ap', fs')"
  shows "app_ok m ap'"
proof -
  have u: "mg_is_unlocked (ap_manager ap)" using ok by (auto simp: app_ok_def)
  have "app_ok Browse ap1" "app_ok Browse (ap1\<lparr>ap_error := e\<rparr>)"
    if "delete_named U W n (ap, fs) = (r, ap1, fs1)" for r ap1 fs1 e
    using delete_named_relists [OF that u] ok by (auto simp: app_ok_def relisted_def)
  moreover have "app_ok Browse ap" using ok by (auto simp: app_ok_def)
  ultimately show ?thesis
    using st by (auto simp: step_delete_def split: if_splits prod.splits sum.splits)
qed

lemma step_import_ok:
  assumes ok: "app_ok (ConfirmImport n s f) ap" and st: "step_import U W n s f k (ap, fs) = ((m, q), ap', fs')"
  shows "app_ok m ap'"
proof -
  have u: "mg_is_unlocked (ap_manager ap)" using ok by (auto simp: app_ok_def)
  have "app_ok Browse (ap1\<lparr>ap_error := e\<rparr>)" "app_ok Browse ((select_name n ap1)\<lparr>ap_index := 0, ap_status := t\<rparr>)"
    if "save_edited_value U W n v (ap, fs) = (r, ap1, fs1)" for v r ap1 fs1 e t
    using save_edited_relists [OF that u] ok
    by (auto simp: app_ok_def relisted_def select_name_same num_titles_2)
  moreover have "app_ok Browse (ap\<lparr>ap_status := t\<rparr>)" for t using ok by (auto simp: app_ok_def)
  ultimately show ?thesis
    using st by (auto simp: step_import_def split: if_splits prod.splits sum.splits)
qed

lemma ui_step_ok:
  assumes "app_ok m ap" "ui_step U W m k (ap, fs) = Some ((m', q), ap', fs')"
  shows "app_ok m' ap'"
  using assms
  by (cases m)
     (auto simp: ui_step_def dest: step_unlock_ok step_create_ok step_browse_ok step_names_ok step_totp_seed_ok
      step_edit_ok step_generate_ok step_delete_ok step_import_ok)

end
