(* ===== verification/TuiRun.thy ===== *)
theory TuiRun
  imports Tui Session
begin

text \<open>
  The event loop of \<open>src/ui/mod.rs\<close> around \<open>handle_key\<close> and \<open>maybe_autolock\<close>, and what holds of whole
  runs of the interface: its invariant, that locking leaves nothing behind, and what an edit stores.
\<close>

text \<open>
  One round of \<open>run_app\<close>: the key press that \<open>poll\<close> and \<open>read\<close> deliver, if any (other events are
  ignored), and the time at which the round checks for idleness. The argument lists the rounds up to
  the moment of interest. \<open>True\<close> means that \<open>run_app\<close> has returned.
\<close>

type_synonym round = "(key_world \<times> key_event) option \<times> nat"

fun run_app :: "ui_env \<Rightarrow> round list \<Rightarrow> app \<times> fs \<Rightarrow> (bool \<times> app \<times> fs) option" where
  "run_app U [] s = Some (False, s)"
| "run_app U ((ev, now) # rounds) s =
     (case (case ev of Some (W, k) \<Rightarrow> handle_key U W k s | None \<Rightarrow> Some (False, s)) of
        None \<Rightarrow> None
      | Some (True, s') \<Rightarrow> Some (True, s')
      | Some (False, ap, fs) \<Rightarrow> run_app U rounds (maybe_autolock now ap, fs))"

lemma run_app_append:
  "run_app U (rs @ rs') s =
     (case run_app U rs s of
        None \<Rightarrow> None | Some (True, s') \<Rightarrow> Some (True, s') | Some (False, s') \<Rightarrow> run_app U rs' s')"
  by (induction U rs s rule: run_app.induct) (auto split: option.splits bool.splits prod.splits)

subsection \<open>The invariant along a run\<close>

lemma app_ok_fields [simp]:
  "app_ok m (ap\<lparr>ap_mode := m'\<rparr>) = app_ok m ap" "app_ok m (ap\<lparr>ap_last_activity := t\<rparr>) = app_ok m ap"
  by (simp_all add: app_ok_def)

lemma app_new_ok: "app_ok (ap_mode (app_new vars now path fs)) (app_new vars now path fs)"
  by (simp add: app_new_def app_ok_def manager_new_def mg_is_unlocked_def num_titles_2)

lemma lock_app_ok: "app_ok m ap \<Longrightarrow> app_ok (ap_mode (lock_app ap)) (lock_app ap)"
  by (simp add: lock_app_def app_ok_def mg_lock_def mg_is_unlocked_def)

lemma maybe_autolock_ok:
  "app_ok (ap_mode ap) ap \<Longrightarrow> app_ok (ap_mode (maybe_autolock now ap)) (maybe_autolock now ap)"
  by (simp add: maybe_autolock_def lock_app_ok)

lemma handle_key_ok:
  assumes ok: "app_ok (ap_mode ap) ap" and hk: "handle_key U W k (ap, fs) = Some (q, ap', fs')"
  shows "app_ok (ap_mode ap') ap'"
proof -
  let ?ap1 = "ap\<lparr>ap_last_activity := kw_now W\<rparr>"
  consider (quit) "k_code k = kc CHR ''c''" "k_ctrl k" | (lock) "ap' = lock_app ?ap1"
    | (qr) "ap' = ?ap1\<lparr>ap_qr := None\<rparr>"
    | (step) m ap2 where "ui_step U W (ap_mode ap) k (?ap1\<lparr>ap_mode := Browse\<rparr>, fs) = Some ((m, q), ap2, fs')"
        "ap' = ap2\<lparr>ap_mode := m\<rparr>"
    using hk by (auto simp: handle_key_def Let_def split: if_splits option.splits prod.splits)
  then show ?thesis
  proof cases
    case quit
    with hk ok show ?thesis by (auto simp: handle_key_def)
  next
    case lock
    have "app_ok (ap_mode ap) ?ap1" using ok by simp
    from lock_app_ok [OF this] show ?thesis unfolding lock .
  next
    case qr
    with ok show ?thesis by (simp add: app_ok_def)
  next
    case step
    have "app_ok (ap_mode ap) (?ap1\<lparr>ap_mode := Browse\<rparr>)" using ok by simp
    from ui_step_ok [OF this step(1)] step(2) show ?thesis by simp
  qed
qed

lemma run_app_ok:
  "run_app U rs (ap, fs) = Some (q, ap', fs') \<Longrightarrow> app_ok (ap_mode ap) ap \<Longrightarrow> app_ok (ap_mode ap') ap'"
proof (induction rs arbitrary: ap fs)
  case Nil
  then show ?case by simp
next
  case (Cons r rs)
  obtain ev now where r: "r = (ev, now)" by force
  obtain b ap1 fs1 where 1: "(case ev of Some (W, k) \<Rightarrow> handle_key U W k (ap, fs) | None \<Rightarrow> Some (False, ap, fs))
      = Some (b, ap1, fs1)"
    using Cons.prems(1) r by (auto split: option.splits)
  have ok1: "app_ok (ap_mode ap1) ap1"
    using 1 Cons.prems(2) handle_key_ok by (auto split: option.splits prod.splits)
  show ?case
  proof (cases b)
    case True
    with Cons.prems(1) r 1 ok1 show ?thesis by simp
  next
    case False
    with Cons.prems(1) r 1 have "run_app U rs (maybe_autolock now ap1, fs1) = Some (q, ap', fs')" by simp
    with Cons.IH maybe_autolock_ok [OF ok1] show ?thesis by blast
  qed
qed

subsection \<open>An edit, from the list to the vault\<close>

definition key_of :: "edit \<Rightarrow> key_event" where
  "key_of e = \<lparr>k_code = (case e of Push c \<Rightarrow> KChar c | Back \<Rightarrow> KBackspace), k_ctrl = False\<rparr>"

text \<open>A round with a key press that is not followed by a pause beyond the timeout \<open>T\<close>.\<close>

definition brisk :: "nat \<Rightarrow> key_world \<times> nat \<Rightarrow> bool" where
  "brisk T = (\<lambda>(W, now). T = 0 \<or> now - kw_now W < T)"

text \<open>The interface while the value of \<open>n\<close> is edited; \<open>ap\<close> gives what the edit does not touch.\<close>

definition editing_app :: "rstr \<Rightarrow> editor \<Rightarrow> nat \<Rightarrow> app \<Rightarrow> app" where
  "editing_app n ed t ap = ap\<lparr>ap_mode := EditValue n False, ap_editor := ed, ap_last_activity := t\<rparr>"

lemma editing_app_sel [simp]:
  "ap_mode (editing_app n ed t ap) = EditValue n False" "ap_editor (editing_app n ed t ap) = ed"
  "ap_last_activity (editing_app n ed t ap) = t" "ap_idle_timeout (editing_app n ed t ap) = ap_idle_timeout ap"
  "ap_manager (editing_app n ed t ap) = ap_manager ap" "ap_qr (editing_app n ed t ap) = ap_qr ap"
  by (simp_all add: editing_app_def)

lemma brisk_no_lock:
  "brisk (ap_idle_timeout ap) (W, now) \<Longrightarrow> ap_last_activity ap = kw_now W \<Longrightarrow> maybe_autolock now ap = ap"
  by (auto simp: brisk_def maybe_autolock_def)

lemma edit_key:
  assumes "ap_qr ap = None"
  shows "handle_key U W (key_of e) (editing_app n ed t ap, fs)
    = Some (False, editing_app n (edit_step e ed) (kw_now W) ap, fs)"
  using assms
  by (cases e) (simp_all add: handle_key_def key_of_def ui_step_def step_edit_def editing_app_def kc_def)

lemma edit_run:
  assumes "ap_qr ap = None" "\<forall>(e, W, now)\<in>set es. brisk (ap_idle_timeout ap) (W, now)"
  shows "\<exists>t'. run_app U (map (\<lambda>(e, W, now). (Some (W, key_of e), now)) es) (editing_app n ed t ap, fs)
    = Some (False, editing_app n (fold edit_step (map fst es) ed) t' ap, fs)"
  using assms(2)
proof (induction es arbitrary: ed t)
  case Nil
  then show ?case by auto
next
  case (Cons x es)
  obtain e W now where x: "x = (e, W, now)" by (cases x)
  have b: "brisk (ap_idle_timeout ap) (W, now)" using Cons.prems x by auto
  have "maybe_autolock now (editing_app n (edit_step e ed) (kw_now W) ap) = editing_app n (edit_step e ed) (kw_now W) ap"
    using b by (intro brisk_no_lock) simp_all
  with Cons.IH [of "edit_step e ed" "kw_now W"] Cons.prems show ?case
    by (simp add: x edit_key [OF assms(1)])
qed

lemma edit_opens:
  assumes "ap_mode ap = Browse" "ap_index ap = 0" "ap_qr ap = None" "selected_name ap = Some n"
    and "mg_get_secret (u_manager U) (ap_manager ap) n = Inr (Some v)"
  shows "handle_key U W \<lparr>k_code = kc CHR ''e'', k_ctrl = False\<rparr> (ap, fs)
    = Some (False, editing_app n (editor_from_bytes v) (kw_now W) (ap\<lparr>ap_error := None\<rparr>), fs)"
proof -
  have "selected_name (ap\<lparr>ap_last_activity := kw_now W, ap_mode := Browse\<rparr>) = Some n"
    using assms(4) by (simp add: selected_name_def split: if_splits)
  with assms show ?thesis
    by (simp add: handle_key_def Let_def ui_step_def step_browse_def begin_edit_def editing_app_def kc_def ascii_def)
qed

text \<open>Ctrl-S either stores the buffer and returns to the list, or keeps it with the error.\<close>

lemma edit_saves:
  assumes "ap_qr ap = None" "mg_is_unlocked (ap_manager ap)"
    and put: "mg_put_secret (u_manager U) (kw_op W) n (as_bytes ed) (ap_manager ap, fs) = (r, mg', fs')"
  shows "\<exists>ap'. handle_key U W \<lparr>k_code = kc CHR ''s'', k_ctrl = True\<rparr> (editing_app n ed t ap, fs) = Some (False, ap', fs')
    \<and> ap_manager ap' = mg' \<and> ap_last_activity ap' = kw_now W \<and> ap_idle_timeout ap' = ap_idle_timeout ap
    \<and> (if r = Inr () then ap_mode ap' = Browse \<and> ap_editor ap' = editor_new \<and> ap_error ap' = None
       else ap_mode ap' = EditValue n False \<and> ap_editor ap' = ed \<and> ap_error ap' \<noteq> None)"
proof -
  let ?ap1 = "(editing_app n ed t ap)\<lparr>ap_last_activity := kw_now W, ap_mode := Browse\<rparr>"
  have hk: "handle_key U W \<lparr>k_code = kc CHR ''s'', k_ctrl = True\<rparr> (editing_app n ed t ap, fs)
      = (case step_edit U W n False \<lparr>k_code = kc CHR ''s'', k_ctrl = True\<rparr> (?ap1, fs) of
           ((m, q), ap2, fs2) \<Rightarrow> Some (q, ap2\<lparr>ap_mode := m\<rparr>, fs2))"
    using assms(1) by (simp add: handle_key_def ui_step_def kc_def ascii_def editing_app_def split: prod.splits)
  have put1: "mg_put_secret (u_manager U) (kw_op W) n (as_bytes ed) (ap_manager ?ap1, fs) = (r, mg', fs')"
    using put by simp
  show ?thesis
  proof (cases r)
    case (Inl e)
    with hk put1 show ?thesis by (simp add: step_edit_def save_edited_value_def kc_def)
  next
    case (Inr u)
    obtain q ap2 where rf: "refresh_names U (?ap1\<lparr>ap_manager := mg'\<rparr>) = (q, ap2)" by force
    have "mg_is_unlocked mg'" using mg_put_unlocked [OF put] assms(2) by simp
    with refresh_names_open [OF rf, of "?ap1\<lparr>ap_manager := mg'\<rparr>" "ap_selected ?ap1"]
    have q: "q = Inr ()" "ap_manager ap2 = mg'" by (simp_all add: relisted_def)
    have keep: "ap_last_activity ap2 = kw_now W" "ap_idle_timeout ap2 = ap_idle_timeout ap"
      using rf by (auto simp: refresh_names_def editing_app_def split: sum.splits)
    have sel: "ap_last_activity (select_name n a) = ap_last_activity a"
      "ap_idle_timeout (select_name n a) = ap_idle_timeout a" for a
      by (simp_all add: select_name_def split: option.splits)
    show ?thesis
      using hk put1 rf q keep Inr
      by (simp add: step_edit_def save_edited_value_def kc_def select_name_same sel)
  qed
qed

definition edit_rounds :: "key_world \<times> nat \<Rightarrow> (edit \<times> key_world \<times> nat) list \<Rightarrow> key_world \<times> nat \<Rightarrow> round list" where
  "edit_rounds = (\<lambda>(W0, t0) es (W1, t1).
     (Some (W0, \<lparr>k_code = kc CHR ''e'', k_ctrl = False\<rparr>), t0)
     # map (\<lambda>(e, W, now). (Some (W, key_of e), now)) es
     @ [(Some (W1, \<lparr>k_code = kc CHR ''s'', k_ctrl = True\<rparr>), t1)])"

lemma edit_session:
  assumes "ap_mode ap = Browse" "ap_index ap = 0" "ap_qr ap = None" "selected_name ap = Some n"
    and "mg_get_secret (u_manager U) (ap_manager ap) n = Inr (Some v)"
    and "brisk (ap_idle_timeout ap) (W0, t0)" "\<forall>(e, r)\<in>set es. brisk (ap_idle_timeout ap) r"
    and "brisk (ap_idle_timeout ap) (W1, t1)"
    and "take CAPACITY v = utf8 s" and "typed = fold text_step (map fst es) s"
    and "mg_put_secret (u_manager U) (kw_op W1) n (utf8 typed) (ap_manager ap, fs) = (r, mg', fs')"
  shows "\<exists>ap'. run_app U (edit_rounds (W0, t0) es (W1, t1)) (ap, fs) = Some (False, ap', fs')
    \<and> ap_manager ap' = mg'
    \<and> (if r = Inr () then ap_mode ap' = Browse \<and> as_bytes (ap_editor ap') = [] \<and> ap_error ap' = None
       else ap_mode ap' = EditValue n False \<and> as_bytes (ap_editor ap') = utf8 typed \<and> ap_error ap' \<noteq> None)"
proof -
  let ?ap = "ap\<lparr>ap_error := None\<rparr>" and ?ed = "fold edit_step (map fst es) (editor_from_bytes v)"
  have "holding (utf8 s) (editor_from_bytes v)"
    using assms(9) by (simp add: holding_iff editor_from_bytes_inv as_bytes_from_bytes)
  then have ed: "as_bytes ?ed = utf8 typed" using edits_holding assms(10) by (simp add: holding_iff)
  have open0: "maybe_autolock t0 (editing_app n (editor_from_bytes v) (kw_now W0) ?ap)
      = editing_app n (editor_from_bytes v) (kw_now W0) ?ap"
    using assms(6) by (intro brisk_no_lock) simp_all
  obtain t' where run: "run_app U (map (\<lambda>(e, W, now). (Some (W, key_of e), now)) es)
      (editing_app n (editor_from_bytes v) (kw_now W0) ?ap, fs) = Some (False, editing_app n ?ed t' ?ap, fs)"
    using edit_run [of ?ap es U n "editor_from_bytes v" "kw_now W0" fs] assms(3,7) by auto
  have "mg_is_unlocked (ap_manager ?ap)"
    using assms(5) by (auto simp: mg_get_secret_def mg_is_unlocked_def res_simps)
  then obtain ap' where sv: "handle_key U W1 \<lparr>k_code = kc CHR ''s'', k_ctrl = True\<rparr> (editing_app n ?ed t' ?ap, fs)
        = Some (False, ap', fs')" "ap_manager ap' = mg'" "ap_last_activity ap' = kw_now W1"
      "ap_idle_timeout ap' = ap_idle_timeout ap"
      "if r = Inr () then ap_mode ap' = Browse \<and> ap_editor ap' = editor_new \<and> ap_error ap' = None
       else ap_mode ap' = EditValue n False \<and> ap_editor ap' = ?ed \<and> ap_error ap' \<noteq> None"
    using edit_saves [of ?ap U W1 n ?ed fs r mg' fs' t'] assms(3,11) ed by auto
  have "maybe_autolock t1 ap' = ap'" using assms(8) sv(3,4) by (intro brisk_no_lock) simp_all
  then have "run_app U (edit_rounds (W0, t0) es (W1, t1)) (ap, fs) = Some (False, ap', fs')"
    using edit_opens [OF assms(1-5)] open0 run sv(1) by (simp add: edit_rounds_def run_app_append)
  then show ?thesis using sv(2,5) ed by auto
qed

subsection \<open>Two rough edges\<close>

text \<open>Deleting does not stop the reveal timer, so the value that is selected next shows in clear.\<close>

lemma delete_keeps_reveal:
  assumes "step_delete U W n k (ap, fs) = ((m, q), ap', fs')" "mg_is_unlocked (ap_manager ap)"
  shows "value_revealed now ap' = value_revealed now ap"
proof -
  have "ap_reveal_until a = ap_reveal_until ap" if "delete_named U W n (ap, fs) = (r, a, fs1)" for r a fs1
    using delete_named_relists [OF that assms(2)] by (simp add: relisted_def)
  with assms(1) show ?thesis
    by (auto simp: step_delete_def value_revealed_def split: if_splits prod.splits sum.splits)
qed

text \<open>Ctrl-L before there is a vault leaves the prompt that creates it, for good: a prompt to unlock the
  missing file, where each key press leads back to that prompt or ends the program.\<close>

lemma lock_before_creation:
  assumes "fs path = None"
  shows "run_app U [(Some (W, \<lparr>k_code = kc CHR ''l'', k_ctrl = True\<rparr>), t)] (app_new vars now path fs, fs)
      = Some (False, lock_app ((app_new vars now path fs)\<lparr>ap_last_activity := kw_now W\<rparr>), fs)"
    and "ls_open E c path pw hw fs \<noteq> Inr st"
proof -
  have "maybe_autolock t (lock_app a) = lock_app a" for a by (simp add: lock_app_def maybe_autolock_def)
  then show "run_app U [(Some (W, \<lparr>k_code = kc CHR ''l'', k_ctrl = True\<rparr>), t)] (app_new vars now path fs, fs)
      = Some (False, lock_app ((app_new vars now path fs)\<lparr>ap_last_activity := kw_now W\<rparr>), fs)"
    by (simp add: handle_key_def Let_def kc_def ascii_def)
  show "ls_open E c path pw hw fs \<noteq> Inr st"
    using assms by (simp add: ls_open_def split: option.splits)
qed

subsection \<open>A concrete interface\<close>

definition demo_ui :: ui_env where
  "demo_ui = \<lparr>u_manager = demo_manager_env, u_transfer = demo_transfer_env, u_cwd = lit ''/'',
     u_mkdir = (\<lambda>_. Inr ()), u_chmod = (\<lambda>_. Inr ())\<rparr>"

definition demo_world :: key_world where
  "demo_world = \<lparr>kw_now = 0, kw_op = demo_op, kw_coins = [1], kw_tools = (\<lambda>_. demo_tool)\<rparr>"

lemma demo_ui_simps [simp]:
  "u_manager demo_ui = demo_manager_env" "kw_op demo_world = demo_op" "kw_now demo_world = 0"
  by (simp_all add: demo_ui_def demo_world_def)

text \<open>The interface after opening a vault with one secret.\<close>

definition demo_app :: app where
  "demo_app = (app_new Map.empty 0 (lit ''v'') demo_files)\<lparr>ap_mode := Browse, ap_names := [lit ''k''],
     ap_manager := manager_new\<lparr>mg_vault := Some demo_full\<rparr>\<rparr>"

lemma idle_timeout_default [simp]: "idle_timeout Map.empty = 300000"
  by (simp add: idle_timeout_def)

lemma demo_app_simps [simp]:
  "ap_mode demo_app = Browse" "ap_index demo_app = 0" "ap_qr demo_app = None"
  "selected_name demo_app = Some (lit ''k'')" "ap_idle_timeout demo_app = 300000"
  "ap_manager demo_app = manager_new\<lparr>mg_vault := Some demo_full\<rparr>" "ap_last_activity demo_app = 0"
  "ap_vault_path demo_app = lit ''v''"
  by (simp_all add: demo_app_def app_new_def selected_name_def)

lemma demo_app_inv: "mg_inv demo_manager_env [1] None (ap_manager demo_app, fs)"
  using demo_inv(2) by (simp add: mg_inv_def demo_manager_env_def)

lemma demo_app_get: "mg_get_secret demo_manager_env (ap_manager demo_app) (lit ''k'') = Inr (Some [5])"
  using local.put_get [OF demo_inv(1) demo_put, where k = "lit ''k''"]
  by (simp add: mg_get_secret_def demo_manager_env_def del: lit_simps)

lemma demo_put_again:
  "mg_put_secret demo_manager_env demo_op (lit ''k'') [5] (ap_manager demo_app, fs)
     = (Inr (), ap_manager demo_app, fs(lit ''v'' \<mapsto> demo_bytes 1, tmp_path (lit ''v'') := None))"
proof -
  have "ls_put_secret demo_vault demo_op (lit ''k'') [5] (demo_full, fs)
      = (Inr (), demo_full, fs(lit ''v'' \<mapsto> demo_bytes 1, tmp_path (lit ''v'') := None))"
    using demo_put [of fs]
    by (simp add: ls_put_secret_def ls_set_def demo_full_def demo_store_def split: sum.splits del: lit_simps)
  then show ?thesis by (simp add: mg_put_secret_def demo_manager_env_def del: lit_simps)
qed

subsection \<open>Properties\<close>

text \<open>C18. The interface never shows the vault without having it unlocked, nor keeps anything of it once it
  is locked: whatever keys are pressed, with whatever faults and pauses in between, it prompts for a
  passphrase exactly while the vault is locked, then holds no names, no pairing session, no QR code and
  no reveal timer, its editor is empty outside of editing, and the tab and the selection stay in range.\<close>

theorem tui_invariant:
  assumes "run_app U rounds (app_new vars now path fs, fs) = Some (quit, ap, fs')"
  shows "app_ok (ap_mode ap) ap"
  using run_app_ok [OF assms app_new_ok] .

theorem tui_invariant_witness:
  "\<exists>ap. run_app demo_ui [(Some (demo_world, \<lparr>k_code = KChar (rchr 1), k_ctrl = False\<rparr>), 0),
      (Some (demo_world, \<lparr>k_code = KEnter, k_ctrl = False\<rparr>), 0)]
      (app_new Map.empty 0 (lit ''v'') demo_files, demo_files) = Some (False, ap, demo_files)
    \<and> ap_mode ap = Browse \<and> app_ok Browse ap"
proof -
  let ?W = demo_world and ?ap = "app_new Map.empty 0 (lit ''v'') demo_files"
  let ?rs = "[(Some (?W, \<lparr>k_code = KChar (rchr 1), k_ctrl = False\<rparr>), 0),
      (Some (?W, \<lparr>k_code = KEnter, k_ctrl = False\<rparr>), 0)]"
  have f: "demo_files (lit ''v'') = Some (demo_bytes 0)" by (simp add: demo_files_def)
  have utf: "utf8 [rchr 1] = [1]" by (simp add: encode_utf8_def scalar_def as_u8_def)
  obtain ap where run: "run_app demo_ui ?rs (?ap, demo_files) = Some (False, ap, demo_files)" "ap_mode ap = Browse"
    using demo_open [of demo_files] f
    by (simp add: app_new_def handle_key_def ui_step_def step_unlock_def try_unlock_def utf refresh_names_def
        mg_secret_names_def maybe_autolock_def kc_def ascii_def del: lit_simps utf8_simps One_nat_def)
  with tui_invariant [OF run(1)] show ?thesis by auto
qed

text \<open>C19. Locking forgets: after Ctrl-L, and after idling past the timeout, the state of the interface keeps no trace of
  what it held (what may linger in freed memory is not part of the state). Two interfaces on the same vault file, with whatever different secrets, names,
  half-typed values and passphrases, pairing sessions and messages, are equal once they have been
  locked, and locked they are. What survives is the tab, the settings, the in-memory secrets and the
  position in the random source.\<close>

theorem locking_forgets:
  assumes "ap_index ap = ap_index bp" "ap_vault_path ap = ap_vault_path bp"
    and "ap_idle_timeout ap = ap_idle_timeout bp" "ap_last_activity ap = ap_last_activity bp"
    and "mg_ram (ap_manager ap) = mg_ram (ap_manager bp)" "mg_calls (ap_manager ap) = mg_calls (ap_manager bp)"
    and "\<not> prompting (ap_mode ap)" "\<not> prompting (ap_mode bp)"
    and "ev = Some (W, \<lparr>k_code = kc CHR ''l'', k_ctrl = True\<rparr>)
      \<or> ev = None \<and> 0 < ap_idle_timeout ap \<and> ap_last_activity ap + ap_idle_timeout ap \<le> now"
  shows "\<exists>locked. run_app U [(ev, now)] (ap, fs) = Some (False, locked, fs)
    \<and> run_app U [(ev, now)] (bp, fs) = Some (False, locked, fs)
    \<and> \<not> mg_is_unlocked (ap_manager locked)"
proof -
  have mg: "mg_lock (ap_manager ap) = mg_lock (ap_manager bp)" using assms(5,6) by (simp add: mg_lock_def)
  have eq: "lock_app (ap\<lparr>ap_last_activity := t\<rparr>) = lock_app (bp\<lparr>ap_last_activity := t\<rparr>)" for t
    using assms(1-3) mg by (simp add: lock_app_def)
  have id: "ap\<lparr>ap_last_activity := ap_last_activity ap\<rparr> = ap" "bp\<lparr>ap_last_activity := ap_last_activity ap\<rparr> = bp"
    using assms(4) by simp_all
  have eq': "lock_app ap = lock_app bp" using eq [of "ap_last_activity ap"] unfolding id .
  have locked: "\<not> mg_is_unlocked (ap_manager (lock_app a))" "maybe_autolock now (lock_app a) = lock_app a" for a
    by (simp_all add: lock_app_def mg_lock_def mg_is_unlocked_def maybe_autolock_def)
  from assms(9) show ?thesis
  proof
    assume "ev = Some (W, \<lparr>k_code = kc CHR ''l'', k_ctrl = True\<rparr>)"
    then show ?thesis
      using eq locked by (simp add: handle_key_def kc_def ascii_def)
  next
    assume "ev = None \<and> 0 < ap_idle_timeout ap \<and> ap_last_activity ap + ap_idle_timeout ap \<le> now"
    then have "ev = None" "maybe_autolock now ap = lock_app ap" "maybe_autolock now bp = lock_app bp"
      using assms(3,4,7,8) by (auto simp: maybe_autolock_def)
    then show ?thesis using eq' locked by simp
  qed
qed

theorem locking_forgets_witness:
  "\<exists>locked. run_app demo_ui [(None, 300000)] (demo_app, demo_files) = Some (False, locked, demo_files)
    \<and> run_app demo_ui [(None, 300000)]
        (demo_app\<lparr>ap_mode := EditValue [] True, ap_editor := editor_from_bytes [9], ap_names := [[]]\<rparr>, demo_files)
      = Some (False, locked, demo_files)
    \<and> \<not> mg_is_unlocked (ap_manager locked)"
  by (rule locking_forgets) simp_all

text \<open>C22. Editing a value: \<open>e\<close> on a selected text, any typing and rubbing out, and Ctrl-S store under its name
  exactly the text those keys make of it (what does not fit the editor's 64 KiB being ignored), leave
  every other secret as it was, and empty the editor; where storing fails, the error is shown and the
  edited text is still there. A value that does not fit the editor in the first place is cut to its
  first 64 KiB, which is what is stored then.\<close>

theorem edit_stores_typed_text:
  assumes "ap_mode ap = Browse" "ap_index ap = 0" "ap_qr ap = None" "selected_name ap = Some n"
    and "mg_get_secret (u_manager U) (ap_manager ap) n = Inr (Some v)"
    and "mg_inv (u_manager U) pw hw (ap_manager ap, fs)"
    and "brisk (ap_idle_timeout ap) (W0, t0)" "\<forall>(e, r)\<in>set es. brisk (ap_idle_timeout ap) r"
    and "brisk (ap_idle_timeout ap) (W1, t1)"
    and "take CAPACITY v = utf8 s" and "typed = fold text_step (map fst es) s"
    and "mg_put_secret (u_manager U) (kw_op W1) n (utf8 typed) (ap_manager ap, fs) = (r, mg', fs')"
  shows "\<exists>ap'. run_app U (edit_rounds (W0, t0) es (W1, t1)) (ap, fs) = Some (False, ap', fs')
    \<and> ap_manager ap' = mg'
    \<and> (if r = Inr ()
       then ap_mode ap' = Browse \<and> as_bytes (ap_editor ap') = [] \<and> ap_error ap' = None
         \<and> (\<forall>k. mg_get_secret (u_manager U) mg' k
              = (if k = n then Inr (Some (utf8 typed)) else mg_get_secret (u_manager U) (ap_manager ap) k))
       else ap_mode ap' = EditValue n False \<and> as_bytes (ap_editor ap') = utf8 typed \<and> ap_error ap' \<noteq> None)"
  using edit_session [OF assms(1-5,7-12)] mgr.put_get [OF assms(6), of "kw_op W1" n "utf8 typed" "(mg', fs')"] assms(12)
  by auto

theorem edit_stores_typed_text_witness:
  "\<exists>ap'. run_app demo_ui [(Some (demo_world, \<lparr>k_code = kc CHR ''e'', k_ctrl = False\<rparr>), 0),
        (Some (demo_world, key_of (Push (rchr 65))), 0), (Some (demo_world, key_of Back), 0),
        (Some (demo_world, \<lparr>k_code = kc CHR ''s'', k_ctrl = True\<rparr>), 0)] (demo_app, demo_files)
      = Some (False, ap', demo_files(lit ''v'' \<mapsto> demo_bytes 1, tmp_path (lit ''v'') := None))
    \<and> ap_mode ap' = Browse \<and> mg_get_secret demo_manager_env (ap_manager ap') (lit ''k'') = Inr (Some [5])"
proof -
  let ?es = "[(Push (rchr 65), demo_world, 0 :: nat), (Back, demo_world, 0)]"
  have b: "brisk (ap_idle_timeout demo_app) (demo_world, 0)" by (simp add: brisk_def)
  have utf: "utf8 [rchr 5] = [5]" by (simp add: encode_utf8_def scalar_def as_u8_def)
  have "fold text_step (map fst ?es) [rchr 5] = [rchr 5]"
    by (simp add: CAPACITY_def encode_utf8_def scalar_def)
  moreover have "take CAPACITY [5] = utf8 [rchr 5]" by (simp add: utf CAPACITY_def del: utf8_simps)
  ultimately show ?thesis
    using edit_stores_typed_text [of demo_app "lit ''k''" demo_ui "[5]" "[1]" None demo_files demo_world 0 ?es
        demo_world 0 "[rchr 5]" "[rchr 5]"] b demo_app_get demo_app_inv demo_put_again
    by (auto simp: utf edit_rounds_def simp del: lit_simps utf8_simps fun_upd_apply)
qed

text \<open>C14. Both interfaces keep one vault: what an edit in the terminal interface stored, an agent that
  \<open>signin\<close> starts afterwards on the same vault with the same passphrase holds, under that name exactly
  the typed text and under every other name what the terminal interface held (as long as the file is
  within the 32 MiB that \<open>open\<close> accepts).\<close>

theorem tui_edit_reaches_agent:
  assumes "ap_mode ap = Browse" "ap_index ap = 0" "ap_qr ap = None" "selected_name ap = Some n"
    and "mg_get_secret (u_manager U) (ap_manager ap) n = Inr (Some x)"
    and "brisk (ap_idle_timeout ap) (W0, t0)" "\<forall>(e, r)\<in>set es. brisk (ap_idle_timeout ap) r"
    and "brisk (ap_idle_timeout ap) (W1, t1)"
    and "take CAPACITY x = utf8 s" and "typed = fold text_step (map fst es) s"
    and "run_app U (edit_rounds (W0, t0) es (W1, t1)) (ap, fs) = Some (False, ap', fs')" "ap_mode ap' = Browse"
    and "mg_inv (u_manager U) (utf8 pw) None (ap_manager ap, fs)"
    and "mg_vault (ap_manager ap) = Some st" "st_path st = v"
    and "a_manager_env E = u_manager U" "line_safe v" "line_safe pw" "v \<noteq> []"
    and "\<forall>bs. fs' v = Some bs \<longrightarrow> length bs \<le> MAX_VAULT_LEN" "read_fault c = None"
    and "is_ok (random_bytes (u_manager U) 0 32)"
  shows "\<exists>line ag. run_agent E c (handshake v pw) (Inr ()) now (manager_new, fs') = (line, Some ag)
    \<and> strip_prefix (lit ''READY '') line \<noteq> None
    \<and> (\<forall>k. mg_get_secret (u_manager U) (ag_manager ag) k
         = (if k = n then Inr (Some (utf8 typed)) else mg_get_secret (u_manager U) (ap_manager ap) k))"
proof -
  let ?M = "u_manager U"
  obtain r mg1 fs1 where put: "mg_put_secret ?M (kw_op W1) n (utf8 typed) (ap_manager ap, fs) = (r, mg1, fs1)"
    by (metis prod.exhaust)
  have "fs1 = fs'" "r = Inr ()"
    using edit_session [OF assms(1-10) put] assms(11,12) by (auto split: if_splits)
  with put have put': "mg_put_secret ?M (kw_op W1) n (utf8 typed) (ap_manager ap, fs) = (Inr (), mg1, fs')" by simp
  obtain mg3 where mg3: "mg_open_vault ?M c v (utf8 pw) None (manager_new, fs') = (Inr (), mg3, fs')"
      "mg_calls mg3 = 0"
      "\<And>k. mg_get_secret ?M mg3 k = (if k = n then Inr (Some (utf8 typed)) else mg_get_secret ?M (ap_manager ap) k)"
    using mg_put_durable [OF assms(13-15) put' _ assms(21), of manager_new] assms(20)
    by (auto simp: manager_new_def)
  obtain tok where "random_bytes ?M (mg_calls mg3) 32 = Inr tok" using assms(22) mg3(2) is_ok_iff by metis
  then show ?thesis
    using run_agent_starts [of E c v pw manager_new fs' mg3 tok now] mg3(1,3) assms(16-19)
    by (simp add: agent_new_def mg_get_secret_def del: lit_simps)
qed

theorem tui_edit_reaches_agent_witness:
  "\<exists>ap' fs' line ag. run_app demo_ui (edit_rounds (demo_world, 0) [] (demo_world, 0)) (demo_app, demo_files)
      = (Some (False, ap', fs'))
    \<and> run_agent demo_session_env demo_op (handshake (lit ''v'') [rchr 1]) (Inr ()) 9 (manager_new, fs') = (line, Some ag)
    \<and> mg_get_secret demo_manager_env (ag_manager ag) (lit ''k'') = Inr (Some [5])"
proof -
  let ?fs' = "demo_files(lit ''v'' \<mapsto> demo_bytes 1, tmp_path (lit ''v'') := None)"
  have b: "brisk (ap_idle_timeout demo_app) (demo_world, 0)" by (simp add: brisk_def)
  have utf: "utf8 [rchr 5] = [5]" by (simp add: encode_utf8_def scalar_def as_u8_def)
  have pw: "utf8 [rchr 1] = [1]" by (simp add: encode_utf8_def scalar_def as_u8_def)
  have tk: "take CAPACITY [5] = utf8 [rchr 5]" by (simp add: utf CAPACITY_def del: utf8_simps)
  have get: "mg_get_secret (u_manager demo_ui) (ap_manager demo_app) (lit ''k'') = Inr (Some [5])"
    using demo_app_get by simp
  have put: "mg_put_secret (u_manager demo_ui) (kw_op demo_world) (lit ''k'') (utf8 [rchr 5]) (ap_manager demo_app, demo_files)
      = (Inr (), ap_manager demo_app, ?fs')"
    using demo_put_again [of demo_files] by (simp add: utf del: lit_simps utf8_simps fun_upd_apply)
  obtain ap' where run: "run_app demo_ui (edit_rounds (demo_world, 0) [] (demo_world, 0)) (demo_app, demo_files)
      = Some (False, ap', ?fs')" "ap_mode ap' = Browse"
    using edit_session [OF _ _ _ _ get b _ b tk _ put, of "[]"] by (auto simp del: lit_simps fun_upd_apply)
  have inv: "mg_inv (u_manager demo_ui) (utf8 [rchr 1]) None (ap_manager demo_app, demo_files)"
    using demo_app_inv by (simp add: pw del: utf8_simps One_nat_def)
  have safe: "line_safe (lit ''v'')" "line_safe [rchr 1]" "lit ''v'' \<noteq> []"
    by (simp_all add: line_safe_def ascii_def)
  have small: "\<forall>bs. ?fs' (lit ''v'') = Some bs \<longrightarrow> length bs \<le> MAX_VAULT_LEN"
    using demo_bytes_small by (simp del: lit_simps)
  have rb: "is_ok (random_bytes (u_manager demo_ui) 0 32)" by (simp add: random_bytes_def demo_manager_env_def)
  have E: "a_manager_env demo_session_env = u_manager demo_ui" by (simp add: demo_session_env_def)
  have st: "mg_vault (ap_manager demo_app) = Some demo_full" "st_path demo_full = lit ''v''"
    by (simp_all add: demo_full_def demo_store_def del: lit_simps)
  obtain line ag where "run_agent demo_session_env demo_op (handshake (lit ''v'') [rchr 1]) (Inr ()) 9 (manager_new, ?fs')
        = (line, Some ag)"
      "\<forall>k. mg_get_secret demo_manager_env (ag_manager ag) k = (if k = lit ''k'' then Inr (Some (utf8 [rchr 5]))
        else mg_get_secret demo_manager_env (ap_manager demo_app) k)"
    using tui_edit_reaches_agent [OF demo_app_simps(1-4) get b _ b tk _ run inv st E safe(1,2,3) small demo_op_simps(2) rb, where now = 9]
    by (auto simp del: lit_simps utf8_simps fun_upd_apply)
  with run(1) utf show ?thesis by (metis (full_types))
qed

end
