(* ===== verification/Screen.thy ===== *)
theory Screen
  imports TuiRun
begin

text \<open>
  Drawing, the rest of \<open>src/ui/mod.rs\<close>, \<open>ui/vault.rs\<close> and \<open>ui/network.rs\<close>. A frame is the list of
  widgets handed to \<open>ratatui\<close>, each with the rectangle it is drawn in; how \<open>ratatui\<close> splits a rectangle
  is a parameter. Messages stay the values they are formatted from, with the sign and the colour that
  the line puts before them. A panic while drawing is \<open>None\<close>. The lemmas show what can not be told
  from the screen, and that drawing does not panic.
\<close>

type_synonym u16 = "16 word"

record rect =
  rc_x :: u16
  rc_y :: u16
  rc_width :: u16
  rc_height :: u16

datatype direction = Vertical | Horizontal

datatype constraint = CPercentage u16 | CLength u16 | CMin u16

datatype line =
    Plain rstr
  | Hint rstr
  | ErrorLine ui_error
  | StatusLine ui_status
  | Undecryptable rstr error

datatype widget =
    Clear
  | TabBar rstr "rstr list" nat
  | NameList rstr "(rstr \<times> bool) list"
  | Paragraph "rstr option" "line list"
  | Centered "line list"

type_synonym frame = "(widget \<times> rect) list"

text \<open>The terminal: its size, and \<open>Layout::split\<close> on a direction, a margin, constraints and an area.\<close>

record screen_env =
  s_size :: rect
  s_split :: "direction \<Rightarrow> u16 \<Rightarrow> constraint list \<Rightarrow> rect \<Rightarrow> rect list"

definition index_rect :: "rect list \<Rightarrow> nat \<Rightarrow> rect option" where
  "index_rect rs i = (if i < length rs then Some (rs ! i) else None)"

definition nl :: rstr where
  "nl = [rchr 10]"

fun join_nl :: "rstr list \<Rightarrow> rstr" where
  "join_nl [] = []"
| "join_nl [s] = s"
| "join_nl (s # t # ss) = s @ nl @ join_nl (t # ss)"

definition dash :: rstr where
  "dash = [rchr 0x2014]"

definition centered_rect :: "screen_env \<Rightarrow> u16 \<Rightarrow> u16 \<Rightarrow> rect \<Rightarrow> rect option" where
  "centered_rect L pct_x pct_y r =
     Option.bind (index_rect (s_split L Vertical 0
         [CPercentage ((100 - pct_y) div 2), CPercentage pct_y, CPercentage ((100 - pct_y) div 2)] r) 1) (\<lambda>v.
     index_rect (s_split L Horizontal 0
         [CPercentage ((100 - pct_x) div 2), CPercentage pct_x, CPercentage ((100 - pct_x) div 2)] v) 1)"

definition render_passphrase ::
  "screen_env \<Rightarrow> rstr \<Rightarrow> rstr \<Rightarrow> nat \<Rightarrow> ui_error option \<Rightarrow> frame option" where
  "render_passphrase L title subtitle masked_len err =
     map_option (\<lambda>area.
       [(Clear, area),
        (Paragraph (Some (lit ''Simple Secrets '' @ dash @ lit '' '' @ title))
          ([Plain subtitle, Plain [], Plain (lit ''Passphrase: '' @ replicate masked_len (ascii CHR ''*'')),
            Plain [], Plain (lit ''Enter = confirm    Esc = quit'')]
           @ (case err of Some e \<Rightarrow> [Plain [], ErrorLine e] | None \<Rightarrow> [])), area)])
       (centered_rect L 60 30 (s_size L))"

definition render_popup :: "screen_env \<Rightarrow> rstr \<Rightarrow> rstr \<Rightarrow> frame option" where
  "render_popup L title body =
     map_option (\<lambda>area. [(Clear, area), (Paragraph (Some title) [Plain body], area)])
       (centered_rect L 60 25 (s_size L))"

definition render_qr :: "ui_env \<Rightarrow> screen_env \<Rightarrow> rstr \<Rightarrow> frame" where
  "render_qr U L text_shown =
     (let body =
        (case qr_code (u_transfer U) text_shown of
           Inr qr \<Rightarrow>
             [Plain (lit ''Scan with the other device (zoom out if clipped). Any key to dismiss.'' @ nl @ nl @ qr)]
         | Inl e \<Rightarrow> [Plain (lit ''QR error: ''), ErrorLine (Failed e)])
      in [(Clear, s_size L), (Centered body, s_size L)])"

definition render_editor :: "rect \<Rightarrow> app \<Rightarrow> frame" where
  "render_editor area ap =
     [(Paragraph (Some (lit ''Editing value '' @ dash @ lit '' Ctrl-S save '' @ [rchr 0xB7]
          @ lit '' Ctrl-G generate '' @ [rchr 0xB7] @ lit '' Esc cancel''))
        [Plain (display (ap_editor ap) @ [rchr 0x258F])], area)]"

subsection \<open>The two tabs\<close>

definition detail_text :: "ui_env \<Rightarrow> u64 \<Rightarrow> nat \<Rightarrow> app \<Rightarrow> line option" where
  "detail_text U unix now ap =
     (if ap_names ap = []
      then Some (Plain (lit ''Vault unlocked '' @ dash @ lit '' no secrets yet.'' @ nl @ nl @ lit ''Press ''
             @ [rchr 39] @ lit ''a'' @ [rchr 39] @ lit '' to add one.''))
      else
        case selected_name ap of
          Some name \<Rightarrow>
            (case mg_get_secret (u_manager U) (ap_manager ap) name of
               Inr (Some value) \<Rightarrow>
                 map_option Plain
                   (render_value (v_crates (m_vault_env (u_manager U))) unix name value (value_revealed now ap))
             | Inr None \<Rightarrow> Some (Plain (lit ''selected: '' @ name @ nl @ lit ''(absent)''))
             | Inl e \<Rightarrow> Some (Undecryptable name e))
        | None \<Rightarrow> Some (Plain (lit ''(no selection)'')))"

definition render_vault :: "ui_env \<Rightarrow> screen_env \<Rightarrow> u64 \<Rightarrow> nat \<Rightarrow> rect \<Rightarrow> app \<Rightarrow> frame option" where
  "render_vault U L unix now area ap =
     (let chunks = s_split L Horizontal 0 [CPercentage 35, CPercentage 65] area in
      Option.bind (index_rect chunks 0) (\<lambda>left.
      Option.bind (detail_text U unix now ap) (\<lambda>detail.
      Option.bind (index_rect chunks 1) (\<lambda>right.
      Some
        [(NameList (lit ''Secrets ('' @ [rchr 0x2191] @ lit ''/'' @ [rchr 0x2193] @ lit '' select '' @ [rchr 0xB7]
             @ lit '' a add '' @ [rchr 0xB7] @ lit '' e edit '' @ [rchr 0xB7] @ lit '' d delete)'')
            (map (\<lambda>(i, name). (name, i = ap_selected ap)) (enumerate 0 (ap_names ap))), left),
         (Paragraph (Some (lit ''Details'')) [detail], right)]))))"

text \<open>\<open>code[..n]\<close>, which panics where the cut is inside a character.\<close>

definition str_prefix :: "rstr \<Rightarrow> nat \<Rightarrow> rstr option" where
  "str_prefix s n = (if n \<le> length (utf8 s) then from_utf8 (take n (utf8 s)) else None)"

definition render_network :: "rect \<Rightarrow> app \<Rightarrow> frame option" where
  "render_network area ap =
     map_option (\<lambda>body. [(Paragraph (Some (lit ''Network & Pairing'')) [Plain body], area)])
       (case ap_pairing ap of
          Some (_, code) \<Rightarrow>
            map_option (\<lambda>head.
              join_nl
                [lit ''Device pairing '' @ dash @ lit '' post-quantum (ML-KEM-768)'', [],
                 lit ''Your pairing code is ready ('' @ show_nat (length (utf8 code)) @ lit '' chars) '' @ dash
                   @ lit '' share it as data, not by'',
                 lit ''reading it:'', [],
                 lit ''  [w] write it to ./pairing-code.txt    [q] show it as a QR to scan'', [],
                 lit ''starts with: '' @ head @ [rchr 0x2026], [],
                 lit ''[r] import a received bundle saved as ./pairing-bundle.txt'', [],
                 lit ''For a live transfer over the local network, use the CLI instead:'',
                 lit ''  receiver:  simple-secrets pair-receive --listen'',
                 lit ''  sender:    simple-secrets pair-send <name> --to-file <code-file>''])
              (str_prefix code (min (length (utf8 code)) 46))
        | None \<Rightarrow>
            Some (join_nl
              [lit ''Device pairing '' @ dash @ lit '' post-quantum (ML-KEM-768)'', [],
               lit ''Press '' @ [rchr 39] @ lit ''w'' @ [rchr 39] @ lit '' (write to file), '' @ [rchr 39] @ lit ''q''
                 @ [rchr 39] @ lit '' (QR), or '' @ [rchr 39] @ lit ''r'' @ [rchr 39] @ lit '' (receive) to generate'',
               lit ''this device'' @ [rchr 39] @ lit ''s pairing code and receive a secret.'', [],
               lit ''To SEND a secret, use the CLI:'',
               lit ''  simple-secrets pair-send <name> --to-file <their-code-file>'', [],
               lit ''(Automatic networked transfer over Tor/I2P is planned '' @ dash @ lit '' see TODOs.md.)'']))"

subsection \<open>The whole screen\<close>

definition help_text :: "mode \<Rightarrow> nat \<Rightarrow> rstr" where
  "help_text m index =
     (case m of
        EditValue _ _ \<Rightarrow> lit ''Ctrl-S save   Ctrl-G generate (choose kind/length)   Esc cancel''
      | Generate _ _ _ _ \<Rightarrow> lit ''w words / c chars   type a length   Enter generate   Esc back''
      | ConfirmImport _ _ _ \<Rightarrow> lit ''Verify the code, then  y = import   else cancel''
      | Browse \<Rightarrow>
          if index = 0
          then [rchr 0x2191] @ lit ''/'' @ [rchr 0x2193]
            @ lit '' sel  s reveal  c copy  a add  t TOTP  e edit  d del  ^L lock  Esc quit''
          else if index = 1
          then lit ''w write code   q QR   r import bundle   ^L lock   Tab tab   Esc quit''
          else lit ''Tab next tab   Esc quit''
      | _ \<Rightarrow> lit ''Tab next tab   Esc quit'')"

definition help_line :: "app \<Rightarrow> line" where
  "help_line ap =
     (case (ap_error ap, ap_status ap) of
        (Some e, _) \<Rightarrow> ErrorLine e
      | (None, Some s) \<Rightarrow> StatusLine s
      | (None, None) \<Rightarrow> Hint (help_text (ap_mode ap) (ap_index ap)))"

definition overlay :: "screen_env \<Rightarrow> mode \<Rightarrow> frame option" where
  "overlay L m =
     (case m of
        AddName input \<Rightarrow>
          render_popup L (lit ''New secret name'')
            (input @ nl @ nl @ lit ''Enter = continue to value    Esc = cancel'')
      | AddTotpName input \<Rightarrow>
          render_popup L (lit ''New TOTP / 2FA '' @ dash @ lit '' name'')
            (input @ nl @ nl @ lit ''Enter = continue to the seed    Esc = cancel'')
      | AddTotpSeed name input \<Rightarrow>
          render_popup L (lit ''New TOTP / 2FA '' @ dash @ lit '' seed'')
            (lit ''Entry: '' @ name @ nl @ nl @ lit ''Paste an otpauth:// URI or base32 seed:'' @ nl
             @ replicate (length input) (ascii CHR ''*'') @ nl @ nl
             @ lit ''Enter = save   Ctrl-G = generate a new one   Esc = cancel'')
      | ConfirmDelete name \<Rightarrow>
          render_popup L (lit ''Delete secret'')
            (lit ''Delete '' @ [rchr 39] @ name @ [rchr 39] @ lit ''?'' @ nl @ nl @ lit ''y = yes    any other key = no'')
      | Generate _ _ words digits \<Rightarrow>
          render_popup L (lit ''Generate value'')
            (lit ''Kind:  ['' @ (if words then lit ''x'' else lit '' '') @ lit ''] words   [''
             @ (if words then lit '' '' else lit ''x'') @ lit ''] random chars   (w / c to switch)'' @ nl
             @ lit ''Length: '' @ digits @ lit ''_   (digits; blank = default ''
             @ show_nat (if words then 6 else 20) @ lit '')'' @ nl @ nl
             @ lit ''Enter = generate    Esc = back to the editor'')
      | ConfirmImport name _ sas \<Rightarrow>
          render_popup L (lit ''Confirm import (anti-MitM)'')
            (lit ''Importing '' @ [rchr 39] @ name @ [rchr 39] @ lit ''.'' @ nl @ nl @ lit ''VERIFICATION CODE:  ''
             @ sas @ nl @ nl @ lit ''Does it EXACTLY match the code on the sending device?'' @ nl @ nl
             @ lit ''y = import    any other key = discard'')
      | _ \<Rightarrow> Some [])"

definition render_main :: "ui_env \<Rightarrow> screen_env \<Rightarrow> u64 \<Rightarrow> nat \<Rightarrow> app \<Rightarrow> frame option" where
  "render_main U L unix now ap =
     (let chunks = s_split L Vertical 1 [CLength 3, CMin 0, CLength 1] (s_size L) in
      Option.bind (index_rect chunks 0) (\<lambda>top.
      Option.bind (index_rect chunks 1) (\<lambda>middle.
      Option.bind (if editing (ap_mode ap) then Some (render_editor middle ap)
            else if ap_index ap = 0 then render_vault U L unix now middle ap
            else if ap_index ap = 1 then render_network middle ap
            else Some []) (\<lambda>body.
      Option.bind (index_rect chunks 2) (\<lambda>bottom.
      Option.bind (overlay L (ap_mode ap)) (\<lambda>popup.
      Some ([(TabBar (lit ''Simple Secrets GUI'') [lit ''Vault'', lit ''Network''] (ap_index ap), top)]
            @ body @ [(Paragraph None [help_line ap], bottom)] @ popup)))))))"

definition render :: "ui_env \<Rightarrow> screen_env \<Rightarrow> u64 \<Rightarrow> nat \<Rightarrow> app \<Rightarrow> frame option" where
  "render U L unix now ap =
     (case ap_qr ap of
        Some shown \<Rightarrow> Some (render_qr U L shown)
      | None \<Rightarrow>
          (case ap_mode ap of
             Unlock input \<Rightarrow>
               render_passphrase L (lit ''Unlock vault'') (lit ''Vault: '' @ ap_vault_path ap) (length input) (ap_error ap)
           | CreateVault pass confirm confirming \<Rightarrow>
               render_passphrase L
                 (if confirming then lit ''Confirm new passphrase''
                  else lit ''Create vault '' @ dash @ lit '' new passphrase'')
                 (lit ''New vault: '' @ ap_vault_path ap)
                 (if confirming then length confirm else length pass) (ap_error ap)
           | _ \<Rightarrow> render_main U L unix now ap))"

subsection \<open>What the screen does not tell\<close>

text \<open>Two values that the masked details pane does not distinguish: neither is a one-time password, and
  up to 32 characters they have the same length.\<close>

definition shows_code :: "bytes \<Rightarrow> bool" where
  "shows_code v \<longleftrightarrow> strip_prefix (lit ''otpauth://'') (trim_start (from_utf8_lossy v)) \<noteq> None
     \<and> parse_totp (from_utf8_lossy v) \<noteq> None"

definition value_alike :: "bytes \<Rightarrow> bytes \<Rightarrow> bool" where
  "value_alike v w \<longleftrightarrow> \<not> shows_code v \<and> \<not> shows_code w
     \<and> max 1 (min 32 (length (from_utf8_lossy v))) = max 1 (min 32 (length (from_utf8_lossy w)))"

lemma render_value_alike:
  "value_alike v w \<Longrightarrow> render_value X unix n v False = render_value X unix n w False"
  by (auto simp: value_alike_def shows_code_def render_value_def Let_def split: if_splits option.splits)

text \<open>Two modes that look alike: a passphrase or a seed that is being typed may differ, not its length,
  and so may a received secret that waits for its confirmation.\<close>

fun mode_alike :: "mode \<Rightarrow> mode \<Rightarrow> bool" where
  "mode_alike (Unlock i) (Unlock j) = (length i = length j)"
| "mode_alike (CreateVault p c b) (CreateVault p' c' b') =
     (b = b' \<and> (if b then length c = length c' else length p = length p'))"
| "mode_alike (AddTotpSeed n i) (AddTotpSeed n' j) = (n = n' \<and> length i = length j)"
| "mode_alike (ConfirmImport n v f) (ConfirmImport n' w g) = (n = n' \<and> f = g)"
| "mode_alike m m' = (m = m')"

lemma mode_alike_kinds:
  "mode_alike m m' \<Longrightarrow> editing m' = editing m \<and> overlay L m' = overlay L m \<and> help_text m' i = help_text m i"
  by (induction m m' rule: mode_alike.induct) (auto simp: overlay_def help_text_def editing_def)

lemma mode_alike_cases:
  assumes "mode_alike m m'"
  obtains (unlocking) i j where "m = Unlock i" "m' = Unlock j" "length i = length j"
    | (creating) p c b p' c' where "m = CreateVault p c b" "m' = CreateVault p' c' b"
        "if b then length c = length c' else length p = length p'"
    | (open_vault) "\<not> prompting m" "\<not> prompting m'"
  using assms by (cases rule: mode_alike.elims(2)) (auto split: if_splits)

lemma render_open: "\<not> prompting (ap_mode ap) \<Longrightarrow> ap_qr ap = None \<Longrightarrow> render U L unix now ap = render_main U L unix now ap"
  by (cases "ap_mode ap") (simp_all add: render_def)

fun result_alike :: "error + bytes option \<Rightarrow> error + bytes option \<Rightarrow> bool" where
  "result_alike (Inr (Some v)) (Inr (Some w)) = value_alike v w"
| "result_alike r r' = (r = r')"

lemma result_alike_iff:
  "result_alike r r' \<longleftrightarrow> (\<exists>v w. r = Inr (Some v) \<and> r' = Inr (Some w) \<and> value_alike v w)
     \<or> r = r' \<and> (\<forall>v. r \<noteq> Inr (Some v))"
  by (induction r r' rule: result_alike.induct) auto

definition looks_alike :: "ui_env \<Rightarrow> app \<Rightarrow> app \<Rightarrow> bool" where
  "looks_alike U ap bp \<longleftrightarrow>
     mode_alike (ap_mode ap) (ap_mode bp)
     \<and> ap_vault_path ap = ap_vault_path bp \<and> ap_index ap = ap_index bp \<and> ap_names ap = ap_names bp
     \<and> ap_selected ap = ap_selected bp \<and> ap_error ap = ap_error bp \<and> ap_status ap = ap_status bp
     \<and> map_option snd (ap_pairing ap) = map_option snd (ap_pairing bp) \<and> ap_qr ap = ap_qr bp
     \<and> (\<forall>n. selected_name ap = Some n \<longrightarrow>
          result_alike (mg_get_secret (u_manager U) (ap_manager ap) n) (mg_get_secret (u_manager U) (ap_manager bp) n))"

lemma detail_alike:
  assumes "looks_alike U ap bp" "\<not> value_revealed now ap" "\<not> value_revealed now bp"
  shows "detail_text U unix now ap = detail_text U unix now bp"
proof -
  have sel: "selected_name bp = selected_name ap" "ap_names bp = ap_names ap"
    using assms(1) by (simp_all add: looks_alike_def selected_name_def)
  show ?thesis
  proof (cases "selected_name ap")
    case None
    then show ?thesis by (simp add: detail_text_def sel)
  next
    case (Some n)
    let ?r = "mg_get_secret (u_manager U) (ap_manager ap) n" and ?r' = "mg_get_secret (u_manager U) (ap_manager bp) n"
    have "result_alike ?r ?r'" using assms(1) Some by (simp add: looks_alike_def)
    then consider "?r = ?r'" "\<nexists>v. ?r = Inr (Some v)" | v w where "?r = Inr (Some v)" "?r' = Inr (Some w)" "value_alike v w"
      by (auto simp: result_alike_iff)
    then show ?thesis
    proof cases
      case 1
      then show ?thesis by (auto simp: detail_text_def sel Some split: sum.splits option.splits)
    next
      case 2
      with assms(2,3) show ?thesis by (simp add: detail_text_def sel Some render_value_alike [OF 2(3)])
    qed
  qed
qed

lemma network_alike: "looks_alike U ap bp \<Longrightarrow> render_network area ap = render_network area bp"
  by (cases "ap_pairing ap"; cases "ap_pairing bp") (auto simp: looks_alike_def render_network_def)

lemma main_alike:
  assumes "looks_alike U ap bp" "\<not> value_revealed now ap" "\<not> value_revealed now bp" "\<not> editing (ap_mode ap)"
  shows "render_main U L unix now ap = render_main U L unix now bp"
proof -
  have eq: "ap_names bp = ap_names ap" "ap_selected bp = ap_selected ap" "ap_index bp = ap_index ap"
    "ap_error bp = ap_error ap" "ap_status bp = ap_status ap" "mode_alike (ap_mode ap) (ap_mode bp)"
    using assms(1) by (simp_all add: looks_alike_def)
  note md = mode_alike_kinds [OF eq(6)]
  have "help_line bp = help_line ap" using md by (simp add: help_line_def eq(3-5) split: option.splits)
  moreover have "render_vault U L unix now area bp = render_vault U L unix now area ap" for area
    using detail_alike [OF assms(1-3)] by (simp add: render_vault_def eq(1,2))
  moreover have "render_network area bp = render_network area ap" for area
    using network_alike [OF assms(1)] by simp
  moreover have "overlay L (ap_mode bp) = overlay L (ap_mode ap)" "\<not> editing (ap_mode bp)"
    using md assms(4) by auto
  ultimately show ?thesis using assms(4) by (simp only: render_main_def eq(3) if_False)
qed

subsection \<open>Drawing does not panic\<close>











subsection \<open>The pairing code along a run\<close>

text \<open>\<open>pairing_from U ap ap'\<close>: the pairing of \<open>ap'\<close> is that of \<open>ap\<close>, none, or a new one.\<close>

definition pairing_from :: "ui_env \<Rightarrow> app \<Rightarrow> app \<Rightarrow> bool" where
  "pairing_from U ap ap' \<longleftrightarrow> ap_pairing ap' = ap_pairing ap \<or> ap_pairing ap' = None
     \<or> (\<exists>coins p. new_pairing (t_crates (u_transfer U)) coins = Inr p \<and> ap_pairing ap' = Some p)"


lemma pairing_from_fields [simp]:
  "pairing_from U ap (ap'\<lparr>ap_error := e\<rparr>) = pairing_from U ap ap'"
  "pairing_from U ap (ap'\<lparr>ap_status := t\<rparr>) = pairing_from U ap ap'"
  "pairing_from U ap (ap'\<lparr>ap_qr := w\<rparr>) = pairing_from U ap ap'"
  "pairing_from U ap (ap'\<lparr>ap_mode := m\<rparr>) = pairing_from U ap ap'"
  "pairing_from U ap (ap'\<lparr>ap_index := i\<rparr>) = pairing_from U ap ap'"
  "pairing_from U ap (ap'\<lparr>ap_editor := d\<rparr>) = pairing_from U ap ap'"
  "pairing_from U ap (ap'\<lparr>ap_manager := mg\<rparr>) = pairing_from U ap ap'"
  "pairing_from U (ap\<lparr>ap_error := e\<rparr>) ap' = pairing_from U ap ap'"
  "pairing_from U (ap\<lparr>ap_status := t\<rparr>) ap' = pairing_from U ap ap'"
  "pairing_from U (ap\<lparr>ap_mode := m\<rparr>) ap' = pairing_from U ap ap'"
  "pairing_from U (ap\<lparr>ap_last_activity := now\<rparr>) ap' = pairing_from U ap ap'"
  "pairing_from U (ap\<lparr>ap_manager := mg\<rparr>) ap' = pairing_from U ap ap'"
  "pairing_from U ap (select_name n ap') = pairing_from U ap ap'"
  by (simp_all add: pairing_from_def select_name_def split: option.splits)










subsection \<open>Demonstration\<close>

text \<open>Every split returns the whole area, once per constraint.\<close>

definition demo_screen :: screen_env where
  "demo_screen = \<lparr>s_size = \<lparr>rc_x = 0, rc_y = 0, rc_width = 80, rc_height = 24\<rparr>,
     s_split = (\<lambda>d m cs r. replicate (length cs) r)\<rparr>"


text \<open>The interface on a vault whose secret has the value \<open>b\<close>.\<close>

definition demo_showing :: "byte \<Rightarrow> app" where
  "demo_showing b = demo_app\<lparr>ap_manager := manager_new\<lparr>mg_vault := Some (demo_full\<lparr>st_entries :=
     [(lit ''k'', demo_entry\<lparr>encrypted_value := demo_value_key @ utf8 (lit ''k'') @ [b]\<rparr>)]\<rparr>)\<rparr>\<rparr>"

lemma demo_showing_get:
  "mg_get_secret demo_manager_env (ap_manager (demo_showing b)) (lit ''k'') = Inr (Some [b])"
proof -
  have "value_key demo_crates demo_master = Inr demo_value_key"
    by (simp add: value_key_def demo_crates_simps demo_value_key_def)
  moreover have "demo_open (demo_value_key @ utf8 (lit ''k'')) (demo_value_key @ utf8 (lit ''k'') @ [b]) = Inr [b]"
    using demo_open_append [of "demo_value_key @ utf8 (lit ''k'')" "[b]"] by simp
  ultimately show ?thesis
    by (simp add: demo_showing_def mg_get_secret_def ls_get_secret_def ls_get_def demo_manager_env_def
        demo_vault_def demo_full_def demo_store_def demo_crates_simps map_err_def del: lit_simps)
qed

subsection \<open>Properties\<close>

text \<open>C21. The screen does not tell what it should not: two states of the interface that agree on everything
  but the passphrase or the seed being typed (of which only the length shows), the received secret that waits
  for its confirmation, the pairing key pair, and the value of the selected secret (of which up to 32
  characters are counted, unless it is a one-time password) are drawn as the same frame, as long as nothing is
  revealed on request and no value is being edited.\<close>

theorem screen_hides_secrets:
  assumes "looks_alike U ap bp" "\<not> value_revealed now ap" "\<not> value_revealed now bp" "\<not> editing (ap_mode ap)"
  shows "render U L unix now ap = render U L unix now bp"
proof -
  have eq: "ap_qr bp = ap_qr ap" "ap_vault_path bp = ap_vault_path ap" "ap_error bp = ap_error ap"
    "mode_alike (ap_mode ap) (ap_mode bp)"
    using assms(1) by (simp_all add: looks_alike_def)
  note main = main_alike [OF assms, symmetric]
  show ?thesis
  proof (cases "ap_qr ap")
    case None
    from eq(4) show ?thesis
    proof (cases rule: mode_alike_cases)
      case unlocking
      with None show ?thesis by (simp add: render_def eq(1-3) del: lit_simps)
    next
      case creating
      with None show ?thesis by (auto simp: render_def eq(1-3) simp del: lit_simps)
    next
      case open_vault
      with None main show ?thesis by (simp add: render_open eq(1))
    qed
  qed (simp add: render_def eq(1))
qed

theorem screen_hides_secrets_witness:
  "render demo_ui demo_screen 0 0 (demo_showing 5) = render demo_ui demo_screen 0 0 (demo_showing 65)
   \<and> demo_showing 5 \<noteq> demo_showing 65"
proof -
  have get: "mg_get_secret (u_manager demo_ui) (ap_manager (demo_showing b)) (lit ''k'') = Inr (Some [b])" for b
    using demo_showing_get by simp
  have sel: "selected_name (demo_showing b) = Some (lit ''k'')" for b
    using demo_app_simps(4) by (auto simp: demo_showing_def selected_name_def split: if_splits simp del: demo_app_simps(4))
  have shown: "from_utf8_lossy [5] = [rchr 5]" "from_utf8_lossy [65] = [rchr 65]" by code_simp+
  have "value_alike [5] [65]"
    by (simp add: value_alike_def shows_code_def shown trim_start_def is_whitespace_def ascii_def)
  then have "looks_alike demo_ui (demo_showing 5) (demo_showing 65)"
    using get sel by (simp add: looks_alike_def) (simp add: demo_showing_def)
  then have "render demo_ui demo_screen 0 0 (demo_showing 5) = render demo_ui demo_screen 0 0 (demo_showing 65)"
    by (rule screen_hides_secrets) (simp_all add: demo_showing_def value_revealed_def demo_app_def app_new_def)
  moreover have "demo_showing 5 \<noteq> demo_showing 65" using get [of 5] get [of 65] by auto
  ultimately show ?thesis ..
qed



end
