(* ===== verification/AgentSpec.thy ===== *)
theory AgentSpec
  imports Session
begin

text \<open>
  What the agent promises its clients, as an abstract server: while it serves it holds a function from
  names to values, and each connection, whoever made it, is answered from it alone. A \<open>Put\<close> that fails may
  or may not be visible afterwards. The agent of \<open>src/cli/agent.rs\<close> is shown to implement that server.
\<close>

type_synonym contents = "rstr \<Rightarrow> error + bytes option"

definition contents :: "agent_env \<Rightarrow> agent \<Rightarrow> contents" where
  "contents E ag n = mg_get_secret (a_manager_env E) (ag_manager ag) n"

text \<open>The answers the server may give to a request, and what it then holds; \<open>None\<close> when it is over.\<close>

definition serves :: "bytes \<Rightarrow> rstr \<Rightarrow> request \<Rightarrow> response \<Rightarrow> contents \<Rightarrow> contents option \<Rightarrow> bool" where
  "serves tok path req resp m m' \<longleftrightarrow>
     (if req_token req \<noteq> tok then resp = RespErr (Cli InvalidSessionToken) \<and> m' = Some m
      else case req of
        ReqGet _ n \<Rightarrow> resp = (case m n of Inr v \<Rightarrow> RespSecret v | Inl e \<Rightarrow> RespErr e) \<and> m' = Some m
      | ReqPut _ n v \<Rightarrow>
          resp = RespOk \<and> m' = Some (m(n := Inr (Some v)))
          \<or> (\<exists>e. resp = RespErr e) \<and> (m' = Some m \<or> m' = Some (m(n := Inr (Some v))))
      | ReqList _ \<Rightarrow>
          (\<exists>names. resp = RespNames names \<and> distinct names \<and> set names = {n. m n \<noteq> Inr None}) \<and> m' = Some m
      | ReqStatus _ \<Rightarrow> (\<exists>secs. resp = RespStatus True path secs) \<and> m' = Some m
      | ReqSignout _ \<Rightarrow> resp = RespOk \<and> m' = None)"

text \<open>An event is a connection and the bytes that were sent back on it.\<close>

type_synonym served = "conn \<times> bytes"

definition sent :: "agent_env \<Rightarrow> response \<Rightarrow> nat option \<Rightarrow> bytes" where
  "sent E resp room = w_out (snd (write_msg (a_resp E) resp (fresh_writer room)))"

definition server_step :: "agent_env \<Rightarrow> bytes \<Rightarrow> rstr \<Rightarrow> contents option \<Rightarrow> served \<Rightarrow> contents option \<Rightarrow> bool" where
  "server_step E tok path m ev m' \<longleftrightarrow>
     (\<exists>c. m = Some c \<and>
       (case ev of
          (AcceptError, out) \<Rightarrow> out = [] \<and> m' = m
        | (Conn op input room, out) \<Rightarrow>
            (case fst (read_msg (a_req E) input) of
               Inl _ \<Rightarrow> out = [] \<and> m' = m
             | Inr req \<Rightarrow> \<exists>resp. serves tok path req resp c m' \<and> out = sent E resp room)))"

text \<open>The agent with its files, one connection at a time, until it has locked the vault.\<close>

definition agent_serves :: "agent_env \<Rightarrow> agent \<times> fs \<Rightarrow> served \<Rightarrow> agent \<times> fs \<Rightarrow> bool" where
  "agent_serves E s ev s' \<longleftrightarrow>
     mg_is_unlocked (ag_manager (fst s)) \<and> (\<exists>now so. serve_conn E now (fst ev) s = ((snd ev, so), s'))"

definition implements :: "agent_env \<Rightarrow> bytes \<Rightarrow> bytes \<Rightarrow> rstr \<Rightarrow> agent \<times> fs \<Rightarrow> contents option \<Rightarrow> bool" where
  "implements E pw tok path s m \<longleftrightarrow>
     mg_inv (a_manager_env E) pw None (ag_manager (fst s), snd s) \<and> env_good (m_vault_env (a_manager_env E))
     \<and> ag_token (fst s) = tok \<and> ag_vault_path (fst s) = path
     \<and> m = (if mg_is_unlocked (ag_manager (fst s)) then Some (contents E (fst s)) else None)"

subsection \<open>The simulation\<close>

lemma mg_put_memory:
  assumes "aead_aad_ok (v_crates (m_vault_env M))" "mg_put_secret M c n v (mg, fs) = (r, mg', fs')" "mg_is_unlocked mg"
  shows "mg_is_unlocked mg'"
    and "mg_get_secret M mg' = mg_get_secret M mg \<and> r \<noteq> Inr ()
      \<or> mg_get_secret M mg' = (mg_get_secret M mg)(n := Inr (Some v))"
  using assms(2)
proof (atomize(full), cases rule: mg_put_cases)
  case (opened st st')
  show "mg_is_unlocked mg' \<and> (mg_get_secret M mg' = mg_get_secret M mg \<and> r \<noteq> Inr ()
      \<or> mg_get_secret M mg' = (mg_get_secret M mg)(n := Inr (Some v)))"
    using ls_put_memory [OF assms(1) opened(3)] opened(1,2)
    by (auto simp: mg_is_unlocked_def mg_get_secret_def fun_eq_iff)
qed (use assms(3) in \<open>simp add: mg_is_unlocked_def\<close>)

lemma mg_names:
  assumes "mg_inv M pw hw (mg, fs)" "mg_is_unlocked mg" "env_good (m_vault_env M)"
  shows "\<exists>names. mg_secret_names M mg = Inr names \<and> distinct names \<and> set names = {n. mg_get_secret M mg n \<noteq> Inr None}"
  using assms sorted_names [of "m_vault_env M"]
  by (auto simp: mg_inv_def ls_inv_def mg_is_unlocked_def mg_secret_names_def mg_get_secret_def env_good_def)

lemma handle_serves:
  assumes "handle E c now req (ag, fs) = ((resp, so), ag', fs')"
    and inv: "mg_inv (a_manager_env E) pw None (ag_manager ag, fs)" and un: "mg_is_unlocked (ag_manager ag)"
    and env: "env_good (m_vault_env (a_manager_env E))"
  shows "serves (ag_token ag) (ag_vault_path ag) req resp (contents E ag) (if so then None else Some (contents E ag'))
    \<and> ag_token ag' = ag_token ag \<and> ag_vault_path ag' = ag_vault_path ag \<and> mg_is_unlocked (ag_manager ag')
    \<and> mg_inv (a_manager_env E) pw None (ag_manager ag', fs')"
proof (cases "req_token req = ag_token ag")
  case False
  then show ?thesis using handle_bad_token [OF False] assms by (auto simp: serves_def)
next
  case tok: True
  have aead: "aead_aad_ok (v_crates (m_vault_env (a_manager_env E)))" using env by (simp add: env_good_def)
  show ?thesis
  proof (cases req)
    case (ReqPut t n v)
    obtain r mg' fs1 where put: "mg_put_secret (a_manager_env E) c n v (ag_manager ag, fs) = (r, mg', fs1)"
      by (metis prod.exhaust)
    have h: "resp = (case r of Inr _ \<Rightarrow> RespOk | Inl e \<Rightarrow> RespErr e)" "\<not> so" "ag' = ag\<lparr>ag_manager := mg'\<rparr>" "fs' = fs1"
      using handle_put [OF _ put, of t now] assms(1) ReqPut tok by auto
    note mem = mg_put_memory [OF aead put un]
    have "mg_inv (a_manager_env E) pw None (mg', fs1)" using mgr.put_inv [OF inv put] .
    moreover have "serves (ag_token ag) (ag_vault_path ag) req resp (contents E ag) (Some (contents E ag'))"
      using mem(2) ReqPut tok h by (cases r) (auto simp: serves_def contents_def [abs_def])
    ultimately show ?thesis using mem(1) h by simp
  next
    case (ReqList t)
    obtain names where "mg_secret_names (a_manager_env E) (ag_manager ag) = Inr names" "distinct names"
        "set names = {n. mg_get_secret (a_manager_env E) (ag_manager ag) n \<noteq> Inr None}"
      using mg_names [OF inv un env] by blast
    with assms tok ReqList show ?thesis by (auto simp: handle_def serves_def contents_def)
  qed (use assms tok in \<open>auto simp: handle_def serves_def contents_def Let_def split: sum.splits\<close>)
qed

lemma serve_conn_implements:
  assumes "implements E pw tok path s m" "agent_serves E s ev s'"
  shows "\<exists>m'. server_step E tok path m ev m' \<and> implements E pw tok path s' m'"
proof -
  obtain ag fs ag' fs' cn out where s: "s = (ag, fs)" "s' = (ag', fs')" "ev = (cn, out)" by (cases s; cases s'; cases ev)
  obtain now so where sc: "serve_conn E now cn (ag, fs) = ((out, so), ag', fs')" and un: "mg_is_unlocked (ag_manager ag)"
    using assms(2) by (auto simp: agent_serves_def s)
  have inv: "mg_inv (a_manager_env E) pw None (ag_manager ag, fs)" "env_good (m_vault_env (a_manager_env E))"
    "ag_token ag = tok" "ag_vault_path ag = path" "m = Some (contents E ag)"
    using assms(1) un by (auto simp: implements_def s)
  have touch: "contents E (clock_touch now ag) = contents E ag" by (simp add: contents_def [abs_def] clock_touch_def)
  have touched: "ag_manager (clock_touch now ag) = ag_manager ag" "ag_token (clock_touch now ag) = ag_token ag"
    "ag_vault_path (clock_touch now ag) = ag_vault_path ag"
    by (simp_all add: clock_touch_def)
  show ?thesis
  proof (cases "\<exists>op input room req. cn = Conn op input room \<and> fst (read_msg (a_req E) input) = Inr req")
    case False
    then have "out = []" "ag' = ag \<or> ag' = clock_touch now ag" "fs' = fs" "\<not> so"
      using sc by (auto simp: serve_conn_def Let_def split: conn.splits sum.splits)
    then show ?thesis
      using False inv un touch
      by (intro exI [of _ m])
        (auto simp: s server_step_def implements_def clock_touch_def split: conn.splits sum.splits)
  next
    case True
    then obtain op input room req where cn: "cn = Conn op input room" "fst (read_msg (a_req E) input) = Inr req" by blast
    obtain resp so' ag2 fs2 where h: "handle E op now req (clock_touch now ag, fs) = ((resp, so'), ag2, fs2)"
      by (metis prod.exhaust)
    have r: "out = sent E resp room" "so = so'" "fs' = fs2"
      "ag' = (if so' then ag2\<lparr>ag_manager := mg_lock (ag_manager ag2)\<rparr> else ag2)"
      using sc cn h by (auto simp: serve_conn_def Let_def sent_def split: if_splits)
    have hs: "serves tok path req resp (contents E ag) (if so' then None else Some (contents E ag2))
        \<and> ag_token ag2 = tok \<and> ag_vault_path ag2 = path \<and> mg_is_unlocked (ag_manager ag2)
        \<and> mg_inv (a_manager_env E) pw None (ag_manager ag2, fs2)"
      using handle_serves [OF h, of pw] inv un by (simp add: touch touched split del: if_split)
    let ?m' = "if so' then None else Some (contents E ag2)"
    have "server_step E tok path m ev ?m'"
      using hs cn inv(5) r(1) by (auto simp: server_step_def s)
    moreover have "implements E pw tok path s' ?m'"
      using hs inv(2) r by (auto simp: implements_def s mg_lock_def mg_is_unlocked_def mg_inv_def)
    ultimately show ?thesis by blast
  qed
qed

interpretation agent_server: refines "agent_serves E" "server_step E tok path" "implements E pw tok path" for E pw tok path
  by unfold_locales (rule serve_conn_implements)


subsection \<open>The loop\<close>

lemma serve_conn_stays:
  assumes "serve_conn E now cn (ag, fs) = ((out, so), ag', fs')" "mg_is_unlocked (ag_manager ag)"
    and "mg_inv (a_manager_env E) pw None (ag_manager ag, fs)" "env_good (m_vault_env (a_manager_env E))"
  shows "mg_is_unlocked (ag_manager ag') \<longleftrightarrow> \<not> so"
proof (cases so)
  case True
  with assms(1) show ?thesis using serve_conn_signout [of E now cn ag fs out ag' fs'] by simp
next
  case False
  have "mg_is_unlocked (ag_manager ag2)"
    if "handle E c now req (clock_touch now ag, fs) = ((resp, b), ag2, fs2)" for c req resp b ag2 fs2
    using handle_serves [OF that, of pw] assms(2-4) by (simp add: clock_touch_def)
  with assms(1,2) False show ?thesis
    by (auto simp: serve_conn_def Let_def clock_touch_def split: conn.splits sum.splits prod.splits if_splits)
qed

lemma serve_runs:
  assumes "serve E conns s = ((outs, done), s')" "mg_is_unlocked (ag_manager (fst s))"
    and "mg_inv (a_manager_env E) pw None (ag_manager (fst s), snd s)" "env_good (m_vault_env (a_manager_env E))"
  shows "runs (agent_serves E) s (zip (map snd conns) outs) s' \<and> (mg_is_unlocked (ag_manager (fst s')) \<longleftrightarrow> \<not> done)
    \<and> (\<not> done \<longrightarrow> length outs = length conns)"
  using assms
proof (induction E conns s arbitrary: outs rule: serve.induct)
  case (2 E now cn conns s)
  obtain out so ag1 fs1 where c: "serve_conn E now cn s = ((out, so), ag1, fs1)" by (metis prod.exhaust)
  have stays: "mg_is_unlocked (ag_manager ag1) \<longleftrightarrow> \<not> so"
    using serve_conn_stays [of E now cn "fst s" "snd s" out so ag1 fs1 pw] c 2(3-) by (cases s) simp
  have step: "agent_serves E s (cn, out) (ag1, fs1)" using c 2(3) by (auto simp: agent_serves_def)
  show ?case
  proof (cases so)
    case True
    with c 2(2) step stays show ?thesis by auto
  next
    case False
    obtain outs1 where o: "serve E conns (ag1, fs1) = ((outs1, done), s')" "outs = out # outs1"
      using c 2(2) False by (auto split: prod.splits)
    have "mg_inv (a_manager_env E) pw None (ag_manager ag1, fs1)"
      using serve_conn_implements [of E pw "ag_token (fst s)" "ag_vault_path (fst s)" s "Some (contents E (fst s))", OF _ step]
        2(3-) by (auto simp: implements_def)
    then have "runs (agent_serves E) (ag1, fs1) (zip (map snd conns) outs1) s' \<and> (mg_is_unlocked (ag_manager (fst s')) \<longleftrightarrow> \<not> done)
        \<and> (\<not> done \<longrightarrow> length outs1 = length conns)"
      using 2(1) [OF c [symmetric] refl _ o(1)] False stays 2(5) by simp
    with o(2) step show ?thesis by (auto simp del: split_paired_Ex)
  qed
qed auto


lemma serve_refines:
  assumes "serve E conns (ag, fs) = ((outs, done), ag', fs')" "mg_is_unlocked (ag_manager ag)"
    and "mg_inv (a_manager_env E) pw None (ag_manager ag, fs)" "env_good (m_vault_env (a_manager_env E))"
  shows "runs (server_step E (ag_token ag) (ag_vault_path ag)) (Some (contents E ag)) (zip (map snd conns) outs)
      (if done then None else Some (contents E ag'))"
    and "\<not> done \<Longrightarrow> length outs = length conns"
proof -
  have r: "runs (agent_serves E) (ag, fs) (zip (map snd conns) outs) (ag', fs')"
      "mg_is_unlocked (ag_manager ag') \<longleftrightarrow> \<not> done" "\<not> done \<longrightarrow> length outs = length conns"
    using serve_runs [OF assms(1) _ _ assms(4), of pw] assms(2,3) by auto
  have "implements E pw (ag_token ag) (ag_vault_path ag) (ag, fs) (Some (contents E ag))"
    using assms by (simp add: implements_def)
  from agent_server.runs_refine [OF this r(1)] r(2) show
    "runs (server_step E (ag_token ag) (ag_vault_path ag)) (Some (contents E ag)) (zip (map snd conns) outs)
      (if done then None else Some (contents E ag'))"
    by (auto simp: implements_def split: if_splits)
  show "\<not> done \<Longrightarrow> length outs = length conns" using r(3) by simp
qed

subsection \<open>A value that is put stays until the next put\<close>

text \<open>The connection brings a \<open>Put\<close> of \<open>n\<close> that carries the token.\<close>

definition puts :: "agent_env \<Rightarrow> bytes \<Rightarrow> rstr \<Rightarrow> conn \<Rightarrow> bool" where
  "puts E tok n cn = (case cn of
     AcceptError \<Rightarrow> False
   | Conn c input room \<Rightarrow>
       (case fst (read_msg (a_req E) input) of Inr (ReqPut t n' v) \<Rightarrow> t = tok \<and> n' = n | _ \<Rightarrow> False))"

lemma server_step_keeps:
  "server_step E tok path (Some c) (cn, out) (Some c') \<Longrightarrow> \<not> puts E tok n cn \<Longrightarrow> c' n = c n"
  by (auto simp: server_step_def serves_def puts_def split: conn.splits sum.splits request.splits if_splits)
    (metis sum.exhaust)

lemma server_runs_keep:
  "runs (server_step E tok path) (Some c) es (Some c') \<Longrightarrow> \<forall>(cn, out)\<in>set es. \<not> puts E tok n cn \<Longrightarrow> c' n = c n"
proof (induction es arbitrary: c)
  case (Cons e es)
  obtain m where m: "server_step E tok path (Some c) e m" "runs (server_step E tok path) m es (Some c')"
    using Cons.prems(1) by auto
  then obtain c1 where "m = Some c1" using m by (cases m; cases es) (auto simp: server_step_def)
  then show ?case using m Cons server_step_keeps [of E tok path c "fst e" "snd e" c1 n] by auto
qed simp

lemma read_sent:
  assumes "codec_ok (a_resp E)" "fst (read_msg (a_resp E) (sent E resp room)) = Inr resp'"
  shows "resp' = resp"
proof -
  obtain r w where w: "write_msg (a_resp E) resp (fresh_writer room) = (r, w)" by force
  then have s: "sent E resp room = w_out w" by (simp add: sent_def)
  show ?thesis
  proof (cases r)
    case (Inl e)
    with write_failed_read [of "a_resp E" resp room e w "a_resp E"] w s assms(2) show ?thesis by auto
  next
    case (Inr u)
    with read_written [OF assms(1), of resp room w] w s assms(2) show ?thesis by simp
  qed
qed


subsection \<open>An instance\<close>

definition spec_agent :: agent where
  "spec_agent = agent_new (manager_new\<lparr>mg_vault := Some demo_store, mg_calls := 1\<rparr>) demo_token (lit ''v'') DEFAULT_IDLE 0"

definition spec_conns :: "(nat \<times> conn) list" where
  "spec_conns = [(1, Conn demo_op (frame [0]) None), (2, AcceptError), (3, Conn demo_op (frame [1]) None)]"

lemma spec_read:
  "fst (read_msg (a_req demo_session_env) (frame [0])) = Inr (ReqPut demo_token (lit ''k'') [5])"
  "fst (read_msg (a_req demo_session_env) (frame [1])) = Inr (ReqGet demo_token (lit ''k''))"
  using read_frame [of "[0]" "a_req demo_session_env" "[]"] read_frame [of "[1]" "a_req demo_session_env" "[]"]
  by (simp_all add: demo_session_env_def table_codec_def unat_MAX_FRAME)

lemma spec_inv:
  "mg_inv (a_manager_env demo_session_env) [1] None (ag_manager spec_agent, demo_files)"
  "env_good (m_vault_env (a_manager_env demo_session_env))" "mg_is_unlocked (ag_manager spec_agent)"
  "ag_token spec_agent = demo_token"
  using demo_session_inv demo_env_good
  by (simp_all add: cli_inv_def demo_session_def process_start_def clock_touch_def spec_agent_def agent_new_def
      demo_session_env_def demo_manager_env_def mg_is_unlocked_def)

lemma spec_serve:
  "\<exists>o2 ag' fs'. serve demo_session_env spec_conns (spec_agent, demo_files)
    = (([sent demo_session_env RespOk None, [], o2], False), ag', fs')"
proof -
  let ?ag = "(clock_touch 1 spec_agent)\<lparr>ag_manager := (ag_manager spec_agent)\<lparr>mg_vault := Some demo_full\<rparr>\<rparr>"
  let ?fs = "demo_files(lit ''v'' \<mapsto> demo_bytes 1, tmp_path (lit ''v'') := None)"
  have p: "serve_conn demo_session_env 1 (Conn demo_op (frame [0]) None) (spec_agent, demo_files)
      = ((sent demo_session_env RespOk None, False), ?ag, ?fs)"
    using demo_handle [of "clock_touch 1 spec_agent" 1]
    by (simp add: serve_conn_def spec_read clock_touch_def spec_agent_def agent_new_def sent_def Let_def del: lit_simps fun_upd_apply)
  obtain o2 ag' where g: "serve_conn demo_session_env 3 (Conn demo_op (frame [1]) None) (?ag, ?fs) = ((o2, False), ag', ?fs)"
    using handle_get [of "clock_touch 3 ?ag" demo_token demo_session_env demo_op 3 "lit ''k''" ?fs]
    by (simp add: serve_conn_def spec_read clock_touch_def spec_agent_def agent_new_def Let_def del: lit_simps fun_upd_apply)
  have "serve_conn demo_session_env 2 AcceptError (?ag, ?fs) = (([], False), ?ag, ?fs)" by (simp add: serve_conn_def)
  with p g show ?thesis by (simp add: spec_conns_def del: lit_simps fun_upd_apply)
qed

subsection \<open>Properties\<close>

text \<open>C31. To its clients the agent is a map from names to values: whatever connections come, from whatever
  clients and strangers and with whatever failures of the disk, the answers that are sent back are those of
  the abstract server that starts with what the unlocked vault holds; it ends exactly when the agent signs out, and
  otherwise every connection was served and what it then holds is what the vault in the agent's memory holds.\<close>

theorem agent_refines_server:
  assumes "mg_inv (a_manager_env E) pw None (ag_manager ag, fs)" "env_good (m_vault_env (a_manager_env E))"
    and "mg_is_unlocked (ag_manager ag)" "serve E conns (ag, fs) = ((outs, done), ag', fs')"
  shows "runs (server_step E (ag_token ag) (ag_vault_path ag)) (Some (contents E ag)) (zip (map snd conns) outs)
      (if done then None else Some (contents E ag'))
    \<and> (\<not> done \<longrightarrow> length outs = length conns)"
  using serve_refines [OF assms(4,3,1,2)] by blast

theorem agent_refines_server_witness:
  "\<exists>o2 m. runs (server_step demo_session_env demo_token (lit ''v'')) (Some (contents demo_session_env spec_agent))
    (zip (map snd spec_conns) [sent demo_session_env RespOk None, [], o2]) (Some m)"
proof -
  obtain o2 ag' fs' where "serve demo_session_env spec_conns (spec_agent, demo_files)
    = (([sent demo_session_env RespOk None, [], o2], False), ag', fs')"
    using spec_serve by blast
  from agent_refines_server [OF spec_inv(1-3) this] show ?thesis
    by (auto simp: spec_inv(4)) (auto simp: spec_agent_def agent_new_def)
qed

text \<open>C32. No lost and no stale value between clients: once the agent has acknowledged a client's \<open>Put\<close>, a later
  \<open>Get\<close> of that name with the token is answered with exactly that value, whoever else connected in between
  and whatever they sent, unless it was another \<open>Put\<close> of that name with the token.\<close>

theorem agent_answers_last_put:
  assumes "mg_inv (a_manager_env E) pw None (ag_manager ag, fs)" "env_good (m_vault_env (a_manager_env E))"
    and "mg_is_unlocked (ag_manager ag)" "codec_ok (a_resp E)"
    and "serve E (before @ (t1, Conn c1 in1 r1) # between @ [(t2, Conn c2 in2 r2)]) (ag, fs)
      = ((outs @ o1 # outs' @ [o2], False), ag', fs')"
    and "length outs = length before" "length outs' = length between"
    and "fst (read_msg (a_req E) in1) = Inr (ReqPut (ag_token ag) n v)" "fst (read_msg (a_resp E) o1) = Inr RespOk"
    and "\<forall>(t, cn)\<in>set between. \<not> puts E (ag_token ag) n cn"
    and "fst (read_msg (a_req E) in2) = Inr (ReqGet (ag_token ag) n)"
  shows "o2 = sent E (RespSecret (Some v)) r2"
proof -
  let ?step = "server_step E (ag_token ag) (ag_vault_path ag)"
  let ?es = "zip (map snd between) outs'"
  have "runs ?step (Some (contents E ag))
      (zip (map snd before) outs @ (Conn c1 in1 r1, o1) # ?es @ [(Conn c2 in2 r2, o2)]) (Some (contents E ag'))"
    using serve_refines(1) [OF assms(5,3,1,2)] assms(6,7) by simp
  then obtain m1 m2 m3 where r: "?step m1 (Conn c1 in1 r1, o1) m2" "runs ?step m2 ?es m3"
      "?step m3 (Conn c2 in2 r2, o2) (Some (contents E ag'))"
    by (auto simp: runs_append)
  obtain s3 where s3: "m3 = Some s3" using r(3) by (auto simp: server_step_def)
  obtain s1 resp where s1: "serves (ag_token ag) (ag_vault_path ag) (ReqPut (ag_token ag) n v) resp s1 m2" "o1 = sent E resp r1"
    using r(1) assms(8) by (auto simp: server_step_def)
  have "resp = RespOk" using read_sent [OF assms(4)] s1(2) assms(9) by blast
  with s1(1) have "m2 = Some (s1(n := Inr (Some v)))" by (auto simp: serves_def)
  with r(2) s3 have "s3 n = Inr (Some v)"
    using server_runs_keep [of E "ag_token ag" "ag_vault_path ag" "s1(n := Inr (Some v))" ?es s3 n] assms(10)
    by (fastforce dest: set_zip_leftD)
  with r(3) s3 assms(11) show ?thesis by (auto simp: server_step_def serves_def)
qed

theorem agent_answers_last_put_witness:
  "\<exists>ag' fs'. serve demo_session_env spec_conns (spec_agent, demo_files)
    = (([sent demo_session_env RespOk None, [], sent demo_session_env (RespSecret (Some [5])) None], False), ag', fs')"
proof -
  obtain o2 ag' fs' where s: "serve demo_session_env spec_conns (spec_agent, demo_files)
    = (([sent demo_session_env RespOk None, [], o2], False), ag', fs')"
    using spec_serve by blast
  have c: "codec_ok (a_resp demo_session_env)" using demo_wire by (simp add: wire_ok_def)
  have "fits (a_resp demo_session_env) RespOk" by (simp add: demo_session_env_def fits_table)
  then have ack: "fst (read_msg (a_resp demo_session_env) (sent demo_session_env RespOk None)) = Inr RespOk"
    using read_written [OF c] by (auto simp: fits_write sent_def)
  have "o2 = sent demo_session_env (RespSecret (Some [5])) None"
    using agent_answers_last_put [OF spec_inv(1-3) c, of "[]" 1 demo_op "frame [0]" None "[(2, AcceptError)]" 3 demo_op "frame [1]" None
        "[]" _ "[[]]" o2 ag' fs' "lit ''k''" "[5]"] s ack
    by (simp add: spec_inv(4) spec_read spec_conns_def puts_def del: serve.simps lit_simps)
  with s show ?thesis by blast
qed

end
