(* ===== verification/AgentStart.thy ===== *)
theory AgentStart
  imports Agent Paths
begin

text \<open>
  The sockets of \<open>src/cli/agent.rs\<close>: \<open>bind_socket\<close>, \<open>open_listener\<close>, and the removal of the socket when
  an agent ends. Several agents may be starting at once, so besides the function there is a step relation
  in which the looks at and the changes of the one socket path are separate steps of each process.
\<close>

text \<open>
  \<open>alive\<close> says whether somebody answers at a socket path. The result is the path; a stale node there is removed,
  and a failure to remove it is ignored.
\<close>

definition bind_socket ::
  "(rstr \<Rightarrow> rstr option) \<Rightarrow> u32 \<Rightarrow> (rstr \<Rightarrow> rstr + unit) \<Rightarrow> (rstr \<Rightarrow> rstr + unit) \<Rightarrow> (rstr \<Rightarrow> bool) \<Rightarrow> error + rstr" where
  "bind_socket vars uid mkdir chmod alive =
     and_then (socket_path vars uid) (\<lambda>sock.
     and_then (case path_parent sock of Some parent \<Rightarrow> ensure_private_dir mkdir chmod parent | None \<Rightarrow> Inr ()) (\<lambda>_.
     and_then (guard_res (\<not> alive sock) (Cli AgentAlreadyServing)) (\<lambda>_.
     Inr sock)))"

subsection \<open>Processes at one socket path\<close>

text \<open>
  Where an agent process stands: it has opened the vault; nobody answered at the socket; it has tried to clear the
  path; \<open>READY\<close> is printed; it listens and serves; \<open>serve\<close> has returned, so that nobody accepts any
  more, but the node is still there. It ends by removing the node at the path, whoever bound it; the
  watchdog does so while the agent still serves. Or it ends refused because another agent answered, with
  a panic in \<open>open_listener\<close>, or killed, which leaves the node.

  The operating system may refuse to remove a node, which the program ignores, and to bind, for whatever reason,
  which is the panic. \<open>so_denied\<close> records for which processes it refused the clearing of the path or the binding
  of a free one.
\<close>

datatype agent_pc = Opened | Probed | Cleared | Announced | Serving | Closing | Ended | Refused | Panicked | Killed

record sockets =
  so_node :: "nat option"
  so_pc :: "nat \<Rightarrow> agent_pc"
  so_denied :: "nat \<Rightarrow> bool"

definition answers :: "sockets \<Rightarrow> nat \<Rightarrow> bool" where
  "answers s p \<longleftrightarrow> so_node s = Some p \<and> so_pc s p = Serving"

definition goto :: "nat \<Rightarrow> agent_pc \<Rightarrow> sockets \<Rightarrow> sockets" where
  "goto p pc s = s\<lparr>so_pc := (so_pc s)(p := pc)\<rparr>"

definition denied :: "nat \<Rightarrow> sockets \<Rightarrow> sockets" where
  "denied p s = s\<lparr>so_denied := (so_denied s)(p := True)\<rparr>"

inductive socket_step :: "nat \<Rightarrow> sockets \<Rightarrow> sockets \<Rightarrow> bool" for p where
  refuse: "so_pc s p = Opened \<Longrightarrow> answers s q \<Longrightarrow> socket_step p s (goto p Refused s)"
| probe: "so_pc s p = Opened \<Longrightarrow> \<nexists>q. answers s q \<Longrightarrow> socket_step p s (goto p Probed s)"
| clear: "so_pc s p = Probed \<Longrightarrow> socket_step p s (goto p Cleared (s\<lparr>so_node := None\<rparr>))"
| clear_denied: "so_pc s p = Probed \<Longrightarrow> so_node s \<noteq> None \<Longrightarrow> socket_step p s (goto p Cleared (denied p s))"
| announce: "so_pc s p = Cleared \<Longrightarrow> socket_step p s (goto p Announced s)"
| bind: "so_pc s p = Announced \<Longrightarrow> so_node s = None \<Longrightarrow>
    socket_step p s (goto p Serving (s\<lparr>so_node := Some p\<rparr>))"
| bind_panics: "so_pc s p = Announced \<Longrightarrow> so_node s = Some q \<Longrightarrow> socket_step p s (goto p Panicked s)"
| bind_denied: "so_pc s p = Announced \<Longrightarrow> so_node s = None \<Longrightarrow> socket_step p s (goto p Panicked (denied p s))"
| signed_out: "so_pc s p = Serving \<Longrightarrow> socket_step p s (goto p Closing s)"
| leave: "so_pc s p \<in> {Closing, Serving} \<Longrightarrow> socket_step p s (goto p Ended (s\<lparr>so_node := None\<rparr>))"
| leave_denied: "so_pc s p \<in> {Closing, Serving} \<Longrightarrow> socket_step p s (goto p Ended s)"
| kill: "so_pc s p \<in> {Opened, Probed, Cleared, Announced, Serving, Closing} \<Longrightarrow>
    socket_step p s (goto p Killed s)"

inductive_cases socket_stepE: "socket_step p s s'"

text \<open>Between its look at the socket and its listening, or between its last request and its end.\<close>

definition turning :: "sockets \<Rightarrow> nat \<Rightarrow> bool" where
  "turning s p \<longleftrightarrow> so_pc s p \<in> {Probed, Cleared, Announced, Closing}"

text \<open>The processes in any interleaving, and those in which none looks at the socket while another turns.\<close>

definition any_step :: "sockets \<Rightarrow> sockets \<Rightarrow> bool" where
  "any_step s s' \<longleftrightarrow> (\<exists>p. socket_step p s s')"

definition turn_step :: "sockets \<Rightarrow> sockets \<Rightarrow> bool" where
  "turn_step s s' \<longleftrightarrow> (\<exists>p. socket_step p s s' \<and> (so_pc s p = Opened \<longrightarrow> (\<forall>q. \<not> turning s q)))"

text \<open>Nobody runs yet; a node of an earlier agent may be there.\<close>

definition sockets_start :: "sockets \<Rightarrow> bool" where
  "sockets_start s \<longleftrightarrow> (\<forall>p. so_pc s p = Opened \<and> \<not> so_denied s p)"

subsection \<open>One at a time\<close>

text \<open>All but the process \<open>k\<close> are not yet or no longer concerned with the socket.\<close>

definition idle_pcs :: "agent_pc set" where
  "idle_pcs = {Opened, Ended, Refused, Panicked, Killed}"

definition lone :: "sockets \<Rightarrow> nat \<Rightarrow> bool" where
  "lone s k \<longleftrightarrow>
     (\<forall>p. p \<noteq> k \<longrightarrow> so_pc s p \<in> idle_pcs)
     \<and> (so_pc s k = Serving \<longrightarrow> so_node s = Some k)
     \<and> (so_pc s k \<in> {Cleared, Announced} \<longrightarrow> so_node s = None \<or> so_denied s k)
     \<and> (\<forall>p. so_pc s p = Panicked \<longrightarrow> so_denied s p)"

lemma lone_goto:
  "lone (goto p pc s) p \<longleftrightarrow>
     (\<forall>q. q \<noteq> p \<longrightarrow> so_pc s q \<in> idle_pcs)
     \<and> (pc = Serving \<longrightarrow> so_node s = Some p) \<and> (pc \<in> {Cleared, Announced} \<longrightarrow> so_node s = None \<or> so_denied s p)
     \<and> (pc = Panicked \<longrightarrow> so_denied s p) \<and> (\<forall>q. q \<noteq> p \<longrightarrow> so_pc s q = Panicked \<longrightarrow> so_denied s q)"
  by (auto simp: lone_def goto_def)

lemma lone_other:
  "lone s k \<Longrightarrow> p \<noteq> k \<Longrightarrow> pc \<in> {Opened, Ended, Refused, Killed} \<Longrightarrow> lone (goto p pc s) k"
  by (auto simp: lone_def goto_def idle_pcs_def)

lemma denied_simps [simp]:
  "so_pc (denied p s) = so_pc s" "so_node (denied p s) = so_node s" "so_denied (denied p s) = (so_denied s)(p := True)"
  by (simp_all add: denied_def)

lemma lone_step:
  assumes "turn_step s s'" "lone s k"
  shows "\<exists>k. lone s' k"
proof -
  obtain p where p: "socket_step p s s'" "so_pc s p = Opened \<longrightarrow> (\<forall>q. \<not> turning s q)"
    using assms(1) by (auto simp: turn_step_def)
  have panicked: "\<forall>q. so_pc s q = Panicked \<longrightarrow> so_denied s q" using assms(2) by (simp add: lone_def)
  have mine: "p = k" if "so_pc s p \<notin> idle_pcs" using that assms(2) by (auto simp: lone_def)
  have others: "\<forall>q. q \<noteq> p \<longrightarrow> so_pc s q \<in> idle_pcs" if "so_pc s p \<notin> idle_pcs"
    using mine [OF that] assms(2) by (simp add: lone_def)
  have same: "lone (goto p pc s) p" if "p = k" "pc \<in> {Ended, Refused, Killed, Closing}" for pc
  proof -
    have "pc \<notin> {Cleared, Announced}" "pc \<noteq> Serving" "pc \<noteq> Panicked" using that(2) by auto
    moreover have "\<forall>q. q \<noteq> p \<longrightarrow> so_pc s q \<in> idle_pcs" using that(1) assms(2) by (simp add: lone_def)
    ultimately show ?thesis using panicked by (simp add: lone_goto)
  qed
  from p(1) show ?thesis
  proof cases
    case (refuse q)
    then show ?thesis using same [of Refused] lone_other [OF assms(2), of p Refused] by (cases "p = k") blast+
  next
    case probe
    have "so_pc s q \<in> idle_pcs" for q
    proof (cases "q = k")
      case True
      have "\<not> turning s k" using p(2) probe(2) by simp
      moreover have "\<not> answers s k" using probe(3) by blast
      ultimately show ?thesis
        using True assms(2) by (cases "so_pc s k") (auto simp: lone_def turning_def answers_def idle_pcs_def)
    qed (use assms(2) in \<open>simp add: lone_def\<close>)
    then have "lone (goto p Probed s) p" using panicked by (simp add: lone_goto)
    then show ?thesis using probe(1) by blast
  next
    case clear
    then have "lone s' p" using others panicked by (simp add: lone_goto idle_pcs_def)
    then show ?thesis ..
  next
    case clear_denied
    then have "lone s' p" using others panicked by (simp add: lone_goto idle_pcs_def)
    then show ?thesis ..
  next
    case announce
    then have "so_node s = None \<or> so_denied s p" using mine assms(2) by (simp add: lone_def idle_pcs_def)
    with announce have "lone s' p" using others panicked by (simp add: lone_goto idle_pcs_def)
    then show ?thesis ..
  next
    case bind
    then have "lone s' p" using others panicked by (simp add: lone_goto idle_pcs_def)
    then show ?thesis ..
  next
    case (bind_panics q)
    then have "so_denied s p" using mine assms(2) by (simp add: lone_def idle_pcs_def)
    with bind_panics have "lone s' p" using others panicked by (simp add: lone_goto idle_pcs_def)
    then show ?thesis ..
  next
    case bind_denied
    then have "lone s' p" using others panicked by (simp add: lone_goto idle_pcs_def)
    then show ?thesis ..
  next
    case signed_out
    then have "so_pc s p \<notin> idle_pcs" by (simp add: idle_pcs_def)
    then show ?thesis using signed_out(1) same [of Closing] mine by blast
  next
    case leave
    then have "so_pc s p \<notin> idle_pcs" by (auto simp: idle_pcs_def)
    then have "lone s' p" using leave(1) others panicked by (simp add: lone_goto)
    then show ?thesis ..
  next
    case leave_denied
    then have "so_pc s p \<notin> idle_pcs" by (auto simp: idle_pcs_def)
    then show ?thesis using leave_denied(1) same [of Ended] mine by blast
  next
    case kill
    then show ?thesis using same [of Killed] lone_other [OF assms(2), of p Killed] by (cases "p = k") blast+
  qed
qed

interpretation turns: step_invariant turn_step "\<lambda>s. \<exists>k. lone s k"
  by unfold_locales (use lone_step in blast)

lemma lone_start: "sockets_start s \<Longrightarrow> \<exists>k. lone s k"
  by (auto simp: lone_def sockets_start_def idle_pcs_def)

text \<open>C25. When sign-ins and sign-outs do not overlap, at most one agent serves, and the node at the socket path is
  its own, so that the clients reach it. An agent panics after it said \<open>READY\<close> only if the operating system refused to
  remove the node that it found, or to bind at the path.\<close>

theorem one_agent_at_a_time:
  assumes "sockets_start s" "turn_step\<^sup>*\<^sup>* s s'"
  shows "(so_pc s' p = Serving \<longrightarrow> answers s' p)
       \<and> (so_pc s' p = Serving \<longrightarrow> so_pc s' q = Serving \<longrightarrow> p = q)
       \<and> (so_pc s' p = Panicked \<longrightarrow> so_denied s' p)"
proof -
  obtain k where k: "lone s' k" using turns.inv_run [OF assms(2) lone_start [OF assms(1)]] by blast
  have others: "\<forall>p. p \<noteq> k \<longrightarrow> so_pc s' p \<in> idle_pcs" and panicked: "\<forall>p. so_pc s' p = Panicked \<longrightarrow> so_denied s' p"
    using k by (simp_all add: lone_def)
  have only: "p = k" if "so_pc s' p = Serving" for p
  proof (rule ccontr)
    assume "p \<noteq> k"
    then have "so_pc s' p \<in> idle_pcs" using others by blast
    with that show False by (simp add: idle_pcs_def)
  qed
  have "answers s' p" if "so_pc s' p = Serving" for p
    using that only [OF that] k by (simp add: lone_def answers_def)
  then show ?thesis using only panicked by blast
qed

text \<open>A run: an agent takes the path from a stale node, and a second one that starts meanwhile is refused.\<close>

definition stale :: sockets where
  "stale = \<lparr>so_node = Some 7, so_pc = (\<lambda>_. Opened), so_denied = (\<lambda>_. False)\<rparr>"

definition taken :: "sockets \<Rightarrow> nat \<Rightarrow> sockets" where
  "taken s p = goto p Serving ((goto p Announced (goto p Cleared ((goto p Probed s)\<lparr>so_node := None\<rparr>)))\<lparr>so_node := Some p\<rparr>)"

lemmas socket_simps = taken_def goto_def answers_def turning_def

lemma turn_trans:
  "turn_step\<^sup>*\<^sup>* s t \<Longrightarrow> socket_step p t u \<Longrightarrow> so_pc t p \<noteq> Opened \<Longrightarrow> turn_step\<^sup>*\<^sup>* s u"
  using rtranclp.rtrancl_into_rtrancl [of turn_step s t u] by (auto simp: turn_step_def)

text \<open>A process that finds nobody at the path takes it, in one go.\<close>

lemma take_path:
  assumes "so_pc s p = Opened" "\<forall>q. \<not> answers s q" "\<forall>q. \<not> turning s q"
  shows "turn_step\<^sup>*\<^sup>* s (taken s p)"
proof -
  let ?s1 = "goto p Probed s"
  have "turn_step s ?s1" using assms by (auto simp: turn_step_def intro: probe)
  then have "turn_step\<^sup>*\<^sup>* s ?s1" by simp
  then show ?thesis unfolding taken_def
    by (rule turn_trans [OF turn_trans [OF turn_trans [OF _ clear] announce] bind]) (simp_all add: goto_def)
qed

theorem one_agent_at_a_time_witness:
  "turn_step\<^sup>*\<^sup>* stale (goto 2 Refused (taken stale 1)) \<and> answers (goto 2 Refused (taken stale 1)) 1"
proof -
  have "turn_step\<^sup>*\<^sup>* stale (taken stale 1)"
    by (rule take_path) (auto simp: stale_def answers_def turning_def)
  moreover have "turn_step (taken stale 1) (goto 2 Refused (taken stale 1))"
    unfolding turn_step_def
    by (intro exI [of _ 2] conjI refuse [where q = 1]) (auto simp: stale_def socket_simps)
  ultimately have run: "turn_step\<^sup>*\<^sup>* stale (goto 2 Refused (taken stale 1))" by simp
  have "sockets_start stale" by (simp add: sockets_start_def stale_def)
  from one_agent_at_a_time [OF this run, of 1 1] run show ?thesis
    by (simp add: stale_def taken_def goto_def)
qed

subsection \<open>Two at a time\<close>

text \<open>
  Nothing makes a sign-in wait for another. The second agent may look before the first one listens, and
  then either takes the path from it or panics.
\<close>

lemma any_step_trans: "any_step\<^sup>*\<^sup>* s t \<Longrightarrow> socket_step p t u \<Longrightarrow> any_step\<^sup>*\<^sup>* s u"
  using rtranclp.rtrancl_into_rtrancl [of any_step s t u] by (auto simp: any_step_def)

text \<open>Two agents serve; the clients reach only one, and the vault stays unlocked in the other.\<close>

lemma overlapping_sign_ins_orphan:
  "\<exists>s. any_step\<^sup>*\<^sup>* stale s \<and> so_pc s 1 = Serving \<and> so_pc s 2 = Serving \<and> \<not> answers s 1 \<and> answers s 2"
proof -
  let ?a = "goto 1 Announced (goto 1 Cleared ((goto 2 Probed (goto 1 Probed stale))\<lparr>so_node := None\<rparr>))"
  let ?b = "goto 1 Serving (?a\<lparr>so_node := Some 1\<rparr>)"
  let ?c = "goto 2 Announced (goto 2 Cleared (?b\<lparr>so_node := None\<rparr>))"
  let ?d = "goto 2 Serving (?c\<lparr>so_node := Some 2\<rparr>)"
  have "any_step\<^sup>*\<^sup>* stale ?a"
    by (rule any_step_trans [OF any_step_trans [OF any_step_trans [OF any_step_trans [OF rtranclp.rtrancl_refl
          probe] probe] clear] announce])
      (auto simp: stale_def goto_def answers_def)
  then have "any_step\<^sup>*\<^sup>* stale ?d"
    by (rule any_step_trans [OF any_step_trans [OF any_step_trans [OF any_step_trans [OF _ bind] clear] announce] bind])
      (auto simp: stale_def goto_def)
  then show ?thesis by (intro exI [of _ ?d]) (simp add: stale_def goto_def answers_def)
qed

text \<open>The end of the orphan takes the path away from the other.\<close>

lemma orphan_end_unlinks:
  "so_pc s p = Serving \<Longrightarrow> \<not> answers s p \<Longrightarrow> any_step s (goto p Ended (s\<lparr>so_node := None\<rparr>))
     \<and> \<not> answers (goto p Ended (s\<lparr>so_node := None\<rparr>)) q"
  using leave [of s p] by (auto simp: any_step_def answers_def goto_def)

text \<open>Or the second one panics, after its \<open>signin\<close> has reported the session, although the operating system refused it nothing.\<close>

lemma overlapping_sign_ins_panic: "\<exists>s. any_step\<^sup>*\<^sup>* stale s \<and> so_pc s 2 = Panicked \<and> \<not> so_denied s 2"
proof -
  let ?a = "goto 1 Announced (goto 1 Cleared ((goto 2 Probed (goto 1 Probed stale))\<lparr>so_node := None\<rparr>))"
  let ?b = "goto 2 Announced (goto 2 Cleared (?a\<lparr>so_node := None\<rparr>))"
  let ?c = "goto 1 Serving (?b\<lparr>so_node := Some 1\<rparr>)"
  have "any_step\<^sup>*\<^sup>* stale ?a"
    by (rule any_step_trans [OF any_step_trans [OF any_step_trans [OF any_step_trans [OF rtranclp.rtrancl_refl
          probe] probe] clear] announce])
      (auto simp: stale_def goto_def answers_def)
  then have "any_step\<^sup>*\<^sup>* stale (goto 2 Panicked ?c)"
    by (rule any_step_trans [OF any_step_trans [OF any_step_trans [OF any_step_trans [OF _ clear] announce] bind]
          bind_panics [where q = 1]])
      (auto simp: stale_def goto_def)
  then show ?thesis by (intro exI [of _ "goto 2 Panicked ?c"]) (simp add: goto_def stale_def)
qed

text \<open>\<open>bind_socket\<close> gives the path exactly when nobody answers there.\<close>

lemma bind_socket_gives:
  assumes "bind_socket vars uid mkdir chmod alive = Inr sock"
  shows "socket_path vars uid = Inr sock \<and> \<not> alive sock"
  using assms by (auto simp: bind_socket_def res_simps)

end
