(* ===== verification/Program.thy ===== *)
theory Program
  imports Dispatch TuiRun AgentStart
begin

text \<open>
  The program as a whole: \<open>src/main.rs\<close>, \<open>run\<close> of \<open>src/cli/mod.rs\<close>, \<open>launch_tui\<close> of \<open>src/ui/mod.rs\<close> and the
  agent process, each with its exit code. Parsing the arguments is \<open>clap\<close>, drawing and reading the
  terminal is \<open>crossterm\<close> and \<open>ratatui\<close>: their results are what a run meets. \<open>None\<close> is a run that has not
  ended. Standard error is left out.
\<close>

subsection \<open>The terminal interface\<close>

text \<open>\<open>Drop\<close> of the interface wipes what its mode holds.\<close>

definition mode_zeroize :: "mode \<Rightarrow> mode" where
  "mode_zeroize m =
     (case m of
        Unlock _ \<Rightarrow> Unlock []
      | CreateVault _ _ confirming \<Rightarrow> CreateVault [] [] confirming
      | AddTotpSeed name _ \<Rightarrow> AddTotpSeed name []
      | ConfirmImport name _ sas \<Rightarrow> ConfirmImport name [] sas
      | _ \<Rightarrow> m)"

definition app_drop :: "app \<Rightarrow> app" where
  "app_drop ap = ap\<lparr>ap_mode := mode_zeroize (ap_mode ap)\<rparr>"

text \<open>The event loop when drawing, polling or reading may fail: an element is a round, or the failure.\<close>

fun run_app_io ::
  "ui_env \<Rightarrow> (rstr + round) list \<Rightarrow> app \<times> fs \<Rightarrow> ((rstr + bool) \<times> app \<times> fs) option" where
  "run_app_io U [] s = Some (Inr False, s)"
| "run_app_io U (Inl e # ticks) s = Some (Inl e, s)"
| "run_app_io U (Inr r # ticks) s =
     (case run_app U [r] s of
        None \<Rightarrow> None
      | Some (True, s') \<Rightarrow> Some (Inr True, s')
      | Some (False, s') \<Rightarrow> run_app_io U ticks s')"

lemma run_app_io_quiet:
  "run_app_io U (List.map Inr rounds) s = map_option (map_prod Inr id) (run_app U rounds s)"
proof (induction rounds arbitrary: s)
  case (Cons r rounds)
  show ?case
    using run_app_append [of U "[r]" rounds s] Cons.IH by (auto split: option.splits bool.splits)
qed simp

lemma run_app_io_failure:
  assumes "run_app U rounds s = Some (False, s')"
  shows "run_app_io U (List.map Inr rounds @ Inl e # ticks) s = Some (Inl e, s')"
  using assms
proof (induction rounds arbitrary: s)
  case (Cons r rounds)
  then show ?case
    using run_app_append [of U "[r]" rounds s] by (auto split: option.splits bool.splits)
qed simp

text \<open>What the terminal answers, and the modes it is left in. A call that fails changes nothing.\<close>

record screen_io =
  si_raw_on :: "rstr + unit"
  si_enter :: "rstr + unit"
  si_terminal :: "rstr + unit"
  si_raw_off :: "rstr + unit"
  si_leave :: "rstr + unit"
  si_cursor :: "rstr + unit"

record screen =
  sc_raw :: bool
  sc_alternate :: bool

datatype ui_end = NoVaultPath error | TerminalFailed rstr | Returned "rstr option"

text \<open>
  The outcome holds what is printed for a failure of the event loop. The interface is dropped when the
  loop returns, so its state is gone; what stays are the files and the modes of the terminal.
\<close>

definition launch_tui ::
  "ui_env \<Rightarrow> (rstr \<Rightarrow> rstr option) \<Rightarrow> screen_io \<Rightarrow> nat \<Rightarrow> (rstr + round) list \<Rightarrow> fs \<times> screen
     \<Rightarrow> (ui_end \<times> fs \<times> screen) option" where
  "launch_tui U vars T now ticks = (\<lambda>(fs, sc).
     case vault_path vars of Inl e \<Rightarrow> Some (NoVaultPath e, fs, sc) | Inr path \<Rightarrow>
     (case si_raw_on T of Inl e \<Rightarrow> Some (TerminalFailed e, fs, sc) | Inr _ \<Rightarrow>
      let sc1 = sc\<lparr>sc_raw := True\<rparr> in
     (case si_enter T of Inl e \<Rightarrow> Some (TerminalFailed e, fs, sc1) | Inr _ \<Rightarrow>
      let sc2 = sc1\<lparr>sc_alternate := True\<rparr> in
     (case si_terminal T of Inl e \<Rightarrow> Some (TerminalFailed e, fs, sc2) | Inr _ \<Rightarrow>
     (case run_app_io U ticks (app_new vars now path fs, fs) of
        None \<Rightarrow> None
      | Some (Inr False, _) \<Rightarrow> None
      | Some (res, ap, fs') \<Rightarrow>
     (case si_raw_off T of Inl e \<Rightarrow> Some (TerminalFailed e, fs', sc2) | Inr _ \<Rightarrow>
      let sc3 = sc2\<lparr>sc_raw := False\<rparr> in
     (case si_leave T of Inl e \<Rightarrow> Some (TerminalFailed e, fs', sc3) | Inr _ \<Rightarrow>
      let sc4 = sc3\<lparr>sc_alternate := False\<rparr> in
     (case si_cursor T of Inl e \<Rightarrow> Some (TerminalFailed e, fs', sc4) | Inr _ \<Rightarrow>
      Some (Returned (case res of Inl e \<Rightarrow> Some e | Inr _ \<Rightarrow> None), fs', sc4)))))))))"

definition tui_code :: "ui_end \<Rightarrow> int \<times> rstr list" where
  "tui_code res =
     (case res of Returned None \<Rightarrow> (0, []) | Returned (Some e) \<Rightarrow> (0, [e])
      | NoVaultPath _ \<Rightarrow> (1, []) | TerminalFailed _ \<Rightarrow> (1, []))"

subsection \<open>The agent process\<close>

text \<open>
  \<open>run_agent\<close> to its end: the exit code, what it prints, and the answers it sends. \<open>binds\<close> is whether
  the \<open>bind\<close> of \<open>open_listener\<close> succeeds; a panic ends a process with 101. The watchdog's own exit, which
  may come between any two connections, is a step in \<open>Agent\<close>.
\<close>

record agent_world =
  aw_env :: agent_env
  aw_op :: op_env
  aw_stdin :: "rstr + rstr"
  aw_vars :: "rstr \<Rightarrow> rstr option"
  aw_uid :: u32
  aw_mkdir :: "rstr \<Rightarrow> rstr + unit"
  aw_chmod :: "rstr \<Rightarrow> rstr + unit"
  aw_alive :: "rstr \<Rightarrow> bool"
  aw_binds :: bool
  aw_now :: nat
  aw_conns :: "(nat \<times> conn) list"

definition agent_socket :: "agent_world \<Rightarrow> error + rstr" where
  "agent_socket A = bind_socket (aw_vars A) (aw_uid A) (aw_mkdir A) (aw_chmod A) (aw_alive A)"

definition agent_main :: "agent_world \<Rightarrow> fs \<Rightarrow> ((int \<times> rstr \<times> bytes list) \<times> manager \<times> fs) option" where
  "agent_main A fs =
     (case aw_stdin A of
        Inl e \<Rightarrow> Some ((1, fail_handshake (lit ''cannot read handshake: '' @ e), []), manager_new, fs)
      | Inr input \<Rightarrow>
          (case run_agent (aw_env A) (aw_op A) input (map_ok (\<lambda>_. ()) (agent_socket A)) (aw_now A) (manager_new, fs) of
             (printed, None) \<Rightarrow> Some ((1, printed, []), manager_new, fs)
           | (printed, Some ag) \<Rightarrow>
               if \<not> aw_binds A then Some ((101, printed, []), ag_manager ag, fs)
               else (case serve (aw_env A) (aw_conns A) (clock_touch (aw_now A) ag, fs) of
                       ((outs, True), ag', fs') \<Rightarrow> Some ((0, printed, outs), ag_manager ag', fs')
                     | ((outs, False), _, _) \<Rightarrow> None)))"

text \<open>
  The child that \<open>signin\<close> spawns, as the parent and later commands see it: what it prints, and the
  process that then serves.
\<close>

definition spawned :: "agent_world \<Rightarrow> fs \<Rightarrow> rstr \<Rightarrow> rstr \<times> process option" where
  "spawned A fs input =
     (case run_agent (aw_env A) (aw_op A) input (map_ok (\<lambda>_. ()) (agent_socket A)) (aw_now A) (manager_new, fs) of
        (printed, started) \<Rightarrow>
          (printed, map_option (\<lambda>ag. (process_start ag fs (aw_now A))\<lparr>pr_running := aw_binds A\<rparr>) started))"

subsection \<open>The command line\<close>

text \<open>What \<open>clap\<close> makes of the arguments: its own exit for help, version and usage errors, or a command.\<close>

datatype parsed = ParserExit int | NoCommand | AgentCommand | Verb verb

record 's program_world =
  gw_parse :: "rstr list \<Rightarrow> parsed"
  gw_cli :: "'s cli_world"
  gw_ui :: ui_env
  gw_screen :: screen_io
  gw_start :: nat
  gw_ticks :: "(rstr + round) list"
  gw_agent :: agent_world

record 's program_state =
  gs_cli :: "'s cli_state"
  gs_screen :: screen

definition run_ui :: "'s program_world \<Rightarrow> 's program_state \<Rightarrow> ((int \<times> rstr list) \<times> 's program_state) option" where
  "run_ui G st =
     map_option (\<lambda>(res, fs, sc). (tui_code res, st\<lparr>gs_cli := (gs_cli st)\<lparr>cs_files := fs\<rparr>, gs_screen := sc\<rparr>))
       (launch_tui (gw_ui G) (cl_vars (cw_cli (gw_cli G))) (gw_screen G) (gw_start G) (gw_ticks G)
          (cs_files (gs_cli st), gs_screen st))"

definition run_program ::
  "'s program_world \<Rightarrow> rstr list \<Rightarrow> 's program_state \<Rightarrow> ((int \<times> rstr list) \<times> 's program_state) option" where
  "run_program G args st =
     (case gw_parse G args of
        ParserExit code \<Rightarrow> Some ((code, []), st)
      | NoCommand \<Rightarrow> run_ui G st
      | AgentCommand \<Rightarrow>
          map_option (\<lambda>((code, printed, _), _, fs). ((code, [printed]), st\<lparr>gs_cli := (gs_cli st)\<lparr>cs_files := fs\<rparr>\<rparr>))
            (agent_main (gw_agent G) (cs_files (gs_cli st)))
      | Verb v \<Rightarrow>
          map_option (\<lambda>(out, cs). (out, st\<lparr>gs_cli := cs\<rparr>)) (run_cli (gw_cli G) v (gs_cli st)))"

definition main ::
  "'s program_world \<Rightarrow> rstr list \<Rightarrow> 's program_state \<Rightarrow> ((int \<times> rstr list) \<times> 's program_state) option" where
  "main G args st = (if args = [] then run_ui G st else run_program G args st)"

subsection \<open>Lemmas\<close>

lemma launch_returns:
  assumes "launch_tui U vars T now ticks (fs, sc) = Some (Returned err, fs', sc')"
  shows "\<exists>path ap. vault_path vars = Inr path
    \<and> run_app_io U ticks (app_new vars now path fs, fs)
        = Some (case err of Some e \<Rightarrow> Inl e | None \<Rightarrow> Inr True, ap, fs')
    \<and> \<not> sc_raw sc' \<and> \<not> sc_alternate sc'"
  using assms by (auto simp: launch_tui_def Let_def split: sum.splits option.splits bool.splits)

text \<open>The agent's exit code tells what it printed: 1 goes with \<open>ERR\<close>, everything else with \<open>READY\<close>.\<close>

lemma printed_prefix:
  "take 4 (fail_handshake msg) = lit ''ERR ''" "take 4 (lit ''READY '' @ rest) \<noteq> lit ''ERR ''"
  by (simp_all add: fail_handshake_def ascii_def)

lemma run_agent_prints:
  assumes "run_agent E c input sock now s = (printed, started)"
  shows "started = None \<longleftrightarrow> take 4 printed = lit ''ERR ''"
  using assms by (cases s)
    (auto simp: run_agent_def Let_def printed_prefix simp del: lit_simps take_append split: sum.splits prod.splits if_splits)

lemma agent_main_code:
  assumes "agent_main A fs = Some ((code, printed, outs), mg, fs')"
  shows "code = 1 \<longleftrightarrow> take 4 printed = lit ''ERR ''"
  using assms
  by (auto simp: agent_main_def printed_prefix simp del: lit_simps take_append dest: run_agent_prints
      split: sum.splits prod.splits option.splits if_splits bool.splits)

lemma serve_done_locks:
  "serve E conns s = ((outs, True), ag, fs) \<Longrightarrow> \<not> mg_is_unlocked (ag_manager ag)"
proof (induction E conns s arbitrary: outs rule: serve.induct)
  case (2 E now cn conns s)
  obtain out so s' where sc: "serve_conn E now cn s = ((out, so), s')" by (metis prod.exhaust)
  show ?case
  proof (cases so)
    case True
    with 2(2) sc show ?thesis
      by (auto simp: serve_conn_def Let_def mg_is_unlocked_def mg_lock_def split: conn.splits sum.splits prod.splits if_splits)
  next
    case False
    with 2 sc show ?thesis by (auto split: prod.splits)
  qed
qed simp

text \<open>An agent that ends with 0 has locked its vault.\<close>

lemma agent_main_locks:
  assumes "agent_main A fs = Some ((0, printed, outs), mg, fs')"
  shows "\<not> mg_is_unlocked mg"
  using assms by (auto simp: agent_main_def dest: serve_done_locks split: sum.splits prod.splits option.splits if_splits bool.splits)

text \<open>
  A terminal that fails under the running interface ends the program with 0: \<open>launch_tui\<close> prints the error
  and returns \<open>Ok\<close>, so the code for a fatal error of the interface is not reached.
\<close>

lemma ui_failure_exits_zero:
  assumes "launch_tui U vars T now ticks (fs, sc) = Some (Returned (Some e), fs', sc')"
  shows "fst (tui_code (Returned (Some e))) = 0 \<and> (\<exists>path ap. run_app_io U ticks (app_new vars now path fs, fs) = Some (Inl e, ap, fs'))"
  using launch_returns [OF assms] by (auto simp: tui_code_def)

text \<open>A start that fails half-way leaves the terminal in raw mode.\<close>

lemma failed_start_stays_raw:
  assumes "vault_path vars = Inr path" "si_raw_on T = Inr ()" "si_enter T = Inl e"
  shows "launch_tui U vars T now ticks (fs, sc) = Some (TerminalFailed e, fs, sc\<lparr>sc_raw := True\<rparr>)"
  using assms by (simp add: launch_tui_def)

text \<open>Whatever mode the interface ends in, its \<open>Drop\<close> leaves no passphrase, seed or received secret in it.\<close>

lemma dropped_mode_holds_nothing:
  "case mode_zeroize m of
     Unlock p \<Rightarrow> p = [] | CreateVault p q _ \<Rightarrow> p = [] \<and> q = []
   | AddTotpSeed _ s \<Rightarrow> s = [] | ConfirmImport _ s _ \<Rightarrow> s = [] | _ \<Rightarrow> True"
  by (cases m) (auto simp: mode_zeroize_def)

end
