(* ===== verification/TuiDisk.thy ===== *)
theory TuiDisk
  imports TuiRun
begin

text \<open>
  The terminal interface and the vault file: along any run without faults, what an unlocked interface
  shows is what reopening the file with the entered passphrase gives. And what this does not cover:
  two programs that have the same file open.
\<close>

subsection \<open>A file that agrees with the open store\<close>

text \<open>Serializing and encrypting in memory do not fail.\<close>

definition seals :: "vault_env \<Rightarrow> bool" where
  "seals E \<longleftrightarrow> (\<forall>es. is_ok (ser (v_codec E) es)) \<and> (\<forall>k r p a. is_ok (encrypt_aad (v_crates E) k r p a))"

lemma seals_bytes: "seals E \<Longrightarrow> \<exists>bs. vault_bytes E c st = Inr bs"
  by (auto simp: seals_def vault_bytes_def Let_def res_simps is_ok_iff) metis

definition reopens :: "vault_env \<Rightarrow> bytes \<Rightarrow> local_store \<Rightarrow> fs \<Rightarrow> bool" where
  "reopens E pw st fs \<longleftrightarrow>
     (\<exists>bs. fs (st_path st) = Some bs \<and> (length bs \<le> MAX_VAULT_LEN \<longrightarrow>
        (\<forall>c. read_fault c = None \<longrightarrow> (\<exists>st'. ls_open E c (st_path st) pw None fs = Inr st' \<and> same_vault st' st))))"

lemma reopens_saved:
  assumes "env_good E" "keyed E pw None st" "entries_wf (st_entries st)" "ls_save E c st fs = (Inr (), fs')"
  shows "reopens E pw st fs'"
proof -
  obtain bs where bs: "vault_bytes E c st = Inr bs" "fs' (st_path st) = Some bs" using ls_save_written [OF assms(4)] by blast
  then show ?thesis
    using ls_open_vault_bytes [OF assms(1-3) bs(1), of fs'] unfolding reopens_def by blast
qed

lemma reopens_opened:
  assumes "ls_open E c path pw None fs = Inr st"
  shows "reopens E pw st fs"
proof -
  have path: "st_path st = path" by (rule ls_open_keyed(3) [OF assms])
  obtain bs where bs: "fs path = Some bs" "read_fault c = None"
    using assms by (auto simp: ls_open_def split: option.splits)
  have "ls_open E c' path pw None fs = Inr st" if "read_fault c' = None" for c'
    using assms bs that by (simp add: ls_open_def)
  then show ?thesis using bs path by (auto simp: reopens_def same_vault_def)
qed

lemma reopens_elsewhere: "reopens E pw st fs \<Longrightarrow> fs' (st_path st) = fs (st_path st) \<Longrightarrow> reopens E pw st fs'"
  by (simp add: reopens_def ls_open_def)

subsection \<open>The interface agrees with the file\<close>

definition shows_file :: "ui_env \<Rightarrow> bytes \<Rightarrow> app \<times> fs \<Rightarrow> bool" where
  "shows_file U pw = (\<lambda>(ap, fs). \<exists>st. mg_vault (ap_manager ap) = Some st \<and> st_path st = ap_vault_path ap
     \<and> ls_inv (m_vault_env (u_manager U)) pw None (st, fs) \<and> reopens (m_vault_env (u_manager U)) pw st fs
     \<and> ap_names ap = sort (ls_names (m_vault_env (u_manager U)) st))"

lemma shows_file_cong:
  "mg_vault (ap_manager ap') = mg_vault (ap_manager ap) \<Longrightarrow> ap_vault_path ap' = ap_vault_path ap
     \<Longrightarrow> ap_names ap' = ap_names ap \<Longrightarrow> fs' (ap_vault_path ap) = fs (ap_vault_path ap)
     \<Longrightarrow> shows_file U pw (ap, fs) \<Longrightarrow> shows_file U pw (ap', fs')"
  using reopens_elsewhere by (fastforce simp: shows_file_def ls_inv_def)

lemma shows_file_fields [simp]:
  "shows_file U pw (ap\<lparr>ap_error := e\<rparr>, fs) = shows_file U pw (ap, fs)"
  "shows_file U pw (ap\<lparr>ap_status := t\<rparr>, fs) = shows_file U pw (ap, fs)"
  "shows_file U pw (ap\<lparr>ap_qr := w\<rparr>, fs) = shows_file U pw (ap, fs)"
  "shows_file U pw (ap\<lparr>ap_mode := m\<rparr>, fs) = shows_file U pw (ap, fs)"
  "shows_file U pw (ap\<lparr>ap_index := i\<rparr>, fs) = shows_file U pw (ap, fs)"
  "shows_file U pw (ap\<lparr>ap_selected := i\<rparr>, fs) = shows_file U pw (ap, fs)"
  "shows_file U pw (ap\<lparr>ap_editor := d\<rparr>, fs) = shows_file U pw (ap, fs)"
  "shows_file U pw (ap\<lparr>ap_pairing := p\<rparr>, fs) = shows_file U pw (ap, fs)"
  "shows_file U pw (ap\<lparr>ap_reveal_until := u\<rparr>, fs) = shows_file U pw (ap, fs)"
  "shows_file U pw (ap\<lparr>ap_last_activity := u'\<rparr>, fs) = shows_file U pw (ap, fs)"
  "shows_file U pw (ap\<lparr>ap_manager := (ap_manager ap)\<lparr>mg_calls := n\<rparr>\<rparr>, fs) = shows_file U pw (ap, fs)"
  "shows_file U pw (select_name k ap, fs) = shows_file U pw (ap, fs)"
  by (simp_all add: shows_file_def select_name_def split: option.splits)

text \<open>Refreshing the names of a store that agrees with the file.\<close>

lemma refresh_shows:
  assumes "refresh_names U ap = (r, ap')" "mg_vault (ap_manager ap) = Some st" "st_path st = ap_vault_path ap"
    and "ls_inv (m_vault_env (u_manager U)) pw None (st, fs')" "reopens (m_vault_env (u_manager U)) pw st fs'"
  shows "shows_file U pw (ap', fs') \<and> ap_vault_path ap' = ap_vault_path ap \<and> r = Inr ()"
  using assms by (auto simp: refresh_names_def shows_file_def mg_secret_names_def)

lemma save_edited_shows:
  assumes "save_edited_value U W n v (ap, fs) = (r, ap', fs')" "shows_file U pw (ap, fs)"
    and "no_faults (kw_op W)" "seals (m_vault_env (u_manager U))"
  shows "shows_file U pw (ap', fs') \<and> ap_vault_path ap' = ap_vault_path ap"
proof -
  let ?E = "m_vault_env (u_manager U)"
  obtain st where st: "mg_vault (ap_manager ap) = Some st" "st_path st = ap_vault_path ap"
    "ls_inv ?E pw None (st, fs)" "reopens ?E pw st fs"
    using assms(2) by (auto simp: shows_file_def)
  obtain q st' fs1 where put: "ls_put_secret ?E (kw_op W) n v (st, fs) = (q, st', fs1)" by (metis prod.exhaust)
  from put show ?thesis
  proof (cases rule: ls_put_secret_cases)
    case (refused e)
    then have "ap' = ap" "fs' = fs" using assms(1) put st(1) by (auto simp: save_edited_value_def mg_put_secret_def)
    then show ?thesis using assms(2) by simp
  next
    case (stored vk ct)
    obtain bs where "vault_bytes ?E (kw_op W) st' = Inr bs" using seals_bytes [OF assms(4)] by blast
    with stored(5) ls_save_ok [OF assms(3), of ?E st' bs fs] have q: "q = Inr ()" by simp
    have path: "st_path st' = ap_vault_path ap" using stored(4) st(2) by simp
    have inv: "ls_inv ?E pw None (st', fs1)" using local.put_inv [OF st(3) put] .
    then have "reopens ?E pw st' fs1"
      using reopens_saved [of ?E pw st' "kw_op W" fs fs1] stored(5) q by (auto simp: ls_inv_def)
    moreover have "refresh_names U (ap\<lparr>ap_manager := (ap_manager ap)\<lparr>mg_vault := Some st'\<rparr>\<rparr>) = (r, ap')" "fs' = fs1"
      using assms(1) put st(1) q by (auto simp: save_edited_value_def mg_put_secret_def split: prod.splits)
    ultimately show ?thesis using refresh_shows [where st = st' and fs' = fs1 and pw = pw] path inv by fastforce
  qed
qed

lemma delete_named_shows:
  assumes "delete_named U W n (ap, fs) = (r, ap', fs')" "shows_file U pw (ap, fs)"
    and "no_faults (kw_op W)" "seals (m_vault_env (u_manager U))"
  shows "shows_file U pw (ap', fs') \<and> ap_vault_path ap' = ap_vault_path ap"
proof -
  let ?E = "m_vault_env (u_manager U)"
  obtain st where st: "mg_vault (ap_manager ap) = Some st" "st_path st = ap_vault_path ap"
    "ls_inv ?E pw None (st, fs)" "reopens ?E pw st fs"
    using assms(2) by (auto simp: shows_file_def)
  obtain q st' fs1 where del: "ls_delete_secret ?E (kw_op W) n (st, fs) = (q, st', fs1)" by (metis prod.exhaust)
  have inv: "ls_inv ?E pw None (st', fs1)" using local.del_inv [OF st(3) del] .
  have "is_ok q" "st_path st' = ap_vault_path ap" "reopens ?E pw st' fs1"
    using del
  proof (atomize (full), cases rule: ls_delete_cases)
    case absent
    with st show "is_ok q \<and> st_path st' = ap_vault_path ap \<and> reopens ?E pw st' fs1" by simp
  next
    case (removed q')
    obtain bs where "vault_bytes ?E (kw_op W) st' = Inr bs" using seals_bytes [OF assms(4)] by blast
    with removed(3) ls_save_ok [OF assms(3), of ?E st' bs fs] have q': "q' = Inr ()" by simp
    with removed st(2) inv reopens_saved [of ?E pw st' "kw_op W" fs fs1]
    show "is_ok q \<and> st_path st' = ap_vault_path ap \<and> reopens ?E pw st' fs1" by (auto simp: ls_inv_def)
  qed
  moreover then have "refresh_names U (ap\<lparr>ap_manager := (ap_manager ap)\<lparr>mg_vault := Some st'\<rparr>,
      ap_selected := ap_selected ap - 1\<rparr>) = (r, ap')"
      "fs' = fs1"
    using assms(1) del st(1) by (auto simp: delete_named_def mg_delete_secret_def split: prod.splits sum.splits)
  ultimately show ?thesis
    using refresh_shows [where st = st' and fs' = fs1 and pw = pw] inv by fastforce
qed

lemma try_unlock_shows:
  assumes "try_unlock U W s (ap, fs) = (r, ap', fs')" "\<not> mg_is_unlocked (ap_manager ap)" "env_good (m_vault_env (u_manager U))"
  shows "(mg_is_unlocked (ap_manager ap') \<longrightarrow> shows_file U (utf8 s) (ap', fs')) \<and> ap_vault_path ap' = ap_vault_path ap"
proof (cases "ls_open (m_vault_env (u_manager U)) (kw_op W) (ap_vault_path ap) (utf8 s) None fs")
  case (Inl e)
  with assms(1,2) show ?thesis by (auto simp: try_unlock_def mg_open_vault_def)
next
  case (Inr st)
  then have "refresh_names U (ap\<lparr>ap_manager := (ap_manager ap)\<lparr>mg_vault := Some st\<rparr>\<rparr>) = (r, ap')" "fs' = fs"
    using assms(1) by (auto simp: try_unlock_def mg_open_vault_def split: prod.splits)
  moreover have "ls_inv (m_vault_env (u_manager U)) (utf8 s) None (st, fs)" "st_path st = ap_vault_path ap"
    using ls_open_keyed [OF Inr] assms(3) by (simp_all add: ls_inv_def)
  ultimately show ?thesis
    using refresh_shows [where st = st and fs' = fs and pw = "utf8 s"] reopens_opened [OF Inr] by fastforce
qed

lemma try_create_shows:
  assumes "try_create U W s (ap, fs) = (r, ap', fs')" "\<not> mg_is_unlocked (ap_manager ap)" "env_good (m_vault_env (u_manager U))"
  shows "(mg_is_unlocked (ap_manager ap') \<longrightarrow> shows_file U (utf8 s) (ap', fs')) \<and> ap_vault_path ap' = ap_vault_path ap"
proof -
  let ?E = "m_vault_env (u_manager U)" and ?path = "ap_vault_path ap"
  obtain q mg1 fs1 where cr: "mg_create_vault (u_manager U) (kw_op W) ?path (utf8 s)
      default_argon2_params 0 None (ap_manager ap, fs) = (q, mg1, fs1)"
    by (metis prod.exhaust)
  show ?thesis
  proof (cases "q = Inr () \<and> mg_is_unlocked (ap_manager ap')")
    case False
    then have "mg_is_unlocked mg1 \<longrightarrow> \<not> mg_is_unlocked (ap_manager ap')"
      using assms(2) mg_create_unlocked [OF cr] by auto
    with cr assms(1,2) show ?thesis
      by (auto simp: try_create_def refresh_names_def split: option.splits sum.splits prod.splits if_splits)
  next
    case True
    then have rf: "refresh_names U (ap\<lparr>ap_manager := mg1\<rparr>) = (r, ap')" "fs' = fs1"
      using cr assms(1,2)
      by (auto simp: try_create_def split: option.splits sum.splits prod.splits if_splits)
    have cr': "mg_create_vault (u_manager U) (kw_op W) ?path (utf8 s) default_argon2_params 0 None (ap_manager ap, fs)
        = (Inr (), mg1, fs1)"
      using cr True by simp
    obtain st where st: "mg_vault mg1 = Some st" using mg_create_state(2) [OF cr' assms(3)] by (auto simp: mg_synced_def)
    obtain c bs where bs: "st_path st = ?path" "vault_bytes ?E c st = Inr bs" "fs1 ?path = Some bs"
      using mg_create_state(2) [OF cr' assms(3)] st by (auto simp: mg_synced_def)
    have inv: "ls_inv ?E (utf8 s) None (st, fs1)" using mg_create_state(1) [OF cr' assms(3)] st by (simp add: mg_inv_def)
    then have "reopens ?E (utf8 s) st fs1"
      using ls_open_vault_bytes [OF assms(3) _ _ bs(2), of "utf8 s" None fs1] bs(1,3) by (auto simp: reopens_def ls_inv_def)
    then show ?thesis
      using refresh_shows [OF rf(1), where st = st and fs' = fs1 and pw = "utf8 s"] st bs(1) inv rf(2) by simp
  qed
qed

lemma write_paircode_shows:
  assumes "write_paircode U W (ap, fs) = (ap', fs')" "shows_file U pw (ap, fs)"
    and "ap_vault_path ap \<noteq> path_join (u_cwd U) (lit ''pairing-code.txt'')"
  shows "shows_file U pw (ap', fs') \<and> ap_vault_path ap' = ap_vault_path ap"
proof -
  have 1: "ap_vault_path (ensure_pairing U W ap) = ap_vault_path ap"
    by (simp add: ensure_pairing_def split: option.splits sum.splits)
  have "fs' (ap_vault_path ap) = fs (ap_vault_path ap)" "ap_vault_path ap' = ap_vault_path ap"
    using assms(1,3) 1
    by (auto simp: write_paircode_def fs_write_def Let_def split: option.splits prod.splits sum.splits simp del: lit_simps)
  then show ?thesis using shows_file_cong [OF _ _ _ _ assms(2)] write_paircode_same [OF assms(1)] by metis
qed

subsection \<open>Every key keeps the agreement\<close>

text \<open>\<open>agrees U path P\<close>: if the vault is unlocked, the interface shows the file, which one of the
  passphrases \<open>P\<close> opens.\<close>

definition agrees :: "ui_env \<Rightarrow> rstr \<Rightarrow> bytes set \<Rightarrow> app \<times> fs \<Rightarrow> bool" where
  "agrees U path P s \<longleftrightarrow> ap_vault_path (fst s) = path
     \<and> (mg_is_unlocked (ap_manager (fst s)) \<longrightarrow> (\<exists>pw\<in>P. shows_file U pw s))"

definition step_shows :: "ui_env \<Rightarrow> app \<times> fs \<Rightarrow> app \<times> fs \<Rightarrow> bool" where
  "step_shows U s s' \<longleftrightarrow> ap_vault_path (fst s') = ap_vault_path (fst s)
     \<and> (\<forall>pw. shows_file U pw s \<longrightarrow> shows_file U pw s')"

lemma step_shows_fields [simp]:
  "step_shows U s (ap\<lparr>ap_error := e\<rparr>, fs) = step_shows U s (ap, fs)"
  "step_shows U s (ap\<lparr>ap_status := t\<rparr>, fs) = step_shows U s (ap, fs)"
  "step_shows U s (ap\<lparr>ap_qr := w\<rparr>, fs) = step_shows U s (ap, fs)"
  "step_shows U s (ap\<lparr>ap_mode := m\<rparr>, fs) = step_shows U s (ap, fs)"
  "step_shows U s (ap\<lparr>ap_index := i\<rparr>, fs) = step_shows U s (ap, fs)"
  "step_shows U s (ap\<lparr>ap_selected := i\<rparr>, fs) = step_shows U s (ap, fs)"
  "step_shows U s (ap\<lparr>ap_editor := d\<rparr>, fs) = step_shows U s (ap, fs)"
  "step_shows U s (ap\<lparr>ap_pairing := p\<rparr>, fs) = step_shows U s (ap, fs)"
  "step_shows U s (ap\<lparr>ap_reveal_until := u\<rparr>, fs) = step_shows U s (ap, fs)"
  "step_shows U s (ap\<lparr>ap_last_activity := u'\<rparr>, fs) = step_shows U s (ap, fs)"
  "step_shows U s (ap\<lparr>ap_manager := (ap_manager ap)\<lparr>mg_calls := n\<rparr>\<rparr>, fs) = step_shows U s (ap, fs)"
  "step_shows U s (select_name k ap, fs) = step_shows U s (ap, fs)"
  by (simp_all add: step_shows_def select_name_def split: option.splits)

lemma step_shows_refl [simp]: "step_shows U s s"
  by (simp add: step_shows_def)

lemma step_shows_trans: "step_shows U s s' \<Longrightarrow> step_shows U s' s'' \<Longrightarrow> step_shows U s s''"
  by (simp add: step_shows_def)

lemma step_shows_operations:
  assumes "no_faults (kw_op W)" "seals (m_vault_env (u_manager U))"
  shows "save_edited_value U W n v (ap, fs) = (r, ap', fs') \<Longrightarrow> step_shows U (ap, fs) (ap', fs')"
    and "delete_named U W n (ap, fs) = (r, ap', fs') \<Longrightarrow> step_shows U (ap, fs) (ap', fs')"
proof -
  show "save_edited_value U W n v (ap, fs) = (r, ap', fs') \<Longrightarrow> step_shows U (ap, fs) (ap', fs')"
    using save_edited_shows [OF _ _ assms]
    by (fastforce simp: step_shows_def save_edited_value_def refresh_names_def split: sum.splits prod.splits)
  show "delete_named U W n (ap, fs) = (r, ap', fs') \<Longrightarrow> step_shows U (ap, fs) (ap', fs')"
    using delete_named_shows [OF _ _ assms]
    by (fastforce simp: step_shows_def delete_named_def refresh_names_def split: sum.splits prod.splits)
qed

lemma step_shows_same:
  assumes "mg_vault (ap_manager ap') = mg_vault (ap_manager ap)" "ap_vault_path ap' = ap_vault_path ap" "ap_names ap' = ap_names ap"
  shows "step_shows U (ap, fs) (ap', fs)"
  using shows_file_cong [OF assms] assms(2) by (simp add: step_shows_def)

lemma step_shows_pairing: "step_shows U (ap, fs) (ensure_pairing U W ap, fs)"
  by (rule step_shows_same) (simp_all add: ensure_pairing_def split: option.splits sum.splits)

lemma step_shows_browse:
  assumes "step_browse U W k (ap, fs) = ((m, q), ap', fs')"
    and "ap_vault_path ap \<noteq> path_join (u_cwd U) (lit ''pairing-code.txt'')"
  shows "step_shows U (ap, fs) (ap', fs')"
proof -
  note same = step_shows_same [where ap = ap and fs = fs]
  have "step_shows U (ap, fs) (next_tab ap, fs)" "step_shows U (ap, fs) (prev_tab ap, fs)"
    "step_shows U (ap, fs) (select_prev ap, fs)" "step_shows U (ap, fs) (select_next ap, fs)"
    by (simp_all add: next_tab_def prev_tab_def select_prev_def select_next_def)
  moreover have "step_shows U (ap, fs) (copy_selected U W ap, fs)"
    by (rule same) (simp_all add: copy_selected_def Let_def split: option.splits sum.splits)
  moreover have "begin_edit U ap = (m', ap1) \<Longrightarrow> step_shows U (ap, fs) (ap1, fs)" for m' ap1
    by (auto simp: begin_edit_def split: option.splits sum.splits)
  moreover have pair: "step_shows U (ap, fs) (ensure_pairing U W (ap\<lparr>ap_error := e, ap_status := t\<rparr>), fs)" for e t
    using step_shows_pairing [of U "ap\<lparr>ap_error := e, ap_status := t\<rparr>" fs W] by (auto intro: step_shows_trans [rotated])
  moreover have "begin_import U W fs ap = (m', ap1) \<Longrightarrow> step_shows U (ap, fs) (ap1, fs)" for m' ap1
    using pair by (auto simp: begin_import_def Let_def split: option.splits sum.splits if_splits)
  moreover have "step_shows U (ap, fs) (ap1, fs1)" if "write_paircode U W (ap, fs) = (ap1, fs1)" for ap1 fs1
  proof -
    have "ap_vault_path ap1 = ap_vault_path ap"
      using that by (auto simp: write_paircode_def ensure_pairing_def Let_def split: option.splits prod.splits sum.splits)
    then show ?thesis using write_paircode_shows [OF that _ assms(2)] by (simp add: step_shows_def)
  qed
  ultimately show ?thesis
    using assms(1) by (auto simp: step_browse_def Let_def split: if_splits option.splits prod.splits)
qed

lemma step_shows_totp_seed:
  assumes "step_totp_seed U W n i k (ap, fs) = ((m, q), ap', fs')"
    and "no_faults (kw_op W)" "seals (m_vault_env (u_manager U))"
  shows "step_shows U (ap, fs) (ap', fs')"
proof -
  note ops = step_shows_operations [OF assms(2,3)]
  have "step_shows U (ap, fs) (ap1, fs1)" if "store_generated_totp U W n (ap, fs) = (m1, ap1, fs1)" for m1 ap1 fs1
  proof -
    let ?ap0 = "ap\<lparr>ap_manager := (ap_manager ap)\<lparr>mg_calls := Suc (mg_calls (ap_manager ap))\<rparr>\<rparr>"
    have 0: "step_shows U (ap, fs) (?ap0, fs)" by simp
    show ?thesis
      using that 0 ops(1) step_shows_trans [OF 0]
      by (auto simp: store_generated_totp_def Let_def simp del: step_shows_fields(11) split: sum.splits prod.splits)
  qed
  then show ?thesis
    using assms(1) ops(1)
    by (fastforce simp: step_totp_seed_def split: if_splits key_code.splits option.splits prod.splits sum.splits)
qed

lemma step_shows_modes:
  assumes "ui_step U W m k (ap, fs) = Some ((m', q), ap', fs')" "\<not> prompting m"
    and "no_faults (kw_op W)" "seals (m_vault_env (u_manager U))"
    and "ap_vault_path ap \<noteq> path_join (u_cwd U) (lit ''pairing-code.txt'')"
  shows "step_shows U (ap, fs) (ap', fs')"
proof -
  note ops = step_shows_operations [OF assms(3,4)]
  show ?thesis
  proof (cases m)
    case Browse
    with assms(1,5) show ?thesis by (auto simp: ui_step_def intro: step_shows_browse)
  next
    case AddTotpSeed
    with assms(1,3,4) show ?thesis by (auto simp: ui_step_def intro: step_shows_totp_seed)
  next
    case EditValue
    with assms(1) ops(1) show ?thesis
      by (auto simp: ui_step_def step_edit_def split: if_splits key_code.splits prod.splits sum.splits)
  next
    case Generate
    with assms(1) show ?thesis
      by (auto simp: ui_step_def step_generate_def generate_value_def
          split: if_splits key_code.splits option.splits prod.splits sum.splits)
  next
    case ConfirmDelete
    with assms(1) ops(2) show ?thesis
      by (auto simp: ui_step_def step_delete_def split: if_splits prod.splits sum.splits)
  next
    case ConfirmImport
    with assms(1) ops(1) show ?thesis
      by (auto simp: ui_step_def step_import_def split: if_splits prod.splits sum.splits)
  qed (use assms(1,2) in \<open>auto simp: ui_step_def step_add_name_def step_totp_name_def split: if_splits key_code.splits\<close>)
qed

text \<open>The passphrase that Enter submits in a mode.\<close>

definition submits :: "mode \<Rightarrow> key_event \<Rightarrow> bytes set" where
  "submits m k = (if k_code k \<noteq> KEnter then {} else
     case m of Unlock s \<Rightarrow> {utf8 s} | CreateVault s _ True \<Rightarrow> {utf8 s} | _ \<Rightarrow> {})"

lemma prompt_shows:
  assumes "ui_step U W m k (ap, fs) = Some ((m', q), ap', fs')" "prompting m" "\<not> mg_is_unlocked (ap_manager ap)"
    and "env_good (m_vault_env (u_manager U))"
  shows "ap_vault_path ap' = ap_vault_path ap
    \<and> (mg_is_unlocked (ap_manager ap') \<longrightarrow> (\<exists>pw\<in>submits m k. shows_file U pw (ap', fs')))"
proof (cases m)
  case (Unlock s)
  show ?thesis
  proof (cases "k_code k = KEnter")
    case True
    obtain r ap1 fs1 where t: "try_unlock U W s (ap, fs) = (r, ap1, fs1)" by (metis prod.exhaust)
    from try_unlock_shows [OF t assms(3,4)] assms(1) t True Unlock show ?thesis
      by (cases r) (auto simp: ui_step_def step_unlock_def submits_def)
  next
    case False
    with assms(1,3) Unlock show ?thesis
      by (auto simp: ui_step_def step_unlock_def split: key_code.splits)
  qed
next
  case (CreateVault s c b)
  show ?thesis
  proof (cases "k_code k = KEnter \<and> b \<and> s \<noteq> [] \<and> s = c")
    case True
    obtain r ap1 fs1 where t: "try_create U W s (ap, fs) = (r, ap1, fs1)" by (metis prod.exhaust)
    from try_create_shows [OF t assms(3,4)] assms(1) t True CreateVault show ?thesis
      by (cases r) (auto simp: ui_step_def step_create_def submits_def Let_def)
  next
    case False
    with assms(1,3) CreateVault show ?thesis
      by (auto simp: ui_step_def step_create_def Let_def split: key_code.splits if_splits)
  qed
qed (use assms(2) in simp_all)

lemma handle_key_agrees:
  assumes "handle_key U W k (ap, fs) = Some (q, ap', fs')" "agrees U path P (ap, fs)" "app_ok (ap_mode ap) ap"
    and "env_good (m_vault_env (u_manager U))" "seals (m_vault_env (u_manager U))" "no_faults (kw_op W)"
    and "path \<noteq> path_join (u_cwd U) (lit ''pairing-code.txt'')"
  shows "agrees U path (P \<union> submits (ap_mode ap) k) (ap', fs')"
proof -
  let ?ap1 = "ap\<lparr>ap_last_activity := kw_now W\<rparr>"
  consider (quit) "k_code k = kc CHR ''c''" "k_ctrl k" | (lock) "ap' = lock_app ?ap1"
    | (qr) "ap' = ?ap1\<lparr>ap_qr := None\<rparr>" "fs' = fs"
    | (step) m ap2 where "ui_step U W (ap_mode ap) k (?ap1\<lparr>ap_mode := Browse\<rparr>, fs) = Some ((m, q), ap2, fs')"
        "ap' = ap2\<lparr>ap_mode := m\<rparr>"
    using assms(1) by (auto simp: handle_key_def Let_def split: if_splits option.splits prod.splits)
  then show ?thesis
  proof cases
    case quit
    with assms(1,2) show ?thesis by (auto simp: handle_key_def agrees_def)
  next
    case lock
    with assms(2) show ?thesis by (simp add: agrees_def lock_app_def mg_lock_def mg_is_unlocked_def)
  next
    case qr
    with assms(2) show ?thesis by (auto simp: agrees_def)
  next
    case step
    show ?thesis
    proof (cases "prompting (ap_mode ap)")
      case True
      then have "\<not> mg_is_unlocked (ap_manager ap)" using assms(3) by (simp add: app_ok_def)
      with prompt_shows [OF step(1) True _ assms(4)] step(2) assms(2) show ?thesis by (auto simp: agrees_def)
    next
      case False
      then have "mg_is_unlocked (ap_manager ap)" using assms(3) by (simp add: app_ok_def)
      with step_shows_modes [OF step(1) False assms(6,5)] step(2) assms(2,7) show ?thesis
        by (auto simp: agrees_def step_shows_def)
    qed
  qed
qed

subsection \<open>Along a run\<close>

text \<open>No round has a fault of the file system.\<close>

definition calm :: "round list \<Rightarrow> bool" where
  "calm rounds = list_all (\<lambda>(ev, _). case ev of Some (W, _) \<Rightarrow> no_faults (kw_op W) | None \<Rightarrow> True) rounds"

text \<open>The passphrases that were submitted: what stood in a prompt of the run when Enter was pressed.\<close>

definition entered :: "ui_env \<Rightarrow> round list \<Rightarrow> app \<times> fs \<Rightarrow> bytes set" where
  "entered U rounds s = (\<Union>i<length rounds. case (run_app U (take i rounds) s, fst (rounds ! i)) of
     (Some (False, ap, _), Some (_, k)) \<Rightarrow> submits (ap_mode ap) k | _ \<Rightarrow> {})"

lemma entered_snoc:
  "entered U (rounds @ [r]) s = entered U rounds s
     \<union> (case (run_app U rounds s, fst r) of (Some (False, ap, _), Some (_, k)) \<Rightarrow> submits (ap_mode ap) k | _ \<Rightarrow> {})"
proof -
  let ?at = "\<lambda>rounds i. case (run_app U (take i rounds) s, fst (rounds ! i)) of
     (Some (False, ap, _), Some (_, k)) \<Rightarrow> submits (ap_mode ap) k | _ \<Rightarrow> {}"
  have "(\<Union>i<length rounds. ?at (rounds @ [r]) i) = (\<Union>i<length rounds. ?at rounds i)"
    by (intro SUP_cong) (simp_all add: nth_append)
  then show ?thesis by (simp only: entered_def length_append_singleton lessThan_Suc UN_insert) (simp add: Un_commute)
qed

lemma agrees_mono: "agrees U path P s \<Longrightarrow> P \<subseteq> Q \<Longrightarrow> agrees U path Q s"
  by (auto simp: agrees_def)

lemma maybe_autolock_agrees:
  "agrees U path P (ap, fs) \<Longrightarrow> agrees U path P (maybe_autolock now ap, fs)"
  by (auto simp: agrees_def maybe_autolock_def lock_app_def mg_lock_def mg_is_unlocked_def)

lemma run_app_agrees:
  assumes "env_good (m_vault_env (u_manager U))" "seals (m_vault_env (u_manager U))"
    and "path \<noteq> path_join (u_cwd U) (lit ''pairing-code.txt'')"
    and start: "app_ok (ap_mode ap0) ap0" "agrees U path {} (ap0, fs0)"
  shows "run_app U rounds (ap0, fs0) = Some (q, ap, fs) \<Longrightarrow> calm rounds
    \<Longrightarrow> agrees U path (entered U rounds (ap0, fs0)) (ap, fs)"
proof (induction rounds arbitrary: q ap fs rule: rev_induct)
  case Nil
  with start show ?case by (simp add: entered_def)
next
  case (snoc r rounds)
  obtain b ap1 fs1 where 1: "run_app U rounds (ap0, fs0) = Some (b, ap1, fs1)"
    using snoc.prems(1) by (auto simp: run_app_append split: option.splits)
  have calm: "calm rounds" "calm [r]" using snoc.prems(2) by (simp_all add: calm_def)
  note IH = snoc.IH [OF 1 calm(1)]
  have ok1: "app_ok (ap_mode ap1) ap1" using run_app_ok [OF 1 start(1)] .
  show ?case
  proof (cases "b \<or> fst r = None")
    case True
    have "agrees U path (entered U rounds (ap0, fs0)) (ap, fs)"
      using True snoc.prems(1) 1 IH maybe_autolock_agrees [OF IH]
      by (cases r) (auto simp: run_app_append split: bool.splits)
    then show ?thesis by (rule agrees_mono) (simp add: entered_snoc)
  next
    case False
    then obtain W k now where r: "r = (Some (W, k), now)" by (cases r) auto
    obtain q2 ap2 fs2 where 2: "handle_key U W k (ap1, fs1) = Some (q2, ap2, fs2)"
      using snoc.prems(1) 1 False r by (auto simp: run_app_append split: option.splits)
    have "agrees U path (entered U rounds (ap0, fs0) \<union> submits (ap_mode ap1) k) (ap2, fs2)"
      using handle_key_agrees [OF 2 IH ok1 assms(1,2) _ assms(3)] calm(2) r by (simp add: calm_def)
    moreover have "ap = ap2 \<or> ap = maybe_autolock now ap2" "fs = fs2"
      using snoc.prems(1) 1 2 False r by (auto simp: run_app_append split: bool.splits)
    moreover have "entered U (rounds @ [r]) (ap0, fs0) = entered U rounds (ap0, fs0) \<union> submits (ap_mode ap1) k"
      using 1 False r by (simp add: entered_snoc)
    ultimately show ?thesis using maybe_autolock_agrees by auto
  qed
qed

lemma app_new_agrees: "agrees U path {} (app_new vars now path fs, fs)"
  by (simp add: agrees_def app_new_def manager_new_def mg_is_unlocked_def)

text \<open>What the interface shows, in terms of the manager and the file.\<close>

lemma shows_file_contents:
  assumes "shows_file U pw (ap, fs)"
  shows "distinct (ap_names ap)" "sorted (ap_names ap)"
    and "set (ap_names ap) = {n. mg_get_secret (u_manager U) (ap_manager ap) n \<noteq> Inr None}"
    and "\<exists>bs. fs (ap_vault_path ap) = Some bs \<and> (length bs \<le> MAX_VAULT_LEN \<longrightarrow> (\<forall>c mg. read_fault c = None \<longrightarrow>
      (\<exists>mg'. mg_open_vault (u_manager U) c (ap_vault_path ap) pw None (mg, fs) = (Inr (), mg', fs)
        \<and> (\<forall>n. mg_get_secret (u_manager U) mg' n = mg_get_secret (u_manager U) (ap_manager ap) n))))"
proof -
  let ?E = "m_vault_env (u_manager U)"
  obtain st where st: "mg_vault (ap_manager ap) = Some st" "st_path st = ap_vault_path ap"
    "ls_inv ?E pw None (st, fs)" "reopens ?E pw st fs" "ap_names ap = sort (ls_names ?E st)"
    using assms by (auto simp: shows_file_def)
  have it: "iter_ok ?E" "entries_wf (st_entries st)" using st(3) by (auto simp: ls_inv_def env_good_def)
  have get: "mg_get_secret (u_manager U) (ap_manager ap) n = ls_get_secret ?E st n" for n
    using st(1) by (simp add: mg_get_secret_def)
  show "distinct (ap_names ap)" "sorted (ap_names ap)"
    "set (ap_names ap) = {n. mg_get_secret (u_manager U) (ap_manager ap) n \<noteq> Inr None}"
    using sorted_names [OF it] st(5) by (simp_all add: get)
  have "\<exists>mg'. mg_open_vault (u_manager U) c (ap_vault_path ap) pw None (mg, fs) = (Inr (), mg', fs)
      \<and> (\<forall>n. mg_get_secret (u_manager U) mg' n = ls_get_secret ?E st n)"
    if "ls_open ?E c (st_path st) pw None fs = Inr st'" "same_vault st' st" for c mg st'
    using that st(2) same_vault_get [OF that(2), of ?E] by (auto simp: mg_open_vault_def mg_get_secret_def)
  then show "\<exists>bs. fs (ap_vault_path ap) = Some bs \<and> (length bs \<le> MAX_VAULT_LEN \<longrightarrow> (\<forall>c mg. read_fault c = None \<longrightarrow>
      (\<exists>mg'. mg_open_vault (u_manager U) c (ap_vault_path ap) pw None (mg, fs) = (Inr (), mg', fs)
        \<and> (\<forall>n. mg_get_secret (u_manager U) mg' n = mg_get_secret (u_manager U) (ap_manager ap) n))))"
    using st(2,4) unfolding reopens_def get by metis
qed

subsection \<open>An instance that never fails\<close>

text \<open>A serialization of every list of entries: each byte is preceded by a one, and a zero ends a string.\<close>

fun put_bytes :: "bytes \<Rightarrow> bytes" where
  "put_bytes [] = [0]"
| "put_bytes (x # xs) = 1 # x # put_bytes xs"

fun take_bytes :: "bytes \<Rightarrow> (bytes \<times> bytes) option" where
  "take_bytes (a # x # r) = (if a = 0 then Some ([], x # r) else map_option (\<lambda>(xs, r'). (x # xs, r')) (take_bytes r))"
| "take_bytes [a] = (if a = 0 then Some ([], []) else None)"
| "take_bytes [] = None"

lemma take_put_bytes: "take_bytes (put_bytes xs @ r) = Some (xs, r)"
  by (induction xs) (cases r; simp)+

fun put_entries :: "secret_entry list \<Rightarrow> bytes" where
  "put_entries [] = [0]"
| "put_entries (e # es) = 1 # put_bytes (utf8 (entry_name e)) @ put_bytes (encrypted_value e) @ put_entries es"

fun take_entries :: "nat \<Rightarrow> bytes \<Rightarrow> secret_entry list option" where
  "take_entries (Suc n) (a # r) =
     (if a = 0 then Some []
      else
        Option.bind (take_bytes r) (\<lambda>(name, r1).
        Option.bind (from_utf8 name) (\<lambda>s.
        Option.bind (take_bytes r1) (\<lambda>(value, r2).
        map_option ((#) \<lparr>entry_name = s, encrypted_value = value\<rparr>) (take_entries n r2)))))"
| "take_entries _ _ = None"

lemma take_put_entries: "length es < n \<Longrightarrow> take_entries n (put_entries es) = Some es"
proof (induction es arbitrary: n)
  case Nil
  then show ?case by (cases n) simp_all
next
  case (Cons e es)
  then obtain n' where n: "n = Suc n'" "length es < n'" by (cases n) simp_all
  show ?case using Cons.IH [OF n(2)] n(1) by (cases e) (simp add: take_put_bytes)
qed

definition entries_codec :: "secret_entry list bincode" where
  "entries_codec = \<lparr>ser = (\<lambda>es. Inr (put_entries es)),
     de = (\<lambda>b. ok_or (lit ''invalid data'') (take_entries (Suc (length b)) b))\<rparr>"

lemma length_put_entries: "length es < length (put_entries es)"
  by (induction es) simp_all

lemma entries_codec_ok: "codec_ok entries_codec"
proof -
  have "take_entries (Suc (length (put_entries es))) (put_entries es) = Some es" for es
    using length_put_entries [of es] by (intro take_put_entries) simp
  then show ?thesis by (simp add: codec_ok_def entries_codec_def)
qed

definition sure_vault :: vault_env where
  "sure_vault = demo_vault\<lparr>v_codec := entries_codec\<rparr>"

lemma sure_vault_ok: "env_good sure_vault" "seals sure_vault"
  using demo_env_good
  by (simp_all add: sure_vault_def env_good_def seals_def entries_codec_ok iter_ok_def demo_vault_def demo_crates_simps)
    (simp add: entries_codec_def)

definition sure_manager_env :: manager_env where
  "sure_manager_env = demo_manager_env\<lparr>m_vault_env := sure_vault\<rparr>"

definition sure_ui :: ui_env where
  "sure_ui = demo_ui\<lparr>u_manager := sure_manager_env\<rparr>"

lemma sure_simps [simp]:
  "u_manager sure_ui = sure_manager_env" "m_vault_env sure_manager_env = sure_vault" "u_cwd sure_ui = lit ''/''"
  by (simp_all add: sure_ui_def sure_manager_env_def demo_ui_def)

text \<open>The empty vault is the same file as in the other instance.\<close>

lemma sure_ls_open: "ls_open sure_vault demo_op (lit ''v'') [1] None demo_files = Inr demo_store"
proof -
  have f: "demo_files (lit ''v'') = Some (demo_bytes 0)" by (simp add: demo_files_def)
  have "vault_bytes sure_vault demo_op demo_store = Inr (demo_bytes 0)"
    by (simp add: vault_bytes_def sure_vault_def demo_vault_def entries_codec_def demo_store_def demo_crates_simps
        demo_bytes_def Let_def)
  moreover have "keyed sure_vault [1] None demo_store"
    using demo_keyed(1) by (simp add: keyed_def sure_vault_def)
  ultimately obtain st' where o: "ls_open sure_vault demo_op (lit ''v'') [1] None demo_files = Inr st'" "same_vault st' demo_store"
    using ls_open_vault_bytes [of sure_vault "[1]" None demo_store demo_op "demo_bytes 0" demo_files demo_op]
      sure_vault_ok(1) demo_bytes_small [of 0] f
    by (auto simp: demo_store_def entries_wf_def simp del: lit_simps)
  then have "st' = demo_store" by (cases st') (simp add: same_vault_def demo_store_def)
  with o(1) show ?thesis by simp
qed

lemma sure_open:
  "mg_open_vault sure_manager_env demo_op (lit ''v'') [1] None (mg, demo_files)
     = (Inr (), mg\<lparr>mg_vault := Some demo_store\<rparr>, demo_files)"
  by (simp add: mg_open_vault_def sure_ls_open del: lit_simps)

subsection \<open>Two programs on one file\<close>

lemma handle_put_ok:
  assumes "handle E c now (ReqPut tok n v) (ag, fs) = ((RespOk, b), ag', fs')"
  shows "mg_put_secret (a_manager_env E) c n v (ag_manager ag, fs) = (Inr (), ag_manager ag', fs')"
  using assms by (auto simp: handle_def split: if_splits sum.splits prod.splits)

lemma save_edited_ok:
  assumes "save_edited_value U W n v (ap, fs) = (Inr (), ap', fs')"
  shows "\<exists>mg'. mg_put_secret (u_manager U) (kw_op W) n v (ap_manager ap, fs) = (Inr (), mg', fs')"
  using assms by (auto simp: save_edited_value_def split: sum.splits prod.splits)

lemma shows_file_inv:
  assumes "shows_file U pw (ap, fs)"
  obtains st where "mg_vault (ap_manager ap) = Some st" "st_path st = ap_vault_path ap"
    "mg_inv (u_manager U) pw None (ap_manager ap, fs')"
  using assms that by (auto simp: shows_file_def mg_inv_def ls_inv_def)

text \<open>A put succeeds when nothing can fail.\<close>

lemma put_succeeds:
  assumes "mg_vault mg = Some st" "valid_name n" "value_key (v_crates (m_vault_env M)) (st_master_key st) = Inr vk"
    and "encrypt_aad (v_crates (m_vault_env M)) vk (value_nonce c) v (utf8 n) = Inr ct"
    and "st' = st\<lparr>st_entries := AList.update n \<lparr>entry_name = n, encrypted_value = ct\<rparr> (st_entries st)\<rparr>"
    and "vault_bytes (m_vault_env M) c st' = Inr bs" "no_faults c"
  shows "mg_put_secret M c n v (mg, fs)
    = (Inr (), mg\<lparr>mg_vault := Some st'\<rparr>, fs(st_path st \<mapsto> bs, tmp_path (st_path st) := None))"
proof -
  have "ls_save (m_vault_env M) c st' fs = (Inr (), fs(st_path st \<mapsto> bs, tmp_path (st_path st) := None))"
    using ls_save_ok [OF assms(7,6), of fs] assms(5) by simp
  moreover have "validate_secret_name n = Inr ()" using assms(2) by simp
  ultimately show ?thesis
    using assms(1,3-5) by (simp add: mg_put_secret_def ls_put_secret_def ls_set_def del: validate_secret_name_ok)
qed

text \<open>The interface and an agent on the empty vault, and a put of either.\<close>

definition sure_app :: app where
  "sure_app = (app_new Map.empty 0 (lit ''v'') demo_files)\<lparr>ap_mode := Browse,
     ap_manager := manager_new\<lparr>mg_vault := Some demo_store\<rparr>\<rparr>"

definition sure_agent :: agent where
  "sure_agent = agent_new (manager_new\<lparr>mg_vault := Some demo_store\<rparr>) demo_token (lit ''v'') DEFAULT_IDLE 0"

lemma sure_app_shows: "shows_file sure_ui [1] (sure_app, demo_files)"
proof -
  have "ls_names sure_vault demo_store = []" by (simp add: ls_names_def sure_vault_def demo_vault_def demo_store_def)
  moreover have "st_entries demo_store = []" by (simp add: demo_store_def)
  ultimately show ?thesis
    using reopens_opened [OF sure_ls_open] ls_open_keyed [OF sure_ls_open] sure_vault_ok(1)
    by (simp add: shows_file_def sure_app_def app_new_def ls_inv_def entries_wf_def del: lit_simps)
qed

lemma length_put_bytes [simp]: "length (put_bytes b) = Suc (2 * length b)"
  by (induction b) simp_all

lemma sure_put:
  assumes "mg_vault mg = Some demo_store" "n \<in> {lit ''j'', lit ''k''}"
  shows "\<exists>mg' bs. mg_put_secret sure_manager_env demo_op n [b] (mg, fs)
      = (Inr (), mg', fs(lit ''v'' \<mapsto> bs, tmp_path (lit ''v'') := None)) \<and> mg_is_unlocked mg' \<and> length bs \<le> MAX_VAULT_LEN"
proof -
  let ?st = "demo_store\<lparr>st_entries := AList.update n \<lparr>entry_name = n, encrypted_value = demo_value_key @ utf8 n @ [b]\<rparr>
      (st_entries demo_store)\<rparr>"
  let ?bs = "header_to_bytes demo_header @ demo_master @ header_to_bytes demo_header
      @ put_entries [\<lparr>entry_name = n, encrypted_value = demo_value_key @ utf8 n @ [b]\<rparr>]"
  have u: "length (utf8 n) = 1" "valid_name n"
    using assms(2) by (auto simp: valid_name_def MAX_NAME_LEN_def is_control_def ascii_def encode_utf8_ascii)
  have "vault_bytes sure_vault demo_op ?st = Inr ?bs"
    by (simp add: vault_bytes_def sure_vault_def demo_vault_def entries_codec_def demo_store_def demo_crates_simps
        demo_op_def Let_def)
  moreover have "value_key demo_crates demo_master = Inr demo_value_key"
    by (simp add: value_key_def demo_crates_simps demo_value_key_def)
  moreover have "length ?bs \<le> MAX_VAULT_LEN"
    using u(1) by (simp add: demo_master_def demo_header_def MAX_VAULT_LEN_def demo_value_key_def)
  ultimately show ?thesis
    using put_succeeds [of mg demo_store n sure_manager_env demo_value_key demo_op "[b]" "demo_value_key @ utf8 n @ [b]" ?st ?bs fs]
      assms(1) u(2)
    by (auto simp: sure_vault_def demo_vault_def demo_crates_simps mg_is_unlocked_def demo_store_def)
qed

subsection \<open>Properties\<close>

text \<open>C9. What the terminal interface shows is what the file holds: whatever keys are pressed, as long as
  the file system and the sealing do not fail, whenever the vault is unlocked the list shows, in order and
  once each, exactly the names that have a value, and opening the vault file anew with one of the
  passphrases that were entered gives at every name exactly the value the interface has (as long as the
  file is within the 32 MiB that \<open>open\<close> accepts, and is not the file that pairing codes are written to).\<close>

theorem tui_shows_the_file:
  assumes "env_good (m_vault_env (u_manager U))" "seals (m_vault_env (u_manager U))" "calm rounds"
    and "path \<noteq> path_join (u_cwd U) (lit ''pairing-code.txt'')"
    and "run_app U rounds (app_new vars start path fs, fs) = Some (quit, ap, fs')" "mg_is_unlocked (ap_manager ap)"
  shows "distinct (ap_names ap) \<and> sorted (ap_names ap)
    \<and> set (ap_names ap) = {n. mg_get_secret (u_manager U) (ap_manager ap) n \<noteq> Inr None}
    \<and> (\<exists>pw\<in>entered U rounds (app_new vars start path fs, fs). \<exists>bs. fs' path = Some bs
        \<and> (length bs \<le> MAX_VAULT_LEN \<longrightarrow> (\<forall>c mg. read_fault c = None \<longrightarrow>
             (\<exists>mg'. mg_open_vault (u_manager U) c path pw None (mg, fs') = (Inr (), mg', fs')
               \<and> (\<forall>n. mg_get_secret (u_manager U) mg' n = mg_get_secret (u_manager U) (ap_manager ap) n)))))"
proof -
  from run_app_agrees [OF assms(1,2,4) app_new_ok app_new_agrees assms(5,3)] assms(6)
  obtain pw where pw: "pw \<in> entered U rounds (app_new vars start path fs, fs)" "shows_file U pw (ap, fs')" "ap_vault_path ap = path"
    by (auto simp: agrees_def)
  show ?thesis using shows_file_contents [OF pw(2)] pw(1) by (auto simp: pw(3))
qed

theorem tui_shows_the_file_witness:
  "\<exists>ap. run_app sure_ui [(Some (demo_world, \<lparr>k_code = KChar (rchr 1), k_ctrl = False\<rparr>), 0),
      (Some (demo_world, \<lparr>k_code = KEnter, k_ctrl = False\<rparr>), 0)]
      (app_new Map.empty 0 (lit ''v'') demo_files, demo_files) = Some (False, ap, demo_files)
    \<and> mg_is_unlocked (ap_manager ap) \<and> set (ap_names ap) = {n. mg_get_secret sure_manager_env (ap_manager ap) n \<noteq> Inr None}"
proof -
  let ?W = demo_world and ?ap = "app_new Map.empty 0 (lit ''v'') demo_files"
  let ?rs = "[(Some (?W, \<lparr>k_code = KChar (rchr 1), k_ctrl = False\<rparr>), 0),
      (Some (?W, \<lparr>k_code = KEnter, k_ctrl = False\<rparr>), 0)]"
  have f: "demo_files (lit ''v'') \<noteq> None" by (simp add: demo_files_def)
  have utf: "utf8 [rchr 1] = [1]" by (simp add: encode_utf8_def scalar_def as_u8_def)
  obtain ap where run: "run_app sure_ui ?rs (?ap, demo_files) = Some (False, ap, demo_files)" "mg_is_unlocked (ap_manager ap)"
    using sure_open f
    by (simp add: app_new_def handle_key_def ui_step_def step_unlock_def try_unlock_def utf refresh_names_def mg_is_unlocked_def
        mg_secret_names_def maybe_autolock_def kc_def ascii_def del: lit_simps utf8_simps One_nat_def)
  have "calm ?rs" by (simp add: calm_def)
  moreover have "lit ''v'' \<noteq> path_join (u_cwd sure_ui) (lit ''pairing-code.txt'')" by (simp add: path_join_def ascii_def)
  ultimately show ?thesis
    using tui_shows_the_file [of sure_ui ?rs "lit ''v''" Map.empty 0 demo_files False ap demo_files] run sure_vault_ok
    by (simp del: lit_simps)
qed

text \<open>C35. Two programs on one file overwrite each other's updates: if an agent and the terminal interface
  have the same vault open and the agent acknowledges a put, the secret is in the file; when the interface
  then saves an edit of another secret, which succeeds as well, the file is rewritten from what the
  interface has in memory, and whoever opens it next does not find what the agent was given.\<close>

theorem tui_save_discards_agent_put:
  assumes "shows_file U pw (ap, fs)" "a_manager_env E = u_manager U" "mg_inv (u_manager U) pw None (ag_manager ag, fs)"
    and "mg_vault (ag_manager ag) = Some sta" "st_path sta = ap_vault_path ap"
    and "handle E c now (ReqPut tok n1 v1) (ag, fs) = ((RespOk, b), ag', fs1)"
    and "save_edited_value U W n2 v2 (ap, fs1) = (Inr (), ap', fs2)" "n1 \<noteq> n2"
    and "\<forall>bs. fs1 (ap_vault_path ap) = Some bs \<longrightarrow> length bs \<le> MAX_VAULT_LEN"
    and "\<forall>bs. fs2 (ap_vault_path ap) = Some bs \<longrightarrow> length bs \<le> MAX_VAULT_LEN" "read_fault c' = None"
  shows "(\<exists>mg1. mg_open_vault (u_manager U) c' (ap_vault_path ap) pw None (mg, fs1) = (Inr (), mg1, fs1)
      \<and> mg_get_secret (u_manager U) mg1 n1 = Inr (Some v1))
    \<and> (\<exists>mg2. mg_open_vault (u_manager U) c' (ap_vault_path ap) pw None (mg, fs2) = (Inr (), mg2, fs2)
      \<and> mg_get_secret (u_manager U) mg2 n1 = mg_get_secret (u_manager U) (ap_manager ap) n1
      \<and> mg_get_secret (u_manager U) mg2 n2 = Inr (Some v2))"
proof -
  obtain st where st: "mg_vault (ap_manager ap) = Some st" "st_path st = ap_vault_path ap"
      "mg_inv (u_manager U) pw None (ap_manager ap, fs1)"
    using assms(1) by (rule shows_file_inv)
  have put1: "mg_put_secret (u_manager U) c n1 v1 (ag_manager ag, fs) = (Inr (), ag_manager ag', fs1)"
    using handle_put_ok [OF assms(6)] assms(2) by simp
  obtain mg' where put2: "mg_put_secret (u_manager U) (kw_op W) n2 v2 (ap_manager ap, fs1) = (Inr (), mg', fs2)"
    using save_edited_ok [OF assms(7)] by blast
  show ?thesis
    using mg_put_durable [OF assms(3-5) put1 _ assms(11), of mg] assms(9)
      mg_put_durable [OF st(3,1,2) put2 _ assms(11), of mg] assms(10) assms(8) by auto
qed

theorem tui_save_discards_agent_put_witness:
  "\<exists>fs1 fs2 ag' ap' mg1 mg2.
     handle (demo_session_env\<lparr>a_manager_env := sure_manager_env\<rparr>) demo_op 0 (ReqPut demo_token (lit ''k'') [5])
       (sure_agent, demo_files) = ((RespOk, False), ag', fs1)
     \<and> mg_open_vault sure_manager_env demo_op (lit ''v'') [1] None (manager_new, fs1) = (Inr (), mg1, fs1)
     \<and> mg_get_secret sure_manager_env mg1 (lit ''k'') = Inr (Some [5])
     \<and> save_edited_value sure_ui demo_world (lit ''j'') [6] (sure_app, fs1) = (Inr (), ap', fs2)
     \<and> mg_open_vault sure_manager_env demo_op (lit ''v'') [1] None (manager_new, fs2) = (Inr (), mg2, fs2)
     \<and> mg_get_secret sure_manager_env mg2 (lit ''k'') = Inr None"
proof -
  let ?E = "demo_session_env\<lparr>a_manager_env := sure_manager_env\<rparr>" and ?j = "lit ''j''" and ?k = "lit ''k''" and ?v = "lit ''v''"
  have mg: "mg_vault (ag_manager sure_agent) = Some demo_store" "mg_vault (ap_manager sure_app) = Some demo_store"
    "st_path demo_store = ap_vault_path sure_app" "ap_vault_path sure_app = ?v"
    by (simp_all add: sure_agent_def sure_app_def agent_new_def app_new_def demo_store_def)
  obtain mgk bsk where k: "mg_put_secret sure_manager_env demo_op ?k [5] (ag_manager sure_agent, demo_files)
      = (Inr (), mgk, demo_files(?v \<mapsto> bsk, tmp_path ?v := None))" "length bsk \<le> MAX_VAULT_LEN"
    using sure_put [OF mg(1)] by (metis insertCI)
  let ?fs1 = "demo_files(?v \<mapsto> bsk, tmp_path ?v := None)"
  obtain mgj bsj where j: "mg_put_secret sure_manager_env demo_op ?j [6] (ap_manager sure_app, ?fs1)
      = (Inr (), mgj, ?fs1(?v \<mapsto> bsj, tmp_path ?v := None))" "mg_is_unlocked mgj" "length bsj \<le> MAX_VAULT_LEN"
    using sure_put [OF mg(2)] by (metis insertCI)
  let ?fs2 = "?fs1(?v \<mapsto> bsj, tmp_path ?v := None)"
  have "ag_token sure_agent = demo_token" by (simp add: sure_agent_def agent_new_def)
  then have ag: "handle ?E demo_op 0 (ReqPut demo_token ?k [5]) (sure_agent, demo_files)
      = ((RespOk, False), sure_agent\<lparr>ag_manager := mgk\<rparr>, ?fs1)"
    using k by (simp add: handle_def del: lit_simps fun_upd_apply)
  obtain ap' where ap: "save_edited_value sure_ui demo_world ?j [6] (sure_app, ?fs1) = (Inr (), ap', ?fs2)"
    using j(1,2) refresh_names_open [of sure_ui "sure_app\<lparr>ap_manager := mgj\<rparr>" _ _ sure_app "ap_selected sure_app"]
    by (fastforce simp: save_edited_value_def refresh_names_def mg_secret_names_def mg_is_unlocked_def simp del: lit_simps fun_upd_apply split: prod.splits)
  have inv: "mg_inv (u_manager sure_ui) [1] None (ag_manager sure_agent, demo_files)"
    using sure_app_shows mg(1,2) by (auto simp: shows_file_def mg_inv_def)
  have E: "a_manager_env ?E = u_manager sure_ui" by simp
  have small: "\<forall>bs. ?fs1 (ap_vault_path sure_app) = Some bs \<longrightarrow> length bs \<le> MAX_VAULT_LEN"
    "\<forall>bs. ?fs2 (ap_vault_path sure_app) = Some bs \<longrightarrow> length bs \<le> MAX_VAULT_LEN"
    using k(2) j(3) by (simp_all add: mg(4) del: lit_simps)
  have "mg_get_secret sure_manager_env (ap_manager sure_app) ?k = Inr None"
    by (simp add: mg_get_secret_def ls_get_secret_def ls_get_def mg(2) demo_store_def)
  moreover have "?k \<noteq> ?j" by (simp add: ascii_def)
  ultimately show ?thesis
    using tui_save_discards_agent_put [OF sure_app_shows E inv mg(1,3) ag ap _ small demo_op_simps(2), of manager_new] k(1) ag ap mg(4)
    by (simp del: lit_simps fun_upd_apply) blast
qed

end
