(* ===== verification/FirstUse.thy ===== *)
theory FirstUse
  imports Program TuiDisk
begin

text \<open>
  The program from its first use: \<open>init\<close>, \<open>signin\<close>, evaluating the line that it prints, any number of
  \<open>put\<close>s and a \<open>get\<close>, each a run of the whole program in the user's shell, with the agent that \<open>signin\<close>
  spawned at the other end of the socket.
\<close>

text \<open>Both ends are built with the same crates, and these behave as documented.\<close>

definition linked :: "agent_env \<Rightarrow> cli_env \<Rightarrow> bool" where
  "linked E C \<longleftrightarrow> env_good (m_vault_env (a_manager_env E)) \<and> b64_ok (cl_crates C)
     \<and> v_crates (m_vault_env (a_manager_env E)) = cl_crates C \<and> wire_ok E
     \<and> cl_req C = a_req E \<and> cl_resp C = a_resp E \<and> cl_room C = None"

text \<open>A run in a shell whose environment is that of \<open>C\<close>, and a child with the environment of the shell.\<close>

definition in_shell :: "agent_env \<Rightarrow> cli_env \<Rightarrow> process program_world \<Rightarrow> bool" where
  "in_shell E C G \<longleftrightarrow> cw_cli (gw_cli G) = C \<and> cw_manager (gw_cli G) = a_manager_env E
     \<and> (\<exists>c. cw_peer (gw_cli G) = agent_peer E c None)"

definition inherits :: "agent_world \<Rightarrow> agent_env \<Rightarrow> cli_env \<Rightarrow> bool" where
  "inherits A E C \<longleftrightarrow> aw_env A = E \<and> aw_vars A = cl_vars C \<and> aw_uid A = cl_uid C \<and> aw_binds A"

text \<open>Runs that all end with exit code 0.\<close>

fun succeed :: "('s program_world \<times> rstr list) list \<Rightarrow> 's program_state \<Rightarrow> 's program_state option" where
  "succeed [] st = Some st"
| "succeed ((G, args) # rest) st =
     (case run_program G args st of
        Some ((code, _), st') \<Rightarrow> if code = 0 then succeed rest st' else None
      | None \<Rightarrow> None)"

text \<open>
  The value that a user gives to a \<open>put\<close>: what is typed or piped to its standard input, less one line break at its end,
  when the command line has no value or \<open>-\<close> for it, else that value.
\<close>

inductive given :: "rstr option \<Rightarrow> (rstr + bytes) \<Rightarrow> bytes \<Rightarrow> bool" where
  argument: "x \<noteq> lit ''-'' \<Longrightarrow> given (Some x) stdin (utf8 x)"
| piped: "given None (Inr raw) (strip_newline raw)"
| dash: "given (Some (lit ''-'')) (Inr raw) (strip_newline raw)"

type_synonym put_run = "process program_world \<times> rstr list \<times> rstr \<times> bytes"

definition is_put :: "agent_env \<Rightarrow> cli_env \<Rightarrow> put_run \<Rightarrow> bool" where
  "is_put E C = (\<lambda>(G, args, n, v). in_shell E C G
     \<and> (\<exists>arg. gw_parse G args = Verb (PutValue n arg) \<and> given arg (cw_stdin (gw_cli G)) v))"

definition put_args :: "put_run list \<Rightarrow> (process program_world \<times> rstr list) list" where
  "put_args puts = map (\<lambda>(G, args, n, v). (G, args)) puts"

definition last_put :: "put_run list \<Rightarrow> rstr \<Rightarrow> bytes option" where
  "last_put puts = map_of (rev (map (\<lambda>(G, args, n, v). (n, v)) puts))"

lemma last_put_snoc: "last_put (puts @ [(G, args, n, v)]) k = (if k = n then Some v else last_put puts k)"
  by (simp add: last_put_def)

lemma succeed_append:
  "succeed (rs @ rs') st = (case succeed rs st of None \<Rightarrow> None | Some st' \<Rightarrow> succeed rs' st')"
  by (induction rs st rule: succeed.induct) (auto split: option.splits)

subsection \<open>One run\<close>

lemma run_verb_ok:
  "run_program G args st = Some ((0, out), st') \<Longrightarrow> gw_parse G args = Verb v
     \<Longrightarrow> run_verb (gw_cli G) v (gs_cli st) = Some (Inr out, gs_cli st')"
  by (auto simp: run_program_def run_cli_def) (metis (no_types, lifting) old.sum.exhaust old.sum.simps(5,6) Pair_inject zero_neq_one)

lemma init_creates:
  assumes "init_cmd C M c (Inr pw) confirm fs = (Inr out, fs')" "vault_path (cl_vars C) = Inr v"
  shows "\<exists>salt store. ls_create (m_vault_env M) c v (utf8 pw) salt default_argon2_params 0 None fs = (Inr store, fs')"
proof -
  obtain mg where "mg_create_vault M c v (utf8 pw) default_argon2_params 0 None (manager_new, fs) = (Inr (), mg, fs')"
    using assms by (cases confirm) (auto simp: init_cmd_def split: if_splits sum.splits prod.splits)
  then show ?thesis by (auto simp: mg_create_vault_def Let_def split: sum.splits prod.splits)
qed

lemma init_run:
  assumes "run_program G args st = Some ((0, out), st')" "gw_parse G args = Verb Init"
    and "in_shell E C G" "cw_pass (gw_cli G) = Inr pw" "vault_path (cl_vars C) = Inr v"
  shows "cs_out (gs_cli st') = cs_out (gs_cli st)"
    and "\<exists>c salt store. ls_create (m_vault_env (a_manager_env E)) c v (utf8 pw) salt default_argon2_params 0 None
          (cs_files (gs_cli st)) = (Inr store, cs_files (gs_cli st'))"
proof -
  let ?W = "gw_cli G"
  obtain fs' where i: "init_cmd C (a_manager_env E) (cw_op ?W) (Inr pw) (cw_confirm ?W) (cs_files (gs_cli st)) = (Inr out, fs')"
      "gs_cli st' = (gs_cli st)\<lparr>cs_files := fs'\<rparr>"
    using run_verb_ok [OF assms(1,2)] assms(3,4) by (auto simp: run_verb_def in_shell_def Let_def split: prod.splits)
  from i(2) init_creates [OF i(1) assms(5)] show "cs_out (gs_cli st') = cs_out (gs_cli st)"
    "\<exists>c salt store. ls_create (m_vault_env (a_manager_env E)) c v (utf8 pw) salt default_argon2_params 0 None
          (cs_files (gs_cli st)) = (Inr store, cs_files (gs_cli st'))"
    by auto
qed

lemma session_vars: "socket_path (vars(SESSION_VAR \<mapsto> t)) uid = socket_path vars uid"
proof -
  have "SESSION_VAR \<noteq> lit ''XDG_RUNTIME_DIR''" "SESSION_VAR \<noteq> lit ''TMPDIR''"
    by (simp_all add: SESSION_VAR_def ascii_def)
  then have "env_lookup (vars(SESSION_VAR \<mapsto> t)) (lit ''XDG_RUNTIME_DIR'') = env_lookup vars (lit ''XDG_RUNTIME_DIR'')"
    "env_lookup (vars(SESSION_VAR \<mapsto> t)) (lit ''TMPDIR'') = env_lookup vars (lit ''TMPDIR'')"
    by (simp_all add: env_lookup_def del: lit_simps)
  then show ?thesis by (simp add: socket_path_def resolve_socket_path_def del: lit_simps cong: option.case_cong)
qed

lemma signin_spawns:
  assumes "signin_cmd C P s fs (Inr pw) child = (Inr out, started)" "vault_path (cl_vars C) = Inr v"
  shows "\<exists>printed. child (handshake v pw) = (printed, started) \<and> read_ready (first_line printed) = Inr out"
  using assms by (auto simp: signin_cmd_def split: if_splits prod.splits)

text \<open>The parent does not take an error of its child for success.\<close>

lemma trim_end_prefix: "\<exists>r. s = trim_end s @ r"
proof -
  have "rev s = takeWhile is_whitespace (rev s) @ dropWhile is_whitespace (rev s)" by simp
  then have "s = trim_end s @ rev (takeWhile is_whitespace (rev s))" unfolding trim_end_def by (metis rev_append rev_rev_ident)
  then show ?thesis by blast
qed

lemma err_not_ready: "read_ready (first_line (fail_handshake msg)) \<noteq> Inr out"
proof
  let ?e = "ascii CHR ''E''" and ?l = "first_line (fail_handshake msg)"
  assume "read_ready ?l = Inr out"
  then obtain tok where l: "trim_end ?l = lit ''READY '' @ tok"
    by (auto simp: read_ready_def Let_def strip_prefix_Some_iff simp del: lit_simps split: option.splits)
  obtain rest where f: "fail_handshake msg = ?e # rest" by (simp add: fail_handshake_def)
  have "?e \<noteq> rchr 10" by (simp add: ascii_def)
  then obtain x where "?l = ?e # x" 
    using f by (cases "split_once (rchr 10) rest") (auto simp: first_line_def split: prod.splits)
  moreover obtain r where "?l = trim_end ?l @ r" using trim_end_prefix by blast
  ultimately have "?e = ascii CHR ''R''" using l by simp
  then show False by (simp add: ascii_def)
qed

lemma run_agent_fails: "run_agent E c input sock now s = (printed, None) \<Longrightarrow> \<exists>msg. printed = fail_handshake msg"
  by (cases s) (auto simp: run_agent_def Let_def simp del: lit_simps split: sum.splits prod.splits if_splits)

lemma run_agent_socket: "run_agent E c input sock now s = (printed, Some ag) \<Longrightarrow> \<exists>u. sock = Inr u"
  by (cases s) (auto simp: run_agent_def Let_def simp del: lit_simps split: sum.splits prod.splits if_splits)

lemma spawned_serves:
  assumes "spawned A fs (handshake v pw) = (printed, started)" "read_ready (first_line printed) = Inr out"
    and "line_safe v" "line_safe pw" "b64_ok (v_crates (m_vault_env (a_manager_env (aw_env A))))"
  obtains ag mg1 where "started = Some ((process_start ag fs (aw_now A))\<lparr>pr_running := aw_binds A\<rparr>)"
    and "mg_open_vault (a_manager_env (aw_env A)) (aw_op A) v (utf8 pw) None (manager_new, fs) = (Inr (), mg1, fs)"
    and "mg_vault (ag_manager ag) = mg_vault mg1" "length (ag_token ag) = 32" "is_ok (socket_path (aw_vars A) (aw_uid A))"
    and "out = [lit ''export '' @ SESSION_VAR @ lit ''=''
      @ b64_encode_nopad (v_crates (m_vault_env (a_manager_env (aw_env A)))) (ag_token ag)]"
proof -
  let ?sock = "map_ok (\<lambda>_. ()) (agent_socket A)"
  obtain st where r: "run_agent (aw_env A) (aw_op A) (handshake v pw) ?sock (aw_now A) (manager_new, fs) = (printed, st)"
      "started = map_option (\<lambda>ag. (process_start ag fs (aw_now A))\<lparr>pr_running := aw_binds A\<rparr>) st"
    using assms(1) by (auto simp: spawned_def split: prod.splits)
  have "st \<noteq> None" using r(1) assms(2) err_not_ready by (cases st) (auto dest!: run_agent_fails)
  then obtain ag where ag: "st = Some ag" by blast
  obtain mg1 where mg1: "mg_open_vault (a_manager_env (aw_env A)) (aw_op A) v (utf8 pw) None (manager_new, fs) = (Inr (), mg1, fs)"
      "ag_manager ag = mg1\<lparr>mg_calls := Suc (mg_calls mg1)\<rparr>" "length (ag_token ag) = 32"
      "printed = lit ''READY '' @ b64_encode_nopad (v_crates (m_vault_env (a_manager_env (aw_env A)))) (ag_token ag) @ [rchr 10]"
    using run_agent_ready [OF r(1) [unfolded ag] assms(3,4)] by metis
  have "ag_token ag \<noteq> []" using mg1(3) by auto
  note out = read_ready_token [OF assms(5) this]
  obtain sock where "agent_socket A = Inr sock"
    using run_agent_socket [OF r(1) [unfolded ag]] by (auto simp: map_ok_def split: sum.splits)
  then have "is_ok (socket_path (aw_vars A) (aw_uid A))" by (auto simp: agent_socket_def dest: bind_socket_gives)
  then show thesis using that r(2) ag mg1 out assms(2) by (simp del: lit_simps)
qed

lemma signin_run:
  assumes "run_program G args st = Some ((0, [lit ''export '' @ SESSION_VAR @ lit ''='' @ t]), st')"
    and "gw_parse G args = Verb Signin" "in_shell E C G" "cw_pass (gw_cli G) = Inr pw"
    and "cw_child (gw_cli G) = spawned A" "inherits A E C" "linked E C"
    and "vault_path (cl_vars C) = Inr v" "line_safe v" "line_safe pw"
  shows "cs_out (gs_cli st') = cs_out (gs_cli st)"
    and "cli_inv (C\<lparr>cl_vars := (cl_vars C)(SESSION_VAR \<mapsto> t)\<rparr>) E (utf8 pw) (cs_peer (gs_cli st'))"
    and "\<exists>c store. ls_open (m_vault_env (a_manager_env E)) c v (utf8 pw) None (cs_files (gs_cli st)) = Inr store
          \<and> mg_vault (ag_manager (pr_agent (cs_peer (gs_cli st')))) = Some store"
proof -
  let ?W = "gw_cli G" and ?fs = "cs_files (gs_cli st)" and ?C = "C\<lparr>cl_vars := (cl_vars C)(SESSION_VAR \<mapsto> t)\<rparr>"
  let ?line = "lit ''export '' @ SESSION_VAR @ lit ''='' @ t"
  have A: "aw_env A = E" "aw_vars A = cl_vars C" "aw_uid A = cl_uid C" "aw_binds A"
    using assms(6) by (simp_all add: inherits_def)
  have L: "env_good (m_vault_env (a_manager_env E))" "b64_ok (cl_crates C)"
    "v_crates (m_vault_env (a_manager_env E)) = cl_crates C" "wire_ok E" "cl_req C = a_req E" "cl_resp C = a_resp E" "cl_room C = None"
    using assms(7) by (simp_all add: linked_def)
  obtain started where s: "signin_cmd C (cw_peer ?W) (cs_peer (gs_cli st)) ?fs (Inr pw) (spawned A ?fs) = (Inr [?line], started)"
      "gs_cli st' = (gs_cli st)\<lparr>cs_peer := (case started of Some p \<Rightarrow> p | None \<Rightarrow> cs_peer (gs_cli st))\<rparr>"
    using run_verb_ok [OF assms(1,2)] assms(3-5)
    by (auto simp: run_verb_def in_shell_def Let_def simp del: lit_simps split: prod.splits)
  obtain printed where p: "spawned A ?fs (handshake v pw) = (printed, started)" "read_ready (first_line printed) = Inr [?line]"
    using signin_spawns [OF s(1) assms(8)] by blast
  obtain ag mg1 where ag: "started = Some ((process_start ag ?fs (aw_now A))\<lparr>pr_running := aw_binds A\<rparr>)"
    "mg_open_vault (a_manager_env E) (aw_op A) v (utf8 pw) None (manager_new, ?fs) = (Inr (), mg1, ?fs)"
    "mg_vault (ag_manager ag) = mg_vault mg1" "length (ag_token ag) = 32" "is_ok (socket_path (cl_vars C) (cl_uid C))"
    "t = b64_encode_nopad (cl_crates C) (ag_token ag)"
    using spawned_serves [OF p assms(9,10)] L(2,3) by (auto simp: A simp del: lit_simps)
  have peer: "cs_peer (gs_cli st') = (process_start ag ?fs (aw_now A))\<lparr>pr_running := True\<rparr>" using s(2) ag(1) A(4) by simp
  show "cs_out (gs_cli st') = cs_out (gs_cli st)" using s(2) by simp
  have "ag_token ag \<noteq> []" using ag(4) by auto
  then have tok: "session_token ?C = Inr (ag_token ag)" using session_token_set [OF L(2)] ag(6) by simp
  then have "session_ok ?C E (cs_peer (gs_cli st'))"
    using L ag(5) by (simp add: session_ok_def peer process_start_def clock_touch_def session_vars)
  moreover obtain store where store: "mg_vault mg1 = Some store" "mg_inv (a_manager_env E) (utf8 pw) None (mg1, ?fs)"
    using open_inv [OF ag(2) L(1)] by blast
  ultimately show "cli_inv ?C E (utf8 pw) (cs_peer (gs_cli st'))"
    using ag(3) by (simp add: cli_inv_def mg_inv_def peer process_start_def clock_touch_def)
  show "\<exists>c store. ls_open (m_vault_env (a_manager_env E)) c v (utf8 pw) None ?fs = Inr store
          \<and> mg_vault (ag_manager (pr_agent (cs_peer (gs_cli st')))) = Some store"
    using ag(2,3) by (auto simp: peer process_start_def clock_touch_def mg_open_vault_def split: sum.splits)
qed

subsection \<open>Any number of puts\<close>

text \<open>A successful \<open>put\<close> with the standard input \<open>stdin\<close> stores what it was given, and none stores anything else.\<close>

lemma put_cmd_stores:
  assumes "put_cmd C P stdin n arg s = (Inr (), q)"
  shows "given arg stdin v \<Longrightarrow> store_secret C P n v s = (Inr (), q)"
    and "\<exists>v. given arg stdin v"
proof -
  have "given arg stdin v \<longrightarrow> store_secret C P n v s = (Inr (), q)"
    using assms by (auto simp: put_cmd_def map_ok_def map_err_def elim!: given.cases simp del: lit_simps)
  then show "given arg stdin v \<Longrightarrow> store_secret C P n v s = (Inr (), q)" by blast
  show "\<exists>v. given arg stdin v"
    using assms by (auto simp: put_cmd_def map_ok_def map_err_def intro: given.intros simp del: lit_simps
        split: option.splits sum.splits if_splits)
qed

lemma put_run:
  assumes "is_put E C (G, args, n, v)" "run_program G args st = Some ((0, out), st')"
    and "cli_inv C E pw (cs_peer (gs_cli st))"
  shows "cs_out (gs_cli st') = cs_out (gs_cli st)" "cli_inv C E pw (cs_peer (gs_cli st'))"
    and "cli_view C (agent_peer E demo_op None) (cs_peer (gs_cli st')) k
      = (if k = n then Inr (Some v) else cli_view C (agent_peer E demo_op None) (cs_peer (gs_cli st)) k)"
proof -
  obtain arg where g: "cw_cli (gw_cli G) = C" "gw_parse G args = Verb (PutValue n arg)"
    "given arg (cw_stdin (gw_cli G)) v"
    using assms(1) by (auto simp: is_put_def in_shell_def)
  obtain c where c: "cw_peer (gw_cli G) = agent_peer E c None" using assms(1) by (auto simp: is_put_def in_shell_def)
  obtain q where pc: "put_cmd C (agent_peer E c None) (cw_stdin (gw_cli G)) n arg (cs_peer (gs_cli st)) = (Inr (), q)"
      and st': "gs_cli st' = (gs_cli st)\<lparr>cs_peer := q\<rparr>"
    using run_verb_ok [OF assms(2) g(2)] g(1) c
    by (auto simp: run_verb_def Let_def map_ok_def simp del: lit_simps split: prod.splits sum.splits)
  note q = put_cmd_stores(1) [OF pc g(3)]
  show "cs_out (gs_cli st') = cs_out (gs_cli st)" using st' by simp
  show "cli_inv C E pw (cs_peer (gs_cli st'))" using cli.put_inv [OF assms(3) q] st' by simp
  show "cli_view C (agent_peer E demo_op None) (cs_peer (gs_cli st')) k
      = (if k = n then Inr (Some v) else cli_view C (agent_peer E demo_op None) (cs_peer (gs_cli st)) k)"
    using cli.put_get [OF assms(3) q, of k] st' by simp
qed

lemma put_runs:
  assumes "\<forall>r\<in>set puts. is_put E C r" "succeed (put_args puts) st = Some st'" "cli_inv C E pw (cs_peer (gs_cli st))"
  shows "cs_out (gs_cli st') = cs_out (gs_cli st) \<and> cli_inv C E pw (cs_peer (gs_cli st'))
    \<and> (\<forall>k. cli_view C (agent_peer E demo_op None) (cs_peer (gs_cli st')) k
      = (case last_put puts k of Some v \<Rightarrow> Inr (Some v)
         | None \<Rightarrow> cli_view C (agent_peer E demo_op None) (cs_peer (gs_cli st)) k))"
  using assms(1,2)
proof (induction puts arbitrary: st' rule: rev_induct)
  case Nil
  with assms(3) show ?case by (simp add: put_args_def last_put_def)
next
  case (snoc r puts)
  obtain G args n v where r: "r = (G, args, n, v)" by (cases r)
  obtain st1 where 1: "succeed (put_args puts) st = Some st1"
    using snoc.prems(2) by (auto simp: put_args_def succeed_append split: option.splits)
  then obtain out where 2: "run_program G args st1 = Some ((0, out), st')"
    using snoc.prems(2) r by (auto simp: put_args_def succeed_append split: option.splits if_splits)
  have IH: "cs_out (gs_cli st1) = cs_out (gs_cli st)" "cli_inv C E pw (cs_peer (gs_cli st1))"
    "\<And>k. cli_view C (agent_peer E demo_op None) (cs_peer (gs_cli st1)) k
      = (case last_put puts k of Some v \<Rightarrow> Inr (Some v)
         | None \<Rightarrow> cli_view C (agent_peer E demo_op None) (cs_peer (gs_cli st)) k)"
    using snoc.IH [OF _ 1] snoc.prems(1) by auto
  have "is_put E C (G, args, n, v)" using snoc.prems(1) r by simp
  note put = put_run [OF this 2 IH(2)]
  show ?case using put IH by (simp add: r last_put_snoc)
qed

subsection \<open>The get\<close>

lemma fetch_absent:
  assumes s: "session_ok C E p" and g: "mg_get_secret (a_manager_env E) (ag_manager (pr_agent p)) n = Inr None"
  shows "\<exists>e. fst (fetch_secret C (agent_peer E c None) n p) = Inl e"
proof (cases "fits (a_req E) (ReqGet (ag_token (pr_agent p)) n)")
  case False
  then show ?thesis
    using s request_unfit [OF s False, of c] by (auto simp: fetch_secret_def with_session_def session_ok_def)
next
  case True
  let ?ag = "clock_touch (pr_now p) (pr_agent p)"
  have h: "handle E c (pr_now p) (ReqGet (ag_token (pr_agent p)) n) (?ag, pr_fs p)
      = ((RespSecret None, False), ?ag, pr_fs p)"
    using g by (subst handle_get) (simp_all add: clock_touch_def)
  obtain r w where w: "write_msg (a_resp E) (RespSecret None) (fresh_writer None) = (r, w)" by force
  have "fst (read_msg (a_resp E) (w_out w)) = Inr (RespSecret None) \<or> (\<exists>e. fst (read_msg (a_resp E) (w_out w)) = Inl e)"
    using s read_written [of "a_resp E" "RespSecret None" None w] write_failed_read [of "a_resp E" "RespSecret None" None _ w "a_resp E"] w
    by (cases r) (auto simp: session_ok_def wire_ok_def)
  with request_agent [OF s True h] w s show ?thesis
    by (auto simp: fetch_secret_def with_session_def session_ok_def)
qed

lemma get_run:
  assumes "in_shell E C G" "gw_parse G args = Verb (Get k)" "cs_out (gs_cli st) = fresh_writer None"
  shows "\<exists>st' c. run_program G args st
      = Some ((case fst (fetch_secret C (agent_peer E c None) k (cs_peer (gs_cli st))) of Inr _ \<Rightarrow> 0 | Inl _ \<Rightarrow> 1, []), st')
    \<and> w_out (cs_out (gs_cli st'))
      = (case fst (fetch_secret C (agent_peer E c None) k (cs_peer (gs_cli st))) of Inr v \<Rightarrow> v @ [10] | Inl _ \<Rightarrow> [])"
proof -
  obtain c where c: "cw_peer (gw_cli G) = agent_peer E c None" using assms(1) by (auto simp: in_shell_def)
  obtain r q where f: "fetch_secret C (agent_peer E c None) k (cs_peer (gs_cli st)) = (r, q)" by force
  show ?thesis
    using assms f c
    by (intro exI [of _ "st\<lparr>gs_cli := (gs_cli st)\<lparr>cs_peer := q,
          cs_out := (case r of Inr v \<Rightarrow> \<lparr>w_out = v @ [10], w_room = None\<rparr> | Inl _ \<Rightarrow> fresh_writer None)\<rparr>\<rparr>"] exI [of _ c])
      (auto simp: run_program_def run_cli_def run_verb_def get_cmd_def in_shell_def write_all_def fresh_writer_def
        map_ok_def Let_def split: sum.splits)
qed

lemma view_fetch:
  assumes "cli_inv C E pw p"
  shows "fst (fetch_secret C (agent_peer E c None) k p) = Inr v \<longleftrightarrow> cli_view C (agent_peer E demo_op None) p k = Inr (Some v)"
  using assms fetch_cong [of C E p p k c demo_op]
  by (auto simp: cli_view_def cli_inv_def split: sum.splits if_splits)

subsection \<open>An instance\<close>

definition use_env :: agent_env where
  "use_env = demo_session_env\<lparr>a_manager_env := sure_manager_env\<rparr>"

definition use_agent :: agent_world where
  "use_agent = \<lparr>aw_env = use_env, aw_op = demo_op, aw_stdin = Inr [], aw_vars = cl_vars demo_cli, aw_uid = cl_uid demo_cli,
     aw_mkdir = (\<lambda>_. Inr ()), aw_chmod = (\<lambda>_. Inr ()), aw_alive = (\<lambda>_. False), aw_binds = True, aw_now = 0, aw_conns = []\<rparr>"

definition use_verb :: "rstr list \<Rightarrow> parsed" where
  "use_verb args =
     (if args = [lit ''init''] then Verb Init else if args = [lit ''signin''] then Verb Signin
      else if args = [lit ''put''] then Verb (PutValue (lit ''k'') None) else Verb (Get (lit ''k'')))"

definition use_world :: "process program_world" where
  "use_world = \<lparr>gw_parse = use_verb,
     gw_cli = demo_cli_world\<lparr>cw_manager := sure_manager_env, cw_peer := agent_peer use_env demo_op None,
       cw_pass := Inr [rchr 1], cw_confirm := Inr [rchr 1], cw_stdin := Inr [5, 10], cw_child := spawned use_agent\<rparr>,
     gw_ui = demo_ui, gw_screen = \<lparr>si_raw_on = Inr (), si_enter = Inr (), si_terminal = Inr (), si_raw_off = Inr (),
       si_leave = Inr (), si_cursor = Inr ()\<rparr>, gw_start = 0, gw_ticks = [], gw_agent = use_agent\<rparr>"

definition use_start :: "process program_state" where
  "use_start = \<lparr>gs_cli = demo_cli_state\<lparr>cs_peer := demo_session\<lparr>pr_running := False\<rparr>\<rparr>,
     gs_screen = \<lparr>sc_raw = False, sc_alternate = False\<rparr>\<rparr>"

lemma use_simps [simp]:
  "a_manager_env use_env = sure_manager_env" "cw_cli (gw_cli use_world) = demo_cli"
  "cw_peer (gw_cli use_world) = agent_peer use_env demo_op None" "cw_manager (gw_cli use_world) = sure_manager_env"
  "cw_pass (gw_cli use_world) = Inr [rchr 1]" "cw_confirm (gw_cli use_world) = Inr [rchr 1]" "cw_op (gw_cli use_world) = demo_op"
  "cw_stdin (gw_cli use_world) = Inr [5, 10]"
  "cw_child (gw_cli use_world) = spawned use_agent" "gw_parse use_world = use_verb"
  "a_req use_env = a_req demo_session_env" "a_resp use_env = a_resp demo_session_env"
  "cs_files (gs_cli use_start) = Map.empty" "cs_out (gs_cli use_start) = fresh_writer None"
  "cs_peer (gs_cli use_start) = demo_session\<lparr>pr_running := False\<rparr>"
  by (simp_all add: use_env_def use_world_def use_start_def demo_cli_world_def demo_cli_state_def)

lemma use_parse:
  "use_verb [lit ''init''] = Verb Init" "use_verb [lit ''signin''] = Verb Signin"
  "use_verb [lit ''put''] = Verb (PutValue (lit ''k'') None)" "use_verb [lit ''get''] = Verb (Get (lit ''k''))"
  by (simp_all add: use_verb_def ascii_def)

lemma use_crates:
  "v_crates sure_vault = demo_crates" "cl_crates demo_cli = demo_crates" "cl_room demo_cli = None"
  "cl_req demo_cli = a_req demo_session_env" "cl_resp demo_cli = a_resp demo_session_env"
  "b64_encode_nopad demo_crates = demo_b64_encode" "m_vault_env sure_manager_env = sure_vault"
  "vault_path (cl_vars demo_cli) = Inr (lit ''v'')" "random_bytes sure_manager_env j 32 = Inr demo_token"
  by (simp_all add: sure_vault_def demo_vault_def demo_cli_def demo_crates_simps vault_path_def resolve_vault_path_def
      env_lookup_def SESSION_VAR_def random_bytes_def sure_manager_env_def demo_manager_env_def demo_token_def)

lemma use_laws: "linked use_env demo_cli" "inherits use_agent use_env demo_cli" "in_shell use_env demo_cli use_world"
  using sure_vault_ok(1) demo_crates_ok demo_wire
  by (auto simp: linked_def inherits_def in_shell_def use_agent_def use_crates wire_ok_def)

lemma use_shell: "demo_cli\<lparr>cl_vars := (cl_vars demo_cli)(SESSION_VAR \<mapsto> demo_b64_encode demo_token)\<rparr> = demo_cli"
  by (simp add: demo_cli_def)

definition use_store :: local_store where
  "use_store = demo_store\<lparr>st_header := \<lparr>h_salt = demo_token, h_params = default_argon2_params, h_vdf_iterations = 0\<rparr>\<rparr>"

lemma use_created:
  "\<exists>fs bs. ls_create sure_vault demo_op (lit ''v'') [1] demo_token default_argon2_params 0 None Map.empty = (Inr use_store, fs)
    \<and> fs (lit ''v'') = Some bs \<and> length bs \<le> MAX_VAULT_LEN"
proof -
  let ?h = "header_to_bytes (st_header use_store)"
  have vb: "vault_bytes sure_vault demo_op use_store = Inr (?h @ demo_master @ ?h @ [0])"
    by (simp add: vault_bytes_def sure_vault_def demo_vault_def entries_codec_def use_store_def demo_store_def
        demo_crates_simps Let_def)
  have "validate_kdf_params default_argon2_params 0 = Inr ()"
    by (simp add: default_argon2_params_def validate_kdf_params_def MAX_VDF_ITERATIONS_def)
  moreover have "derive_key demo_crates [1] demo_token default_argon2_params 0 None = Inr demo_master"
    by (simp add: derive_key_def demo_crates_simps demo_master_def demo_token_def)
  moreover have "\<lparr>st_path = lit ''v'', st_master_key = demo_master,
      st_header = \<lparr>h_salt = demo_token, h_params = default_argon2_params, h_vdf_iterations = 0\<rparr>, st_entries = []\<rparr> = use_store"
    by (simp add: use_store_def demo_store_def)
  moreover have "st_path use_store = lit ''v''" by (simp add: use_store_def demo_store_def)
  moreover have "length (?h @ demo_master @ ?h @ [0]) \<le> MAX_VAULT_LEN"
    by (simp add: use_store_def demo_store_def demo_master_def demo_token_def MAX_VAULT_LEN_def)
  ultimately show ?thesis
    using ls_save_ok [OF _ vb, of "[lit ''v'' \<mapsto> []]"]
    by (simp add: ls_create_def SALT_LEN_def demo_token_def use_crates Let_def del: lit_simps)
qed

lemma use_dirs:
  "(case path_parent p of None \<Rightarrow> Inr () | Some d \<Rightarrow> ensure_private_dir (\<lambda>_. Inr ()) (\<lambda>_. Inr ()) d) = Inr ()"
  "(case path_parent p of None \<Rightarrow> Inr () | Some d \<Rightarrow> ensure_private_dir (cl_mkdir demo_cli) (cl_chmod demo_cli) d) = Inr ()"
  by (simp_all add: ensure_private_dir_def map_err_def demo_cli_def split: option.splits)

lemma use_init:
  "\<exists>st out fs bs. run_program use_world [lit ''init''] use_start = Some ((0, out), st)
    \<and> gs_cli st = (gs_cli use_start)\<lparr>cs_files := fs\<rparr> \<and> fs (lit ''v'') = Some bs \<and> length bs \<le> MAX_VAULT_LEN
    \<and> ls_open sure_vault demo_op (lit ''v'') [1] None fs = Inr use_store"
proof -
  obtain fs bs where c: "ls_create sure_vault demo_op (lit ''v'') [1] demo_token default_argon2_params 0 None Map.empty = (Inr use_store, fs)"
    "fs (lit ''v'') = Some bs" "length bs \<le> MAX_VAULT_LEN"
    using use_created by blast
  obtain st' where o: "ls_open sure_vault demo_op (lit ''v'') [1] None fs = Inr st'" "same_vault st' use_store"
    using created_opens(3) [OF sure_vault_ok(1) c demo_op_simps(2)] by blast
  then have "st' = use_store" by (cases st') (simp add: same_vault_def use_store_def demo_store_def)
  with o have o: "ls_open sure_vault demo_op (lit ''v'') [1] None fs = Inr use_store" by simp
  have "utf8 [rchr 1] = [1]" by (simp add: encode_utf8_ascii as_u8_def)
  then have "mg_create_vault sure_manager_env demo_op (lit ''v'') (utf8 [rchr 1]) default_argon2_params 0 None (manager_new, Map.empty)
      = (Inr (), manager_new\<lparr>mg_calls := 1, mg_vault := Some use_store\<rparr>, fs)"
    using c(1) by (simp add: mg_create_vault_def use_crates manager_new_def del: lit_simps utf8_simps)
  then obtain out where "init_cmd demo_cli sure_manager_env demo_op (Inr [rchr 1]) (Inr [rchr 1]) Map.empty = (Inr out, fs)"
    by (simp add: init_cmd_def use_crates use_dirs del: lit_simps utf8_simps One_nat_def)
  then show ?thesis
    using c(2,3) o
    by (intro exI [of _ "use_start\<lparr>gs_cli := (gs_cli use_start)\<lparr>cs_files := fs\<rparr>\<rparr>"] exI [of _ out] exI [of _ fs] exI [of _ bs])
      (simp add: run_program_def run_cli_def run_verb_def use_parse Let_def del: lit_simps One_nat_def)
qed

definition use_process :: "fs \<Rightarrow> process" where
  "use_process fs = process_start (agent_new (manager_new\<lparr>mg_vault := Some use_store, mg_calls := 1\<rparr>) demo_token (lit ''v'')
     DEFAULT_IDLE 0) fs 0"

lemma use_signin:
  assumes "gs_cli st = (gs_cli use_start)\<lparr>cs_files := fs\<rparr>" "fs (lit ''v'') = Some bs"
    and "ls_open sure_vault demo_op (lit ''v'') [1] None fs = Inr use_store"
  shows "\<exists>st'. run_program use_world [lit ''signin''] st
      = Some ((0, [lit ''export '' @ SESSION_VAR @ lit ''='' @ demo_b64_encode demo_token]), st')
    \<and> cs_peer (gs_cli st') = use_process fs"
proof -
  have safe: "line_safe (lit ''v'')" "line_safe [rchr 1]" "utf8 [rchr 1] = [1]" "lit ''v'' \<noteq> []"
    by (simp_all add: line_safe_def ascii_def encode_utf8_ascii as_u8_def)
  have "mg_open_vault sure_manager_env demo_op (lit ''v'') (utf8 [rchr 1]) None (manager_new, fs)
      = (Inr (), manager_new\<lparr>mg_vault := Some use_store\<rparr>, fs)"
    using assms(3) safe(3) by (simp add: mg_open_vault_def use_crates del: lit_simps utf8_simps)
  note run = run_agent_starts [of use_env demo_op "lit ''v''" "[rchr 1]" manager_new fs _ demo_token 0, simplified use_simps,
      OF this use_crates(9) safe(1,2,4)]
  have "is_ok (socket_path (cl_vars demo_cli) (cl_uid demo_cli))" using demo_socket by (simp add: demo_cli_def)
  then obtain sock where "agent_socket use_agent = Inr sock"
    by (auto simp: agent_socket_def use_agent_def bind_socket_def use_dirs is_ok_def split: sum.splits)
  then have sp: "spawned use_agent fs (handshake (lit ''v'') [rchr 1])
      = (lit ''READY '' @ demo_b64_encode demo_token @ [rchr 10], Some (use_process fs))"
    using run by (simp add: spawned_def use_agent_def use_crates use_process_def manager_new_def map_ok_def process_start_def
        del: lit_simps)
  have nc: "\<not> is_ok (connect demo_cli (agent_peer use_env demo_op None) (demo_session\<lparr>pr_running := False\<rparr>))"
    by (cases "socket_path (cl_vars demo_cli) (cl_uid demo_cli)") (simp_all add: connect_def)
  have "demo_token \<noteq> []" by (simp add: demo_token_def)
  from read_ready_token [OF demo_crates_ok(6) this]
  have "signin_cmd demo_cli (agent_peer use_env demo_op None) (demo_session\<lparr>pr_running := False\<rparr>) fs (Inr [rchr 1]) (spawned use_agent fs)
      = (Inr [lit ''export '' @ SESSION_VAR @ lit ''='' @ demo_b64_encode demo_token], Some (use_process fs))"
    using nc sp assms(2) by (simp add: signin_cmd_def use_crates del: lit_simps)
  then show ?thesis
    using assms(1) by (simp add: run_program_def run_cli_def run_verb_def use_parse Let_def del: lit_simps)
qed

lemma use_stores:
  assumes "session_ok C E (use_process fs)" "a_manager_env E = sure_manager_env"
    and "fits (a_req E) (ReqPut demo_token (lit ''k'') v)" "fits (a_resp E) RespOk"
  shows "\<exists>q. store_secret C (agent_peer E demo_op None) (lit ''k'') v (use_process fs) = (Inr (), q)"
proof -
  let ?p = "use_process fs" and ?n = "lit ''k''" and ?v = "lit ''v''"
  let ?ag = "clock_touch (pr_now ?p) (pr_agent ?p)"
  let ?entry = "\<lparr>entry_name = ?n, encrypted_value = demo_value_key @ utf8 ?n @ v\<rparr>"
  let ?st = "use_store\<lparr>st_entries := AList.update ?n ?entry (st_entries use_store)\<rparr>"
  note s = assms(1)
  obtain bs where vb: "vault_bytes sure_vault demo_op ?st = Inr bs"
    by (simp add: vault_bytes_def sure_vault_def demo_vault_def entries_codec_def use_store_def demo_store_def demo_crates_simps Let_def)
  have vk: "value_key demo_crates demo_master = Inr demo_value_key"
    by (simp add: value_key_def demo_crates_simps demo_value_key_def)
  have put: "mg_put_secret sure_manager_env demo_op ?n v (ag_manager ?ag, pr_fs ?p)
      = (Inr (), (ag_manager ?ag)\<lparr>mg_vault := Some ?st\<rparr>, (pr_fs ?p)(?v \<mapsto> bs, tmp_path ?v := None))"
    using put_succeeds [of "ag_manager ?ag" use_store ?n sure_manager_env demo_value_key demo_op v "demo_value_key @ utf8 ?n @ v" ?st bs
        "pr_fs ?p"] vb vk demo_valid
    by (simp add: use_process_def process_start_def clock_touch_def agent_new_def manager_new_def use_crates use_store_def
        demo_store_def demo_crates_simps del: lit_simps)
  have tok: "ag_token ?ag = demo_token" "ag_token (pr_agent ?p) = demo_token"
    by (simp_all add: use_process_def process_start_def clock_touch_def agent_new_def)
  have h: "handle E demo_op (pr_now ?p) (ReqPut demo_token ?n v) (?ag, pr_fs ?p)
      = ((RespOk, False), ?ag\<lparr>ag_manager := (ag_manager ?ag)\<lparr>mg_vault := Some ?st\<rparr>\<rparr>, (pr_fs ?p)(?v \<mapsto> bs, tmp_path ?v := None))"
    using handle_put [OF tok(1), of E demo_op ?n v "pr_fs ?p"] put assms(2) by simp
  obtain w where w: "write_msg (a_resp E) RespOk (fresh_writer None) = (Inr (), w)"
    using assms(4) by (auto simp: fits_write)
  have "fst (read_msg (a_resp E) (w_out w)) = Inr RespOk"
    using s by (intro read_written [OF _ w]) (simp add: session_ok_def wire_ok_def)
  with request_agent [OF s assms(3) h] w s tok(2) show ?thesis
    by (simp add: store_secret_def with_session_def session_ok_def del: fun_upd_apply)
qed

lemma use_input: "strip_newline [5, 10] = [5]"
  by (simp add: strip_newline_def)

lemma use_put:
  assumes "cs_peer (gs_cli st) = use_process fs"
  shows "\<exists>st' out. run_program use_world [lit ''put''] st = Some ((0, out), st')"
proof -
  have s: "session_ok demo_cli use_env (use_process fs)"
    using use_laws(1) demo_session_inv
    by (simp add: session_ok_def linked_def use_process_def process_start_def clock_touch_def agent_new_def cli_inv_def demo_session_def)
  have fit: "fits (a_req use_env) (ReqPut demo_token (lit ''k'') [5])" "fits (a_resp use_env) RespOk"
    by (simp_all add: demo_session_env_def fits_table)
  obtain q where q: "store_secret demo_cli (agent_peer use_env demo_op None) (lit ''k'') [5] (use_process fs) = (Inr (), q)"
    using use_stores [OF s _ fit] by auto
  with assms show ?thesis
    by (simp add: run_program_def run_cli_def run_verb_def use_parse put_cmd_def use_input map_ok_def map_err_def Let_def
        del: lit_simps)
qed

text \<open>C6. The program from its first use: on a machine without a vault, after \<open>init\<close> and \<open>signin\<close> with one
  passphrase, in the shell that has evaluated the printed line, and after any successful \<open>put\<close>s, each of a value on its
  command line or from its standard input, \<open>get\<close> of a name ends with 0 and prints exactly the value last put there
  (of an input, all but one line break at its end) and a line feed; for a name that was never put it ends with 1 and
  prints nothing. Each step is a run of the whole program, told only by its exit code.\<close>

theorem first_use:
  assumes "linked E C" "vault_path (cl_vars C) = Inr v" "line_safe v" "line_safe pw"
    and "in_shell E C Gi" "gw_parse Gi argsi = Verb Init" "cw_pass (gw_cli Gi) = Inr pw"
    and "run_program Gi argsi st0 = Some ((0, outi), st1)" "cs_out (gs_cli st0) = fresh_writer None"
    and "in_shell E C Gs" "gw_parse Gs argss = Verb Signin" "cw_pass (gw_cli Gs) = Inr pw"
    and "cw_child (gw_cli Gs) = spawned A" "inherits A E C"
    and "run_program Gs argss st1 = Some ((0, [lit ''export '' @ SESSION_VAR @ lit ''='' @ t]), st2)"
    and "D = C\<lparr>cl_vars := (cl_vars C)(SESSION_VAR \<mapsto> t)\<rparr>"
    and "\<forall>r\<in>set puts. is_put E D r" "succeed (put_args puts) st2 = Some st3"
    and "in_shell E D G" "gw_parse G args = Verb (Get k)"
  shows "\<exists>st4. run_program G args st3 = Some ((case last_put puts k of Some _ \<Rightarrow> 0 | None \<Rightarrow> 1, []), st4)
    \<and> w_out (cs_out (gs_cli st4)) = (case last_put puts k of Some v \<Rightarrow> v @ [10] | None \<Rightarrow> [])"
proof -
  note init = init_run [OF assms(8,6,5,7,2)]
  note signin = signin_run [OF assms(15,11,10,12,13,14,1,2,3,4), folded assms(16)]
  note puts = put_runs [OF assms(17,18) signin(2)]
  have absent: "mg_get_secret (a_manager_env E) (ag_manager (pr_agent (cs_peer (gs_cli st2)))) k = Inr None"
    using init(2) signin(3) created_is_empty assms(1) by (fastforce simp: linked_def mg_get_secret_def)
  have out: "cs_out (gs_cli st3) = fresh_writer None" using puts init(1) signin(1) assms(9) by simp
  have never: "\<exists>e. fst (fetch_secret D (agent_peer E c None) k (cs_peer (gs_cli st3))) = Inl e" if "last_put puts k = None" for c
  proof -
    have "cli_view D (agent_peer E demo_op None) (cs_peer (gs_cli st2)) k \<noteq> Inr (Some v)" for v
      using view_fetch [OF signin(2), of demo_op k v] fetch_absent [OF _ absent, of D demo_op] signin(2) by (auto simp: cli_inv_def)
    then have "fst (fetch_secret D (agent_peer E c None) k (cs_peer (gs_cli st3))) \<noteq> Inr v" for v
      using puts that view_fetch [of D E "utf8 pw" "cs_peer (gs_cli st3)" c k v] by simp
    then show ?thesis by (metis sum.exhaust)
  qed
  have last: "fst (fetch_secret D (agent_peer E c None) k (cs_peer (gs_cli st3))) = Inr v" if "last_put puts k = Some v" for c v
    using puts that view_fetch [of D E "utf8 pw" "cs_peer (gs_cli st3)" c k v] by simp
  obtain st4 c where "run_program G args st3
      = Some ((case fst (fetch_secret D (agent_peer E c None) k (cs_peer (gs_cli st3))) of Inr _ \<Rightarrow> 0 | Inl _ \<Rightarrow> 1, []), st4)"
    "w_out (cs_out (gs_cli st4))
      = (case fst (fetch_secret D (agent_peer E c None) k (cs_peer (gs_cli st3))) of Inr v \<Rightarrow> v @ [10] | Inl _ \<Rightarrow> [])"
    using get_run [OF assms(19,20) out] by blast
  then show ?thesis using never [of c] last [of _ c] by (cases "last_put puts k") auto
qed

theorem first_use_witness:
  "\<exists>st1 o1 st2 st3 o3 st4. run_program use_world [lit ''init''] use_start = Some ((0, o1), st1)
    \<and> run_program use_world [lit ''signin''] st1
      = Some ((0, [lit ''export '' @ SESSION_VAR @ lit ''='' @ demo_b64_encode demo_token]), st2)
    \<and> run_program use_world [lit ''put''] st2 = Some ((0, o3), st3)
    \<and> run_program use_world [lit ''get''] st3 = Some ((0, []), st4) \<and> w_out (cs_out (gs_cli st4)) = [5, 10]"
proof -
  let ?puts = "[(use_world, [lit ''put''], lit ''k'', [5])]"
  obtain st1 o1 fs bs where 1: "run_program use_world [lit ''init''] use_start = Some ((0, o1), st1)"
      "gs_cli st1 = (gs_cli use_start)\<lparr>cs_files := fs\<rparr>" "fs (lit ''v'') = Some bs"
      "ls_open sure_vault demo_op (lit ''v'') [1] None fs = Inr use_store"
    using use_init by blast
  obtain st2 where 2: "run_program use_world [lit ''signin''] st1
      = Some ((0, [lit ''export '' @ SESSION_VAR @ lit ''='' @ demo_b64_encode demo_token]), st2)"
      "cs_peer (gs_cli st2) = use_process fs"
    using use_signin [OF 1(2-4)] by blast
  obtain st3 o3 where 3: "run_program use_world [lit ''put''] st2 = Some ((0, o3), st3)"
    using use_put [OF 2(2)] by blast
  have safe: "line_safe (lit ''v'')" "line_safe [rchr 1]"
    by (simp_all add: line_safe_def ascii_def)
  have puts: "\<forall>r\<in>set ?puts. is_put use_env demo_cli r" "succeed (put_args ?puts) st2 = Some st3"
    using use_laws(3) 3 given.piped [of "[5, 10]"]
    by (simp_all add: is_put_def use_parse use_input put_args_def del: lit_simps)
  have lp: "last_put ?puts (lit ''k'') = Some [5]" by (simp add: last_put_def)
  have "\<exists>st4. run_program use_world [lit ''get''] st3 = Some ((0, []), st4) \<and> w_out (cs_out (gs_cli st4)) = [5] @ [10]"
    using first_use [OF use_laws(1) use_crates(8) safe(1,2) use_laws(3) _ _ 1(1) _ use_laws(3) _ _ _ use_laws(2) 2(1)
        use_shell [symmetric] puts use_laws(3), of "[lit ''get'']" "lit ''k''"]
    by (simp add: use_parse lp del: lit_simps utf8_simps)
  then show ?thesis using 1(1) 2(1) 3 by auto
qed

end
