(* ===== verification/OtpUse.thy ===== *)
theory OtpUse
  imports FirstUse
begin

text \<open>
  One-time passwords through the agent: what \<open>otp --add\<close> stored, generated or pasted, is what \<open>otp\<close> computes
  its codes from, and what an authenticator gets that scans the printed address.
\<close>

lemma stored_is_shown:
  assumes "cli_inv C E pw p" "hmac_lengths (cl_crates C)" "parse_totp v = Some cfg"
    and "store_secret C (agent_peer E c None) n (utf8 v) p = (Inr (), q)"
  shows "\<exists>code. fst (otp_cmd C (agent_peer E d None) now n q) = Inr code \<and> code_at (cl_crates C) cfg now = Some code
    \<and> length code = unat (totp_digits cfg) \<and> list_all is_ascii_digit code"
proof -
  have "cli_view C (agent_peer E demo_op None) q n = Inr (Some (utf8 v))"
    using cli.put_get [OF assms(1,4), of n] by simp
  then have f: "fst (fetch_secret C (agent_peer E d None) n q) = Inr (utf8 v)"
    using view_fetch [OF cli.put_inv [OF assms(1,4)]] by blast
  obtain q' where "fetch_secret C (agent_peer E d None) n q = (Inr (utf8 v), q')" using f by (metis prod.collapse)
  moreover obtain code where "code_at (cl_crates C) cfg now = Some code" "length code = unat (totp_digits cfg)"
      "list_all is_ascii_digit code"
    using hotp_digits [OF assms(2)] parse_totp_wf [OF assms(3)] unfolding code_at_counter totp_wf_def by metis
  ultimately show ?thesis using assms(3) by (simp add: otp_cmd_def)
qed

subsection \<open>An instance\<close>

definition pasted_config :: totp_config where
  "pasted_config = \<lparr>totp_secret = [3], totp_digits = 7, totp_period = 30, totp_algorithm = Sha1\<rparr>"

definition otp_env :: agent_env where
  "otp_env = use_env\<lparr>
     a_req := table_codec [ReqPut demo_token (lit ''k'') (utf8 (to_uri pasted_config (lit ''k''))), ReqGet demo_token (lit ''k'')],
     a_resp := table_codec [RespOk, RespSecret (Some (utf8 (to_uri pasted_config (lit ''k''))))]\<rparr>"

definition otp_cli :: cli_env where
  "otp_cli = demo_cli\<lparr>cl_req := a_req otp_env, cl_resp := a_resp otp_env\<rparr>"

lemma otp_fits:
  "fits (a_req otp_env) (ReqPut demo_token (lit ''k'') (utf8 (to_uri pasted_config (lit ''k''))))" "fits (a_resp otp_env) RespOk"
  "wire_ok otp_env"
  by (auto simp: otp_env_def fits_table wire_ok_def table_codec_ok simp del: lit_simps utf8_simps)

lemma otp_inv: "\<exists>fs. cli_inv otp_cli otp_env [1] (use_process fs)"
proof -
  obtain fs where o: "ls_open sure_vault demo_op (lit ''v'') [1] None fs = Inr use_store" using use_init by blast
  have E: "a_manager_env otp_env = sure_manager_env" by (simp add: otp_env_def)
  have "mg_open_vault sure_manager_env demo_op (lit ''v'') [1] None (manager_new, fs)
      = (Inr (), manager_new\<lparr>mg_vault := Some use_store\<rparr>, fs)"
    using o by (simp add: mg_open_vault_def use_crates del: lit_simps)
  from open_inv [OF this] have "mg_inv sure_manager_env [1] None (manager_new\<lparr>mg_vault := Some use_store\<rparr>, fs)"
    using sure_vault_ok(1) by (auto simp: use_crates)
  then have "mg_inv sure_manager_env [1] None (ag_manager (pr_agent (use_process fs)), pr_fs (use_process fs))"
    by (simp add: mg_inv_def use_process_def process_start_def clock_touch_def agent_new_def)
  moreover have "session_ok otp_cli otp_env (use_process fs)"
    using demo_session_inv otp_fits(3)
    by (simp add: session_ok_def otp_cli_def use_process_def process_start_def clock_touch_def agent_new_def cli_inv_def
        demo_session_def session_token_def use_crates)
  ultimately show ?thesis using E by (auto simp: cli_inv_def)
qed

subsection \<open>Properties\<close>

text \<open>C23. One-time passwords end to end: when \<open>otp --add\<close> has succeeded, with a seed of its own or with the text
  that was pasted, then at every later moment \<open>otp\<close> of that name succeeds and prints exactly the code of the
  configuration that was generated or pasted, with its number of digits; and the address that was printed
  for a generated one gives an authenticator that reads it the same configuration.\<close>

theorem otp_added_is_shown:
  assumes "cli_inv C E pw p" "hmac_lengths (cl_crates C)" "\<forall>s. seed = Inr s \<longrightarrow> length s = 20"
    and "otp_add C (agent_peer E c None) seed stdin n generate p = (Inr printed, q)"
  shows "\<exists>cfg. (if generate
        then seed = Inr (totp_secret cfg) \<and> totp_digits cfg = 6 \<and> totp_period cfg = 30 \<and> totp_algorithm cfg = Sha1
          \<and> (\<exists>uri. printed = [uri] \<and> parse_totp uri = Some cfg)
        else \<exists>input. stdin = Inr input \<and> parse_totp (trim input) = Some cfg \<and> printed = [])
    \<and> (\<forall>d now. \<exists>code. fst (otp_cmd C (agent_peer E d None) now n q) = Inr code
        \<and> code_at (cl_crates C) cfg now = Some code
        \<and> length code = unat (totp_digits cfg) \<and> list_all is_ascii_digit code)"
proof -
  let ?entered = "\<lambda>cfg. if generate
    then seed = Inr (totp_secret cfg) \<and> totp_digits cfg = 6 \<and> totp_period cfg = 30 \<and> totp_algorithm cfg = Sha1
    else \<exists>input. stdin = Inr input \<and> parse_totp (trim input) = Some cfg"
  obtain cfg where cfg: "?entered cfg" "store_secret C (agent_peer E c None) n (utf8 (to_uri cfg n)) p = (Inr (), q)"
      "printed = (if generate then [to_uri cfg n] else [])"
  proof (cases generate)
    case True
    then obtain s where "seed = Inr s" using assms(4) by (cases seed) (auto simp: otp_add_def map_ok_def)
    with True assms(4) show thesis
      by (intro that [of "\<lparr>totp_secret = s, totp_digits = 6, totp_period = 30, totp_algorithm = Sha1\<rparr>"])
        (auto simp: otp_add_def Let_def map_ok_def split: sum.splits prod.splits)
  next
    case False
    then show thesis
      using assms(4) that
      by (auto simp: otp_add_def Let_def and_then_def map_err_def ok_or_def split: sum.splits option.splits prod.splits)
  qed
  have "totp_wf cfg" using cfg(1) assms(3) parse_totp_wf by (auto simp: totp_wf_def split: if_splits)
  then have p: "parse_totp (to_uri cfg n) = Some cfg" by (intro parse_to_uri) (simp_all add: totp_wf_def)
  show ?thesis
    using cfg(1,3) p stored_is_shown [OF assms(1,2) p cfg(2)] by (intro exI [of _ cfg]) (auto split: if_splits)
qed

theorem otp_added_is_shown_witness:
  "\<exists>fs q code. otp_add otp_cli (agent_peer otp_env demo_op None) (Inr (replicate 20 9)) (Inr (to_uri pasted_config []))
        (lit ''k'') False (use_process fs) = (Inr [], q)
    \<and> fst (otp_cmd otp_cli (agent_peer otp_env demo_op None) 59 (lit ''k'') q) = Inr code \<and> length code = 7"
proof -
  obtain fs where inv: "cli_inv otp_cli otp_env [1] (use_process fs)" using otp_inv by blast
  have p: "parse_totp (to_uri pasted_config l) = Some pasted_config" for l by (rule parse_to_uri) (simp_all add: pasted_config_def)
  have t: "trim (to_uri pasted_config []) = to_uri pasted_config []"
    by (rule trim_id) (use alg_name_ends in \<open>simp_all add: to_uri_def ascii_def is_whitespace_def\<close>)
  have "session_ok otp_cli otp_env (use_process fs)" using inv by (simp add: cli_inv_def)
  from use_stores [OF this _ otp_fits(1,2)] obtain q where
    q: "store_secret otp_cli (agent_peer otp_env demo_op None) (lit ''k'') (utf8 (to_uri pasted_config (lit ''k''))) (use_process fs) = (Inr (), q)"
    by (auto simp: otp_env_def)
  have a: "otp_add otp_cli (agent_peer otp_env demo_op None) (Inr (replicate 20 9)) (Inr (to_uri pasted_config []))
        (lit ''k'') False (use_process fs) = (Inr [], q)"
    using q by (simp add: otp_add_def and_then_def map_err_def ok_or_def t p del: lit_simps utf8_simps)
  have "cl_crates otp_cli = demo_crates" by (simp add: otp_cli_def use_crates)
  with otp_added_is_shown [OF inv _ _ a] demo_crates_ok(2) obtain cfg code where c:
    "parse_totp (trim (to_uri pasted_config [])) = Some cfg"
    "fst (otp_cmd otp_cli (agent_peer otp_env demo_op None) 59 (lit ''k'') q) = Inr code" "length code = unat (totp_digits cfg)"
    by fastforce
  have "cfg = pasted_config" using c(1) by (simp add: t p)
  with a c show ?thesis by (auto simp: pasted_config_def)
qed

end
