(* ===== verification/CheckBase.thy ===== *)
theory CheckBase
  imports Passphrase Editor Pairing Client
begin

text \<open>
  The program's own unit tests, as definitions over the model: a test is the truth value of its assertions,
  and \<open>unwrap\<close> of an error is a failure. That they hold is what the program and the model were both
  expected to give. What a test draws from the system (random bytes, a path that is free) and what it links are
  arguments, and the lemma is for all of them. Here: \<open>core/name.rs\<close>, \<open>core/passphrase.rs\<close>, \<open>crypto/vdf_kdf.rs\<close>,
  \<open>ui/editor.rs\<close>, \<open>network/mod.rs\<close>, \<open>cli/paths.rs\<close> and \<open>cli/protocol.rs\<close>.
\<close>

text \<open>\<open>r.unwrap()\<close>, and then the rest of the test.\<close>

definition unwrap_then :: "'e + 'a \<Rightarrow> ('a \<Rightarrow> bool) \<Rightarrow> bool" where
  "unwrap_then r rest = (case r of Inr x \<Rightarrow> rest x | Inl _ \<Rightarrow> False)"

definition some_then :: "'a option \<Rightarrow> ('a \<Rightarrow> bool) \<Rightarrow> bool" where
  "some_then r rest = (case r of Some x \<Rightarrow> rest x | None \<Rightarrow> False)"

text \<open>A call that changes a state: its result unwrapped, and the rest of the test in the new state.\<close>

definition run_then :: "('e + 'a) \<times> 's \<Rightarrow> ('a \<Rightarrow> 's \<Rightarrow> bool) \<Rightarrow> bool" where
  "run_then rs rest = (case rs of (r, s) \<Rightarrow> unwrap_then r (\<lambda>x. rest x s))"

lemma unwrap_then_simps [simp]: "unwrap_then (Inr x) rest = rest x" "unwrap_then (Inl e) rest = False"
  by (simp_all add: unwrap_then_def)

lemma run_then_simps [simp]: "run_then (r, s) rest = unwrap_then r (\<lambda>x. rest x s)"
  by (simp add: run_then_def)

lemma some_then_simps [simp]: "some_then (Some x) rest = rest x" "some_then None rest = False"
  by (simp_all add: some_then_def)

subsection \<open>Names\<close>

definition test_accepts_ordinary_names :: bool where
  "test_accepts_ordinary_names \<longleftrightarrow>
     unwrap_then (validate_secret_name (lit ''api'')) (\<lambda>_.
     unwrap_then (validate_secret_name (lit ''ssh/id_ed25519'')) (\<lambda>_. True))"

definition test_rejects_empty_overlong_and_controls :: bool where
  "test_rejects_empty_overlong_and_controls \<longleftrightarrow>
     \<not> is_ok (validate_secret_name [])
     \<and> \<not> is_ok (validate_secret_name (concat (replicate (MAX_NAME_LEN + 1) (lit ''a''))))
     \<and> \<not> is_ok (validate_secret_name (lit ''bad'' @ [rchr 10] @ lit ''name''))"

lemma accepts_ordinary_names: test_accepts_ordinary_names
  by (simp add: test_accepts_ordinary_names_def validate_secret_name_def MAX_NAME_LEN_def ascii_def is_control_def
      encode_utf8_ascii)

lemma rejects_empty_overlong_and_controls: test_rejects_empty_overlong_and_controls
proof -
  have "length (utf8 (concat (replicate n (lit ''a'')))) = n" for n
    by (induction n) (simp_all add: ascii_def encode_utf8_ascii)
  moreover have "is_control (rchr 10)" by (simp add: is_control_def)
  ultimately show ?thesis
    by (simp add: test_rejects_empty_overlong_and_controls_def validate_secret_name_def MAX_NAME_LEN_def)
qed

subsection \<open>Passphrases\<close>

definition test_entropy_accounting :: bool where
  "test_entropy_accounting \<longleftrightarrow>
     entropy_bits 2048 20 = 220 \<and> entropy_bits 2048 24 = 264 \<and> entropy_bits 100 20 = 0
     \<and> required_random_bytes 2048 20 = 28"

definition test_select_words_is_deterministic_and_in_range :: "rstr \<Rightarrow> bool" where
  "test_select_words_is_deterministic_and_in_range txt \<longleftrightarrow>
     (let list = default_wordlist txt; need = required_random_bytes (length list) 20 in
      unwrap_then (select_words list 20 (replicate need 0)) (\<lambda>words.
        length words = 20 \<and> list_all (\<lambda>w. w = list ! 0) words
        \<and> unwrap_then (select_words list 20 (replicate need 0xFF)) (\<lambda>words. list_all (\<lambda>w. w = list ! 2047) words)))"

definition test_rejects_insufficient_randomness_and_bad_list :: "rstr \<Rightarrow> bool" where
  "test_rejects_insufficient_randomness_and_bad_list txt \<longleftrightarrow>
     (let list = default_wordlist txt in
      \<not> is_ok (select_words list 20 (replicate 2 0))
      \<and> \<not> is_ok (select_words [lit ''a'', lit ''b'', lit ''c''] 2 (replicate 8 0)))"

lemma power_11: "is_power_of_two 2048" "trailing_zeros 2048 = 11"
  by (simp_all add: is_power_of_two_def trailing_zeros.simps)

lemma not_powers: "\<not> is_power_of_two 100" "\<not> is_power_of_two (Suc (Suc (Suc 0)))"
  by (simp_all add: is_power_of_two_def trailing_zeros.simps)

lemma entropy_accounting: test_entropy_accounting
  by (simp add: test_entropy_accounting_def entropy_bits_def required_random_bytes_def power_11 not_powers)

lemma bit_stream_constant: "bit_stream (replicate n 0) = replicate (8 * n) False" "bit_stream (replicate n 0xFF) = replicate (8 * n) True"
proof -
  have "byte_bits 0 = replicate 8 False" "byte_bits 0xFF = replicate 8 True"
    by (simp_all add: byte_bits_def numeral_eq_Suc upt_rec)
  then show "bit_stream (replicate n 0) = replicate (8 * n) False" "bit_stream (replicate n 0xFF) = replicate (8 * n) True"
    by (induction n) (simp_all add: bit_stream_def replicate_add)
qed

lemma constant_words:
  assumes "length list = 2 ^ 11" "r \<in> {replicate 28 0, replicate 28 0xFF}"
  shows "select_words list 20 r = Inr (replicate 20 (list ! (if r = replicate 28 0 then 0 else 2047)))"
proof -
  have v: "bits_value (replicate 11 False) = 0" "bits_value (replicate 11 True) = 2047"
    by (simp_all add: bits_value_def numeral_eq_Suc)
  have "select_words list 20 r = Inr (words_of list 11 20 (take (20 * 11) (bit_stream r)))"
    using assms power_11(1) by (intro select_words_words_of) auto
  moreover have "words_of list 11 20 (take (20 * 11) (bit_stream (replicate 28 0))) = replicate 20 (list ! 0)"
    "words_of list 11 20 (take (20 * 11) (bit_stream (replicate 28 0xFF))) = replicate 20 (list ! 2047)"
    by (intro nth_equalityI; simp add: words_of_def bit_stream_constant v min_def; linarith)+
  ultimately show ?thesis using assms(2) by auto
qed

lemma select_words_is_deterministic_and_in_range:
  "length (default_wordlist txt) = 2048 \<Longrightarrow> test_select_words_is_deterministic_and_in_range txt"
  using constant_words [of "default_wordlist txt"]
  by (simp add: test_select_words_is_deterministic_and_in_range_def required_random_bytes_def power_11 Let_def list_all_iff
      del: replicate.simps)

lemma rejects_insufficient_randomness_and_bad_list:
  "length (default_wordlist txt) = 2048 \<Longrightarrow> test_rejects_insufficient_randomness_and_bad_list txt"
  by (simp add: test_rejects_insufficient_randomness_and_bad_list_def select_words_def power_11 not_powers Let_def)

subsection \<open>Key derivation\<close>

definition fast_params :: argon2_params where
  "fast_params = \<lparr>argon_time = 1, argon_memory = 8 * 1024, argon_threads = 1\<rparr>"

definition test_derive_key_rejects_wrong_salt_length :: "crates \<Rightarrow> bool" where
  "test_derive_key_rejects_wrong_salt_length X \<longleftrightarrow>
     (let p = fast_params in
      \<not> is_ok (derive_key X (utf8 (lit ''pw'')) (replicate 16 0) p 0 None)
      \<and> is_ok (derive_key X (utf8 (lit ''pw'')) (replicate 32 0) p 0 None))"

definition test_derive_key_is_deterministic :: "crates \<Rightarrow> bool" where
  "test_derive_key_is_deterministic X \<longleftrightarrow>
     (let p = fast_params; salt = replicate 32 7 in
      unwrap_then (derive_key X (utf8 (lit ''passphrase'')) salt p 16 None) (\<lambda>a.
      unwrap_then (derive_key X (utf8 (lit ''passphrase'')) salt p 16 None) (\<lambda>b. a = b)))"

definition test_derive_key_rejects_unbounded_vdf_iterations :: "crates \<Rightarrow> bool" where
  "test_derive_key_rejects_unbounded_vdf_iterations X \<longleftrightarrow>
     (let p = fast_params in
      \<not> is_ok (derive_key X (utf8 (lit ''pw'')) (replicate 32 0) p (MAX_VDF_ITERATIONS + 1) None))"

text \<open>The crates accept the parameters of the tests, and have the memory that they ask for.\<close>

definition kdf_runs :: "crates \<Rightarrow> argon2_params \<Rightarrow> bool" where
  "kdf_runs X p \<longleftrightarrow> is_ok (argon2_new_params X (argon_memory p) (argon_time p) (argon_threads p))
     \<and> (\<forall>pw salt. is_ok (argon2id X (argon_time p) (argon_memory p) (argon_threads p) pw salt))
     \<and> (\<forall>salt ikm info. is_ok (hkdf_sha512 X salt ikm info 32)) \<and> (\<forall>bs. is_ok (locked_from_bytes X bs))"

lemma derive_key_runs:
  "kdf_runs X p \<Longrightarrow> length salt = 32 \<Longrightarrow> \<not> n > MAX_VDF_ITERATIONS \<Longrightarrow> is_ok (derive_key X pw salt p n hw)"
  by (auto simp: kdf_runs_def derive_key_def and_then_def map_err_def is_ok_def Let_def split: sum.splits)

lemma derive_key_rejects_wrong_salt_length: "kdf_runs X fast_params \<Longrightarrow> test_derive_key_rejects_wrong_salt_length X"
  using derive_key_runs [of X fast_params "replicate 32 0" 0 "utf8 (lit ''pw'')" None]
  by (simp add: test_derive_key_rejects_wrong_salt_length_def derive_key_def [of _ _ "replicate 16 0"] Let_def
      del: lit_simps utf8_simps)

lemma derive_key_is_deterministic: "kdf_runs X fast_params \<Longrightarrow> test_derive_key_is_deterministic X"
  using derive_key_runs [of X fast_params "replicate 32 7" 16 "utf8 (lit ''passphrase'')" None]
  by (auto simp: test_derive_key_is_deterministic_def unwrap_then_def MAX_VDF_ITERATIONS_def is_ok_def Let_def
      simp del: lit_simps utf8_simps split: sum.splits)

lemma derive_key_rejects_unbounded_vdf_iterations: "test_derive_key_rejects_unbounded_vdf_iterations X"
  by (simp add: test_derive_key_rejects_unbounded_vdf_iterations_def derive_key_def MAX_VDF_ITERATIONS_def)

subsection \<open>The editor\<close>

definition test_typing_and_backspace_round_trip :: bool where
  "test_typing_and_backspace_round_trip \<longleftrightarrow>
     (let hello = lit ''h'' @ [rchr 0xE9] @ lit ''llo'';
          e = fold push_char hello editor_new;
          e1 = backspace e;
          e4 = backspace (backspace (backspace e1)) in
      as_bytes e = utf8 hello
      \<and> as_bytes e1 = utf8 (lit ''h'' @ [rchr 0xE9] @ lit ''ll'')
      \<and> as_bytes e4 = utf8 (lit ''h''))"

definition test_seeds_from_bytes_and_appends_newline :: bool where
  "test_seeds_from_bytes_and_appends_newline \<longleftrightarrow>
     display (push_char (ascii CHR ''x'') (push_char (rchr 10) (editor_from_bytes (utf8 (lit ''line1'')))))
     = lit ''line1'' @ [rchr 10] @ lit ''x''"

definition test_backspace_on_empty_is_noop :: bool where
  "test_backspace_on_empty_is_noop \<longleftrightarrow> as_bytes (backspace editor_new) = []"

text \<open>Typing and rubbing out, as the editor's model as a text has it.\<close>

lemma edited:
  assumes "as_bytes ed = utf8 s" "editor_inv ed"
  shows "as_bytes (fold edit_step es ed) = utf8 (fold text_step es s)"
  using edits_holding [of s ed es] assms by (simp add: holding_iff)

lemma fold_push: "fold push_char cs ed = fold edit_step (map Push cs) ed"
  by (induction cs arbitrary: ed) simp_all

lemma short_text: "length s \<le> 16 \<Longrightarrow> length (utf8 s) \<le> CAPACITY"
proof -
  have "length (encode_utf8 c) \<le> 4" for c by (simp add: encode_utf8_def Let_def)
  then have "length (utf8 s) \<le> 4 * length s" by (induction s) (auto simp: add_le_mono)
  then show "length s \<le> 16 \<Longrightarrow> ?thesis" by (simp add: CAPACITY_def)
qed

lemma typed: "length (s @ [c]) \<le> 16 \<Longrightarrow> text_step (Push c) s = s @ [c]"
  using short_text [of "s @ [c]"] by (simp add: not_less)

lemma typing_and_backspace_round_trip: test_typing_and_backspace_round_trip
proof -
  have e: "as_bytes (fold edit_step es editor_new) = utf8 (fold text_step es [])" for es
    by (rule edited) simp_all
  let ?h = "map Push (lit ''h'' @ [rchr 0xE9] @ lit ''llo'')"
  show ?thesis
    using e [of ?h] e [of "?h @ [Back]"] e [of "?h @ [Back, Back, Back, Back]"]
    by (simp add: test_typing_and_backspace_round_trip_def fold_push Let_def typed del: text_step.simps(1) utf8_simps)
qed

lemma seeds_from_bytes_and_appends_newline: test_seeds_from_bytes_and_appends_newline
proof -
  let ?s = "lit ''line1''"
  have "as_bytes (editor_from_bytes (utf8 ?s)) = utf8 ?s" using short_text [of ?s] by (simp add: as_bytes_from_bytes)
  from edited [OF this editor_from_bytes_inv, of "[Push (rchr 10), Push (ascii CHR ''x'')]"] show ?thesis
    by (simp add: test_seeds_from_bytes_and_appends_newline_def display_def typed from_utf8_lossy_utf8
        del: text_step.simps(1) utf8_simps)
qed

lemma backspace_on_empty_is_noop: test_backspace_on_empty_is_noop
  by (simp add: test_backspace_on_empty_is_noop_def backspace_empty holding_iff)

subsection \<open>Text on the wire\<close>

definition test_ascii_round_trip :: "crates \<Rightarrow> bool" where
  "test_ascii_round_trip X \<longleftrightarrow>
     (let blob = [0, 1, 2, 250, 255, 42, 7]; encoded = serialize_to_ascii X blob in
      is_ascii_str encoded \<and> unwrap_then (deserialize_from_ascii X encoded) (\<lambda>b. b = blob))"

lemma ascii_round_trip: "b64_ok X \<Longrightarrow> test_ascii_round_trip X"
  using b64_okD(3) [of X "[0, 1, 2, 250, 255, 42, 7]"]
  by (auto simp: test_ascii_round_trip_def deserialize_from_ascii_def b64_okD(1) serialize_to_ascii_def is_ascii_str_def is_b64_char_def
      Let_def list_all_iff)

subsection \<open>Paths\<close>

definition faker :: "(rstr \<times> rstr) list \<Rightarrow> rstr \<Rightarrow> rstr option" where
  "faker pairs = map_of (rev pairs)"

definition test_vault_path_prefers_explicit_override :: bool where
  "test_vault_path_prefers_explicit_override \<longleftrightarrow>
     (let env = faker [(lit ''SIMPLE_SECRETS_VAULT'', lit ''/custom/v.bin''), (lit ''XDG_DATA_HOME'', lit ''/xdg''),
                       (lit ''HOME'', lit ''/home/u'')] in
      unwrap_then (resolve_vault_path env) (\<lambda>p. p = lit ''/custom/v.bin''))"

definition test_vault_path_falls_back_to_xdg_then_home :: bool where
  "test_vault_path_falls_back_to_xdg_then_home \<longleftrightarrow>
     (let xdg = faker [(lit ''XDG_DATA_HOME'', lit ''/xdg''), (lit ''HOME'', lit ''/home/u'')];
          home = faker [(lit ''HOME'', lit ''/home/u'')] in
      unwrap_then (resolve_vault_path xdg) (\<lambda>p. p = lit ''/xdg/simple-secrets/vault.bin'')
      \<and> unwrap_then (resolve_vault_path home) (\<lambda>p. p = lit ''/home/u/.local/share/simple-secrets/vault.bin''))"

definition test_vault_path_errors_when_unresolvable :: bool where
  "test_vault_path_errors_when_unresolvable \<longleftrightarrow> \<not> is_ok (resolve_vault_path (faker []))"

definition test_socket_path_prefers_runtime_dir :: bool where
  "test_socket_path_prefers_runtime_dir \<longleftrightarrow>
     unwrap_then (resolve_socket_path (faker [(lit ''XDG_RUNTIME_DIR'', lit ''/run/user/1000'')]) 1000)
       (\<lambda>p. p = lit ''/run/user/1000/simple-secrets/agent.sock'')"

definition test_socket_path_falls_back_to_uid_scoped_tmp :: bool where
  "test_socket_path_falls_back_to_uid_scoped_tmp \<longleftrightarrow>
     unwrap_then (resolve_socket_path (faker [(lit ''TMPDIR'', lit ''/tmp'')]) 501)
       (\<lambda>p. p = lit ''/tmp/simple-secrets-501/agent.sock'')"

definition test_socket_path_rejects_overlong_base :: bool where
  "test_socket_path_rejects_overlong_base \<longleftrightarrow>
     (let long = lit ''/'' @ concat (replicate 120 (lit ''x'')) in
      \<not> is_ok (resolve_socket_path (faker [(lit ''XDG_RUNTIME_DIR'', long)]) 0))"

lemmas path_eval = faker_def resolve_vault_path_def resolve_socket_path_def path_join_def ascii_def encode_utf8_ascii
  MAX_SOCKET_PATH_LEN_def show_nat.simps [of 501] show_nat.simps [of 50] show_nat.simps [of 5] digit_char_def Let_def

lemma vault_path_prefers_explicit_override: test_vault_path_prefers_explicit_override
  by (simp add: test_vault_path_prefers_explicit_override_def path_eval)

lemma vault_path_falls_back_to_xdg_then_home: test_vault_path_falls_back_to_xdg_then_home
  by (simp add: test_vault_path_falls_back_to_xdg_then_home_def path_eval)

lemma vault_path_errors_when_unresolvable: test_vault_path_errors_when_unresolvable
  by (simp add: test_vault_path_errors_when_unresolvable_def path_eval)

lemma socket_path_prefers_runtime_dir: test_socket_path_prefers_runtime_dir
  by (simp add: test_socket_path_prefers_runtime_dir_def path_eval)

lemma socket_path_falls_back_to_uid_scoped_tmp: test_socket_path_falls_back_to_uid_scoped_tmp
  by (simp add: test_socket_path_falls_back_to_uid_scoped_tmp_def path_eval)

lemma socket_path_rejects_overlong_base: test_socket_path_rejects_overlong_base
proof -
  have "length (utf8 s) \<ge> length s" for s
  proof (induction s)
    case (Cons c s)
    have "1 \<le> length (encode_utf8 c)" by (simp add: encode_utf8_def Let_def)
    with Cons show ?case by simp
  qed simp
  moreover have "length base \<le> length (path_join (path_join base (lit ''simple-secrets'')) (lit ''agent.sock''))" for base
    by (simp add: path_join_def ascii_def)
  ultimately have "length base \<le> length (utf8 (path_join (path_join base (lit ''simple-secrets'')) (lit ''agent.sock'')))" for base
    using order_trans by blast
  from this [of "lit ''/'' @ concat (replicate 120 (lit ''x''))"] show ?thesis
    by (simp add: test_socket_path_rejects_overlong_base_def resolve_socket_path_def faker_def Let_def length_concat
        sum_list_replicate MAX_SOCKET_PATH_LEN_def del: lit_simps(2) utf8_simps)
qed

subsection \<open>Messages\<close>

definition roundtrip_msg :: "'a bincode \<Rightarrow> 'a \<Rightarrow> bool" where
  "roundtrip_msg C msg \<longleftrightarrow>
     (case write_msg C msg (fresh_writer None) of
        (r, w) \<Rightarrow> unwrap_then r (\<lambda>_. unwrap_then (fst (read_msg C (w_out w))) (\<lambda>back. back = msg)))"

definition test_requests_round_trip :: "request bincode \<Rightarrow> bool" where
  "test_requests_round_trip C \<longleftrightarrow>
     (let tok = replicate 32 7 in
      roundtrip_msg C (ReqGet tok (lit ''github''))
      \<and> roundtrip_msg C (ReqPut tok (lit ''api'') (utf8 (lit ''s3cr3t'')))
      \<and> roundtrip_msg C (ReqList tok) \<and> roundtrip_msg C (ReqStatus tok) \<and> roundtrip_msg C (ReqSignout tok))"

text \<open>\<open>nope\<close> is the message of the test, which is none of the program's.\<close>

definition test_responses_round_trip :: "response bincode \<Rightarrow> error \<Rightarrow> bool" where
  "test_responses_round_trip C nope \<longleftrightarrow>
     roundtrip_msg C (RespSecret (Some (utf8 (lit ''value'')))) \<and> roundtrip_msg C (RespSecret None)
     \<and> roundtrip_msg C (RespNames [lit ''a'', lit ''b'']) \<and> roundtrip_msg C (RespStatus True (lit ''/tmp/v.bin'') 1800)
     \<and> roundtrip_msg C RespOk \<and> roundtrip_msg C (RespErr nope)"

definition test_oversize_prefix_is_rejected_without_allocating :: "request bincode \<Rightarrow> bool" where
  "test_oversize_prefix_is_rejected_without_allocating C \<longleftrightarrow>
     \<not> is_ok (fst (read_msg C (to_le 4 (MAX_FRAME + 1) @ utf8 (lit ''not really this long''))))"

definition test_truncated_body_errors :: "request bincode \<Rightarrow> bool" where
  "test_truncated_body_errors C \<longleftrightarrow>
     (case write_msg C (ReqGet (replicate 32 1) (lit ''x'')) (fresh_writer None) of
        (r, w) \<Rightarrow> unwrap_then r (\<lambda>_. \<not> is_ok (fst (read_msg C (take (length (w_out w) - 1) (w_out w))))))"

lemma fits_roundtrip: "codec_ok C \<Longrightarrow> fits C msg \<Longrightarrow> roundtrip_msg C msg"
  using read_written [of C msg None] by (auto simp: fits_write roundtrip_msg_def)

lemma requests_round_trip:
  assumes "codec_ok C" "\<forall>n\<in>{lit ''github'', lit ''api''}. fits C (ReqGet (replicate 32 7) n)"
    and "fits C (ReqPut (replicate 32 7) (lit ''api'') (utf8 (lit ''s3cr3t'')))"
    and "\<forall>req\<in>{ReqList, ReqStatus, ReqSignout}. fits C (req (replicate 32 7))"
  shows "test_requests_round_trip C"
  using assms by (simp add: test_requests_round_trip_def fits_roundtrip Let_def del: lit_simps utf8_simps)

lemma responses_round_trip:
  assumes "codec_ok C" "fits C (RespSecret (Some (utf8 (lit ''value''))))" "fits C (RespSecret None)"
    and "fits C (RespNames [lit ''a'', lit ''b''])" "fits C (RespStatus True (lit ''/tmp/v.bin'') 1800)" "fits C RespOk" "fits C (RespErr nope)"
  shows "test_responses_round_trip C nope"
  using assms by (simp add: test_responses_round_trip_def fits_roundtrip del: lit_simps utf8_simps)

lemma oversize_prefix_is_rejected_without_allocating: "test_oversize_prefix_is_rejected_without_allocating C"
proof -
  have "length (to_le 4 (MAX_FRAME + 1)) = 4" by simp
  then show ?thesis
    by (simp add: test_oversize_prefix_is_rejected_without_allocating_def read_msg_def read_exact_def MAX_FRAME_def)
qed

lemma truncated_body_errors:
  assumes "fits C (ReqGet (replicate 32 1) (lit ''x''))"
  shows "test_truncated_body_errors C"
proof -
  obtain body where b: "ser C (ReqGet (replicate 32 1) (lit ''x'')) = Inr body" "length body \<le> unat MAX_FRAME"
    using assms by (auto simp: fits_def)
  obtain e where "fst (read_msg C (take (3 + length body) (frame body))) = Inl e"
    using read_truncated [OF b(2), of "3 + length body" C] by auto
  moreover have "length (frame body) - 1 = 3 + length body" by (simp add: frame_def)
  ultimately show ?thesis by (simp add: test_truncated_body_errors_def write_msg_fresh [OF b] del: lit_simps One_nat_def)
qed

end
