(* ===== verification/CheckSharing.thy ===== *)
theory CheckSharing
  imports CheckBase CliSharing
begin

text \<open>
  The unit tests of \<open>sharing/shamir.rs\<close>, \<open>sharing/multisig.rs\<close> and \<open>cli/sharing.rs\<close>, for all random coefficients. Left
  out are those that hold only with high probability: that too few shares do not happen to give the
  secret, and those that rely on two digests being different.
\<close>

subsection \<open>Shamir\<close>

definition test_gf_inverse_is_consistent :: bool where
  "test_gf_inverse_is_consistent \<longleftrightarrow>
     list_all (\<lambda>a. gf_mul a (gf_inv a) = 1) (map word_of_nat [1..<256]) \<and> gf_inv 0 = 0"

definition test_round_trip_with_all_shares :: "byte stream \<Rightarrow> bool" where
  "test_round_trip_with_all_shares rng \<longleftrightarrow>
     (let secret = utf8 (lit ''correct horse battery staple'') in
      unwrap_then (shamir_split secret 3 5 rng) (\<lambda>shares.
        length shares = 5 \<and> unwrap_then (shamir_reconstruct shares) (\<lambda>recovered. recovered = secret)))"

definition test_round_trip_with_exactly_threshold_shares :: "byte stream \<Rightarrow> bool" where
  "test_round_trip_with_exactly_threshold_shares rng \<longleftrightarrow>
     (let secret = [0, 1, 0xFF, 0x80] @ utf8 (lit '' a secret with binary bytes'') in
      unwrap_then (shamir_split secret 3 5 rng) (\<lambda>shares.
        list_all (\<lambda>combo. unwrap_then (shamir_reconstruct (map (\<lambda>i. shares ! i) combo)) (\<lambda>r. r = secret))
          [[0, 1, 2], [1, 3, 4], [0, 2, 4]]))"

definition test_rejects_bad_parameters :: "byte stream \<Rightarrow> bool" where
  "test_rejects_bad_parameters rng \<longleftrightarrow>
     \<not> is_ok (shamir_split (utf8 (lit ''x'')) 1 5 rng) \<and> \<not> is_ok (shamir_split (utf8 (lit ''x'')) 6 5 rng)
     \<and> \<not> is_ok (shamir_split [] 3 5 rng)"

definition test_rejects_duplicate_share_indices :: "byte stream \<Rightarrow> bool" where
  "test_rejects_duplicate_share_indices rng \<longleftrightarrow>
     unwrap_then (shamir_split (utf8 (lit ''abcdef'')) 2 4 rng) (\<lambda>shares.
       \<not> is_ok (shamir_reconstruct [shares ! 0, shares ! 0]))"

lemma gf_inv_0: "gf_inv 0 = 0"
  using byte_of_inverse_gf [of 0] by (simp add: zero_gf.rep_eq)

lemma gf_inverse_is_consistent: test_gf_inverse_is_consistent
proof -
  have "gf_mul a (gf_inv a) = 1" if "a \<noteq> 0" for a using that by (rule gf_inv_correct)
  moreover have "(word_of_nat k :: byte) \<noteq> 0" if "1 \<le> k" "k < 256" for k
    using that by (auto simp: word_of_nat_eq_0_iff)
  ultimately show ?thesis
    by (auto simp: test_gf_inverse_is_consistent_def list_all_iff gf_inv_0)
qed

lemma splits: "2 \<le> m \<Longrightarrow> m \<le> n \<Longrightarrow> n \<le> 255 \<Longrightarrow> s \<noteq> [] \<Longrightarrow> \<exists>shares. shamir_split s m n rng = Inr shares"
  using shamir_split_Inr_iff by blast

lemma round_trip_with_all_shares: "test_round_trip_with_all_shares rng"
proof -
  let ?s = "utf8 (lit ''correct horse battery staple'')"
  obtain shares where "shamir_split ?s 3 5 rng = Inr shares" using splits [of 3 5 ?s] by auto
  with shamir_scheme.recon_all [OF _ this] shamir_split_shape(1) [OF this] show ?thesis
    by (simp add: test_round_trip_with_all_shares_def Let_def del: lit_simps utf8_simps)
qed

lemma round_trip_with_exactly_threshold_shares: "test_round_trip_with_exactly_threshold_shares rng"
proof -
  let ?s = "[0, 1, 0xFF, 0x80] @ utf8 (lit '' a secret with binary bytes'')"
  obtain shares where s: "shamir_split ?s 3 5 rng = Inr shares" using splits [of 3 5 ?s] by auto
  have "shamir_reconstruct (map (\<lambda>i. shares ! i) is) = Inr ?s"
    if "distinct is" "\<forall>i\<in>set is. i < 5" "length is = 3" for "is"
    using shamir_scheme.recon_positions [OF _ s that(1,2)] that(3) by simp
  from this [of "[0, 1, 2]"] this [of "[1, 3, 4]"] this [of "[0, 2, 4]"] s show ?thesis
    by (simp add: test_round_trip_with_exactly_threshold_shares_def Let_def del: lit_simps utf8_simps)
qed

lemma rejects_bad_parameters: "test_rejects_bad_parameters rng"
  by (simp add: test_rejects_bad_parameters_def shamir_split_def)

lemma rejects_duplicate_share_indices: "test_rejects_duplicate_share_indices rng"
proof -
  let ?s = "utf8 (lit ''abcdef'')"
  obtain shares where "shamir_split ?s 2 4 rng = Inr shares" using splits [of 2 4 ?s] by (auto simp: encode_utf8_ascii ascii_def)
  moreover have "\<not> consistent [shares ! 0, shares ! 0]" by (simp add: consistent_def)
  ultimately show ?thesis
    using shamir_reconstruct_inconsistent [of "[shares ! 0, shares ! 0]"]
    by (auto simp: test_rejects_duplicate_share_indices_def simp del: lit_simps utf8_simps)
qed

subsection \<open>Custodians\<close>

definition test_keys :: "bytes list" where
  "test_keys = map (\<lambda>i. replicate 32 (word_of_nat i + 1)) [0..<5]"

definition test_round_trip_with_all_custodians :: "crates \<Rightarrow> byte stream \<Rightarrow> (nat \<Rightarrow> bytes) \<Rightarrow> bool" where
  "test_round_trip_with_all_custodians X rng nonces \<longleftrightarrow>
     (let secret = utf8 (lit ''multisig protected secret'') in
      unwrap_then (split_secret X rng nonces secret 3 5 test_keys) (\<lambda>split.
      unwrap_then (reconstruct_secret X (blobs split) test_keys (commitments split)) (\<lambda>recovered. recovered = secret)))"

definition test_round_trip_with_exactly_threshold :: "crates \<Rightarrow> byte stream \<Rightarrow> (nat \<Rightarrow> bytes) \<Rightarrow> bool" where
  "test_round_trip_with_exactly_threshold X rng nonces \<longleftrightarrow>
     (let secret = utf8 (lit ''multisig protected secret''); pick = [0, 2, 4] in
      unwrap_then (split_secret X rng nonces secret 3 5 test_keys) (\<lambda>split.
      unwrap_then (reconstruct_secret X (map (\<lambda>i. blobs split ! i) pick) (map (\<lambda>i. test_keys ! i) pick) (commitments split))
        (\<lambda>recovered. recovered = secret)))"

text \<open>The crates seal whatever they are given, as they do unless the system has no memory left.\<close>

definition seals_all :: "crates \<Rightarrow> bool" where
  "seals_all X \<longleftrightarrow> aead_ok X \<and> digest_lengths X \<and> (\<forall>k r p. is_ok (encrypt X k r p))"

lemma test_split:
  assumes "seals_all X"
  obtains r where "split_secret X rng nonces secret 3 5 test_keys = Inr r" "length (blobs r) = 5"
    "\<And>is. distinct is \<Longrightarrow> \<forall>i\<in>set is. i < 5 \<Longrightarrow> 3 \<le> length is \<Longrightarrow>
      reconstruct_secret X (map (\<lambda>i. blobs r ! i) is) (map (\<lambda>i. test_keys ! i) is) (commitments r) = Inr secret"
proof -
  have X: "aead_ok X" "digest_lengths X" using assms by (simp_all add: seals_all_def)
  obtain r where r: "split_secret X rng nonces secret 3 5 test_keys = Inr r"
    using split_secret_ok [of X 3 5 test_keys rng nonces secret] assms by (auto simp: seals_all_def test_keys_def)
  have "length (blobs r) = 5" using split_secret_parts [OF r] by metis
  with that r multisig_quorum [OF X r] show thesis by blast
qed

lemma round_trip_with_all_custodians:
  assumes "seals_all X"
  shows "test_round_trip_with_all_custodians X rng nonces"
proof (rule test_split [OF assms])
  let ?s = "utf8 (lit ''multisig protected secret'')"
  fix r assume r: "split_secret X rng nonces ?s 3 5 test_keys = Inr r" "length (blobs r) = 5"
    "\<And>is. distinct is \<Longrightarrow> \<forall>i\<in>set is. i < 5 \<Longrightarrow> 3 \<le> length is \<Longrightarrow>
      reconstruct_secret X (map (\<lambda>i. blobs r ! i) is) (map (\<lambda>i. test_keys ! i) is) (commitments r) = Inr ?s"
  have "map (\<lambda>i. blobs r ! i) [0..<5] = blobs r" "map (\<lambda>i. test_keys ! i) [0..<5] = test_keys"
    using r(2) map_nth [of "blobs r"] map_nth [of test_keys] by (simp_all add: test_keys_def)
  with r(1) r(3) [of "[0..<5]"] show ?thesis
    by (simp add: test_round_trip_with_all_custodians_def Let_def del: lit_simps utf8_simps)
qed

lemma round_trip_with_exactly_threshold:
  assumes "seals_all X"
  shows "test_round_trip_with_exactly_threshold X rng nonces"
proof (rule test_split [OF assms])
  let ?s = "utf8 (lit ''multisig protected secret'')"
  fix r assume r: "split_secret X rng nonces ?s 3 5 test_keys = Inr r"
    "\<And>is. distinct is \<Longrightarrow> \<forall>i\<in>set is. i < 5 \<Longrightarrow> 3 \<le> length is \<Longrightarrow>
      reconstruct_secret X (map (\<lambda>i. blobs r ! i) is) (map (\<lambda>i. test_keys ! i) is) (commitments r) = Inr ?s"
  from r(1) r(2) [of "[0, 2, 4]"] show ?thesis
    by (simp add: test_round_trip_with_exactly_threshold_def Let_def del: lit_simps utf8_simps)
qed

subsection \<open>Share tokens\<close>

definition test_token_encode_decode_round_trip :: "share_env \<Rightarrow> bool" where
  "test_token_encode_decode_round_trip \<Gamma> \<longleftrightarrow>
     (let share = \<lparr>sf_threshold = 2, sf_total = 3, sf_index = 1, sf_secret_name = lit ''db'', sf_blob = [1, 2, 3],
                   sf_key = replicate 32 9, sf_commitments = [replicate 64 0, replicate 64 1]\<rparr> in
      unwrap_then (encode_share \<Gamma> share) (\<lambda>token.
        strip_prefix SHARE_PREFIX token \<noteq> None \<and> unwrap_then (decode_share \<Gamma> token) (\<lambda>sf. sf = share)))"

definition test_decode_rejects_foreign_text :: "share_env \<Rightarrow> bool" where
  "test_decode_rejects_foreign_text \<Gamma> \<longleftrightarrow> \<not> is_ok (decode_share \<Gamma> (lit ''hello world''))"

definition test_split_then_reconstruct_with_threshold_subset :: "share_env \<Rightarrow> bool" where
  "test_split_then_reconstruct_with_threshold_subset \<Gamma> \<longleftrightarrow>
     (let secret = utf8 (lit ''correct horse battery staple'') in
      unwrap_then (split_into_tokens \<Gamma> secret 3 5 (lit ''phrase'')) (\<lambda>tokens.
        length tokens = 5
        \<and> unwrap_then (reconstruct_from_tokens \<Gamma> [tokens ! 0, tokens ! 2, tokens ! 4]) (\<lambda>r. r = secret)))"

definition test_fewer_than_threshold_is_rejected :: "share_env \<Rightarrow> bool" where
  "test_fewer_than_threshold_is_rejected \<Gamma> \<longleftrightarrow>
     unwrap_then (split_into_tokens \<Gamma> (utf8 (lit ''secret'')) 3 5 (lit ''x'')) (\<lambda>tokens.
       reconstruct_from_tokens \<Gamma> [tokens ! 0, tokens ! 1] = Inl (Token (TooFewTokens 3 2)))"

definition test_duplicate_share_is_rejected :: "share_env \<Rightarrow> bool" where
  "test_duplicate_share_is_rejected \<Gamma> \<longleftrightarrow>
     unwrap_then (split_into_tokens \<Gamma> (utf8 (lit ''secret'')) 2 3 (lit ''x'')) (\<lambda>tokens.
       case reconstruct_from_tokens \<Gamma> [tokens ! 0, tokens ! 0] of
         Inl (Token (DuplicateToken i)) \<Rightarrow> True
       | _ \<Rightarrow> False)"

definition test_invalid_parameters_are_rejected :: "share_env \<Rightarrow> bool" where
  "test_invalid_parameters_are_rejected \<Gamma> \<longleftrightarrow>
     \<not> is_ok (split_into_tokens \<Gamma> (utf8 (lit ''s'')) 4 3 (lit ''x''))
     \<and> \<not> is_ok (split_into_tokens \<Gamma> (utf8 (lit ''s'')) 1 1 (lit ''x''))"

definition test_safe_stem_flattens_paths_and_dotdots :: bool where
  "test_safe_stem_flattens_paths_and_dotdots \<longleftrightarrow>
     safe_stem (lit ''ssh/id_ed25519'') = lit ''ssh_id_ed25519'' \<and> safe_stem (lit ''..'') = lit ''share''
     \<and> safe_stem (lit ''../etc/passwd'') = lit ''.._etc_passwd''"

lemma token_encode_decode_round_trip:
  assumes "share_law \<Gamma>" "\<forall>sf. is_ok (encode_share \<Gamma> sf)"
  shows "test_token_encode_decode_round_trip \<Gamma>"
proof -
  let ?sf = "\<lparr>sf_threshold = 2, sf_total = 3, sf_index = 1, sf_secret_name = lit ''db'', sf_blob = [1, 2, 3],
                   sf_key = replicate 32 9, sf_commitments = [replicate 64 0, replicate 64 1]\<rparr>"
  obtain t where t: "encode_share \<Gamma> ?sf = Inr t" using assms(2) by (auto simp: is_ok_iff)
  have "trim t = t" using encoded_token [OF _ t] assms(1) by (simp add: share_law_def)
  with t have "decode_share \<Gamma> t = Inr ?sf" using decode_encoded [OF assms(1), of ?sf t] by simp
  moreover have "strip_prefix SHARE_PREFIX t \<noteq> None" using t by (auto simp: encode_share_def res_simps)
  ultimately show ?thesis
    using t by (simp add: test_token_encode_decode_round_trip_def Let_def del: lit_simps)
qed

lemma decode_rejects_foreign_text: "test_decode_rejects_foreign_text \<Gamma>"
  by (simp add: test_decode_rejects_foreign_text_def decode_share_def SHARE_PREFIX_def trim_def is_whitespace_def ascii_def
      ok_or_def)

lemma split_then_reconstruct_with_threshold_subset:
  assumes "share_law \<Gamma>" "is_ok (split_into_tokens \<Gamma> (utf8 (lit ''correct horse battery staple'')) 3 5 (lit ''phrase''))"
  shows "test_split_then_reconstruct_with_threshold_subset \<Gamma>"
proof -
  let ?s = "utf8 (lit ''correct horse battery staple'')"
  obtain toks where t: "split_into_tokens \<Gamma> ?s 3 5 (lit ''phrase'') = Inr toks" using assms(2) by (auto simp: is_ok_iff)
  have "reconstruct_from_tokens \<Gamma> (map (\<lambda>i. toks ! i) [0, 2, 4]) = Inr ?s"
    using token_scheme.recon_positions [of "(\<Gamma>, lit ''phrase'')" ?s 3 5 toks "[0, 2, 4]"] assms(1) t
    by (simp del: lit_simps utf8_simps)
  moreover have "length toks = 5" using split_into_tokens_parts [OF t] by metis
  ultimately show ?thesis
    using t by (simp add: test_split_then_reconstruct_with_threshold_subset_def Let_def del: lit_simps utf8_simps)
qed

text \<open>What the tokens of a split read as.\<close>

lemma split_tokens_read:
  assumes "share_law \<Gamma>" "split_into_tokens \<Gamma> s m n name = Inr toks"
  obtains keys r where "threshold r = m" "2 \<le> m" "m \<le> n"
    "\<And>i. i < n \<Longrightarrow> decode_share \<Gamma> (toks ! i) = Inr (token_file name keys r i)"
proof -
  obtain keys r where p: "length toks = n" "2 \<le> m" "m \<le> n" "threshold r = m"
    "\<And>i. i < n \<Longrightarrow> encode_share \<Gamma> (token_file name keys r i) = Inr (toks ! i)"
    using split_into_tokens_parts [OF assms(2)] by metis
  have "decode_share \<Gamma> (toks ! i) = Inr (token_file name keys r i)" if "i < n" for i
    using decode_encoded [OF assms(1)] p(5) [OF that] tokens_trimmed [OF assms, of "toks ! i"] p(1) that by simp
  with that p show thesis by blast
qed

lemma fewer_than_threshold_is_rejected:
  assumes "share_law \<Gamma>" "is_ok (split_into_tokens \<Gamma> (utf8 (lit ''secret'')) 3 5 (lit ''x''))"
  shows "test_fewer_than_threshold_is_rejected \<Gamma>"
proof -
  let ?s = "utf8 (lit ''secret'')"
  obtain toks where t: "split_into_tokens \<Gamma> ?s 3 5 (lit ''x'') = Inr toks" using assms(2) by (auto simp: is_ok_iff)
  obtain keys r where "threshold r = 3" "\<And>i. i < 5 \<Longrightarrow> decode_share \<Gamma> (toks ! i) = Inr (token_file (lit ''x'') keys r i)"
    using split_tokens_read [OF assms(1) t] by metis
  then have "reconstruct_from_tokens \<Gamma> [toks ! 0, toks ! 1] = Inl (Token (TooFewTokens 3 2))"
    by (simp add: reconstruct_from_tokens_def token_file_def Let_def del: lit_simps)
  with t show ?thesis by (simp add: test_fewer_than_threshold_is_rejected_def del: lit_simps utf8_simps)
qed

lemma duplicate_share_is_rejected:
  assumes "share_law \<Gamma>" "is_ok (split_into_tokens \<Gamma> (utf8 (lit ''secret'')) 2 3 (lit ''x''))"
  shows "test_duplicate_share_is_rejected \<Gamma>"
proof -
  let ?s = "utf8 (lit ''secret'')"
  obtain toks where t: "split_into_tokens \<Gamma> ?s 2 3 (lit ''x'') = Inr toks" using assms(2) by (auto simp: is_ok_iff)
  obtain keys r where "\<And>i. i < 3 \<Longrightarrow> decode_share \<Gamma> (toks ! i) = Inr (token_file (lit ''x'') keys r i)"
    using split_tokens_read [OF assms(1) t] by metis
  then have "reconstruct_from_tokens \<Gamma> [toks ! 0, toks ! 0] = Inl (Token (DuplicateToken 1))"
    by (simp add: reconstruct_from_tokens_def token_file_def Let_def del: lit_simps)
  with t show ?thesis by (simp add: test_duplicate_share_is_rejected_def del: lit_simps utf8_simps)
qed

lemma invalid_parameters_are_rejected: "test_invalid_parameters_are_rejected \<Gamma>"
  by (simp add: test_invalid_parameters_are_rejected_def split_into_tokens_def)

lemma safe_stem_flattens_paths_and_dotdots: test_safe_stem_flattens_paths_and_dotdots
  by (simp add: test_safe_stem_flattens_paths_and_dotdots_def safe_stem_def safe_char_def is_control_def ascii_def Let_def)

end
