(* ===== verification/CheckVault.thy ===== *)
theory CheckVault
  imports CheckBase TuiDisk
begin

text \<open>
  The unit tests of \<open>storage/local_store.rs\<close>. A test runs on a disk on which its path is
  free; \<open>c i\<close> is what surrounds its \<open>i\<close>-th call. Left out are the two that rely on what encryption hides
  (the stored bytes do not contain the value, the wrong passphrase does not open the vault).
\<close>

subsection \<open>The vault file\<close>

definition test_create_persists_and_reopens_with_only_passphrase :: "vault_env \<Rightarrow> (nat \<Rightarrow> op_env) \<Rightarrow> rstr \<Rightarrow> fs \<Rightarrow> bool" where
  "test_create_persists_and_reopens_with_only_passphrase E c path fs \<longleftrightarrow>
     (let salt = replicate SALT_LEN 3; params = fast_params; pw = utf8 (lit ''pw'') in
      run_then (ls_create E (c 0) path pw salt params 4 None fs) (\<lambda>store fs.
      run_then (ls_set E (c 1) (lit ''k'') (utf8 (lit ''ciphertext'')) (store, fs)) (\<lambda>_ (store, fs).
      unwrap_then (ls_open E (c 2) path pw None fs) (\<lambda>store.
      some_then (ls_get store (lit ''k'')) (\<lambda>v. v = utf8 (lit ''ciphertext''))))))"

definition test_create_refuses_to_clobber :: "vault_env \<Rightarrow> (nat \<Rightarrow> op_env) \<Rightarrow> rstr \<Rightarrow> fs \<Rightarrow> bool" where
  "test_create_refuses_to_clobber E c path fs \<longleftrightarrow>
     (let salt = replicate SALT_LEN 3; params = fast_params; pw = utf8 (lit ''pw'') in
      run_then (ls_create E (c 0) path pw salt params 0 None fs) (\<lambda>_ fs.
      \<not> is_ok (fst (ls_create E (c 1) path pw salt params 0 None fs))))"

definition test_save_is_atomic_and_leaves_no_temp_file :: "vault_env \<Rightarrow> (nat \<Rightarrow> op_env) \<Rightarrow> rstr \<Rightarrow> fs \<Rightarrow> bool" where
  "test_save_is_atomic_and_leaves_no_temp_file E c path fs \<longleftrightarrow>
     (let salt = replicate SALT_LEN 3; params = fast_params; pw = utf8 (lit ''pw'') in
      run_then (ls_create E (c 0) path pw salt params 0 None fs) (\<lambda>store fs.
      run_then (ls_put_secret E (c 1) (lit ''k'') (utf8 (lit ''v1'')) (store, fs)) (\<lambda>_ (store, fs).
      run_then (ls_put_secret E (c 2) (lit ''k'') (utf8 (lit ''v2'')) (store, fs)) (\<lambda>_ (store, fs).
      fs (path @ lit ''.tmp'') = None
      \<and> unwrap_then (ls_open E (c 3) path pw None fs) (\<lambda>reopened.
          unwrap_then (ls_get_secret E reopened (lit ''k'')) (\<lambda>r. some_then r (\<lambda>v. v = utf8 (lit ''v2''))))))))"

text \<open>The message that is looked for is that of \<open>ArgonMemoryRange\<close>.\<close>

definition test_open_rejects_hostile_header_without_deriving :: "vault_env \<Rightarrow> op_env \<Rightarrow> rstr \<Rightarrow> fs \<Rightarrow> bool" where
  "test_open_rejects_hostile_header_without_deriving E c path fs \<longleftrightarrow>
     (let header = MAGIC @ [HEADER_VERSION] @ replicate 32 0 @ to_le 4 (1 :: u32) @ to_le 4 (MAX_ARGON_MEMORY_KIB + 1)
                   @ to_le 4 (1 :: u32) @ replicate (HEADER_LEN + 16 - 49) 0 in
      (case ls_open E c path (utf8 (lit ''pw'')) None (fs(path \<mapsto> header)) of
         Inl (ArgonMemoryRange m) \<Rightarrow> True
       | _ \<Rightarrow> False))"

definition test_create_rejects_hostile_kdf_params :: "vault_env \<Rightarrow> op_env \<Rightarrow> rstr \<Rightarrow> fs \<Rightarrow> bool" where
  "test_create_rejects_hostile_kdf_params E c path fs \<longleftrightarrow>
     (let salt = replicate SALT_LEN 3;
          huge = \<lparr>argon_time = 1, argon_memory = MAX_ARGON_MEMORY_KIB + 1, argon_threads = 1\<rparr> in
      (case ls_create E c path (utf8 (lit ''pw'')) salt huge 0 None fs of (r, fs) \<Rightarrow> \<not> is_ok r \<and> fs path = None))"

definition test_put_secret_rejects_control_character_names :: "vault_env \<Rightarrow> (nat \<Rightarrow> op_env) \<Rightarrow> rstr \<Rightarrow> fs \<Rightarrow> bool" where
  "test_put_secret_rejects_control_character_names E c path fs \<longleftrightarrow>
     (let salt = replicate SALT_LEN 3; params = fast_params; pw = utf8 (lit ''pw'') in
      run_then (ls_create E (c 0) path pw salt params 0 None fs) (\<lambda>store fs.
      \<not> is_ok (fst (ls_put_secret E (c 1) (lit ''bad'' @ [rchr 10] @ lit ''name'') (utf8 (lit ''v'')) (store, fs)))))"

subsection \<open>A machine on which nothing fails\<close>

text \<open>
  The crates work, and a vault of a few short secrets is far below the size that \<open>open\<close> accepts.
\<close>

definition small :: "nat \<Rightarrow> local_store \<Rightarrow> bool" where
  "small n st \<longleftrightarrow> length (st_entries st) \<le> n
     \<and> (\<forall>(k, e)\<in>set (st_entries st). length (utf8 k) \<le> 64 \<and> length (encrypted_value e) \<le> 1024)"

definition machine :: "vault_env \<Rightarrow> bool" where
  "machine E \<longleftrightarrow> env_good E \<and> seals E \<and> kdf_runs (v_crates E) fast_params
     \<and> (\<forall>mk vk r p a ct. value_key (v_crates E) mk = Inr vk \<longrightarrow> length p \<le> 64 \<longrightarrow> length a \<le> 64 \<longrightarrow>
          encrypt_aad (v_crates E) vk r p a = Inr ct \<longrightarrow> length ct \<le> 1024)
     \<and> (\<forall>c pw st bs. keyed E pw None st \<longrightarrow> entries_wf (st_entries st) \<longrightarrow> small 8 st \<longrightarrow>
          vault_bytes E c st = Inr bs \<longrightarrow> length bs \<le> MAX_VAULT_LEN)"

definition held :: "vault_env \<Rightarrow> bytes \<Rightarrow> rstr \<Rightarrow> nat \<Rightarrow> local_store \<times> fs \<Rightarrow> bool" where
  "held E pw path n = (\<lambda>(st, fs). keyed E pw None st \<and> entries_wf (st_entries st) \<and> st_path st = path \<and> small n st
     \<and> (\<exists>c bs. vault_bytes E c st = Inr bs \<and> fs path = Some bs) \<and> fs (tmp_path path) = None)"

lemma small_mono: "small m st \<Longrightarrow> m \<le> n \<Longrightarrow> small n st"
  by (simp add: small_def)

lemma held_mono: "held E pw path m s \<Longrightarrow> m \<le> n \<Longrightarrow> held E pw path n s"
  by (auto simp: held_def intro: small_mono)

lemma fast_params_valid: "n \<le> MAX_VDF_ITERATIONS \<Longrightarrow> validate_kdf_params fast_params n = Inr ()"
  by (simp add: validate_kdf_params_def fast_params_def)

lemma created_held:
  assumes "machine E" "fs path = None" "no_faults c" "length salt = 32" "vdf \<le> MAX_VDF_ITERATIONS"
  shows "\<exists>st fs'. ls_create E c path pw salt fast_params vdf None fs = (Inr st, fs') \<and> held E pw path 0 (st, fs')
    \<and> st_entries st = []"
proof -
  have v: "validate_kdf_params fast_params vdf = Inr ()" using assms(5) by (rule fast_params_valid)
  obtain mk where mk: "derive_key (v_crates E) pw salt fast_params vdf None = Inr mk"
    using derive_key_runs [of "v_crates E" fast_params salt vdf pw None] assms by (auto simp: machine_def is_ok_iff not_less)
  let ?st = "\<lparr>st_path = path, st_master_key = mk, st_header = \<lparr>h_salt = salt, h_params = fast_params, h_vdf_iterations = vdf\<rparr>,
    st_entries = []\<rparr>"
  obtain bs where bs: "vault_bytes E c ?st = Inr bs" using seals_bytes [of E c ?st] assms(1) by (auto simp: machine_def)
  note sv = ls_save_ok [OF assms(3) bs, of "fs(path \<mapsto> [])"]
  have "ls_create E c path pw salt fast_params vdf None fs = (Inr ?st, (fs(path \<mapsto> []))(path \<mapsto> bs, tmp_path path := None))"
    using assms(2-4) v mk sv by (simp add: ls_create_def SALT_LEN_def no_faults_def)
  moreover have "held E pw path 0 (?st, (fs(path \<mapsto> []))(path \<mapsto> bs, tmp_path path := None))"
    using bs v mk assms(4) by (auto simp: held_def keyed_def header_ok_def entries_wf_def small_def)
  ultimately show ?thesis by auto
qed

lemma set_held:
  assumes "machine E" "held E pw path n (st, fs)" "no_faults c" "length (utf8 k) \<le> 64" "length v \<le> 1024"
  shows "\<exists>fs'. ls_set E c k v (st, fs)
      = (Inr (), st\<lparr>st_entries := AList.update k \<lparr>entry_name = k, encrypted_value = v\<rparr> (st_entries st)\<rparr>, fs')
    \<and> held E pw path (Suc n) (st\<lparr>st_entries := AList.update k \<lparr>entry_name = k, encrypted_value = v\<rparr> (st_entries st)\<rparr>, fs')"
proof -
  let ?st = "st\<lparr>st_entries := AList.update k \<lparr>entry_name = k, encrypted_value = v\<rparr> (st_entries st)\<rparr>"
  obtain bs where bs: "vault_bytes E c ?st = Inr bs" using seals_bytes [of E c ?st] assms(1) by (auto simp: machine_def)
  have len: "length (AList.update k e xs) \<le> Suc (length xs)" for e :: secret_entry and xs by (induction xs) auto
  have upd: "set (AList.update k e xs) \<subseteq> insert (k, e) (set xs)" for e :: secret_entry and xs by (induction xs) auto
  have "small (Suc n) ?st"
    using assms(2,4,5) len [of _ "st_entries st"] order_trans [OF len Suc_le_mono [THEN iffD2]]
    by (auto simp: held_def small_def dest!: subsetD [OF upd])
  moreover have "keyed E pw None ?st" using assms(2) by (simp add: held_def keyed_def)
  moreover have "entries_wf (st_entries ?st)" using assms(2) entries_wf_update by (simp add: held_def)
  ultimately show ?thesis
    using ls_save_ok [OF assms(3) bs, of fs] bs assms(2)
    by (intro exI [of _ "fs(path \<mapsto> bs, tmp_path path := None)"]) (auto simp: held_def ls_set_def Let_def)
qed

lemma opened_held:
  assumes "machine E" "held E pw path n (st, fs)" "n \<le> 8" "no_faults c"
  shows "\<exists>st'. ls_open E c path pw None fs = Inr st' \<and> same_vault st' st \<and> entries_wf (st_entries st')"
proof -
  obtain c' bs where "vault_bytes E c' st = Inr bs" "fs (st_path st) = Some bs" "length bs \<le> MAX_VAULT_LEN"
    using assms(1-3) by (auto simp: held_def machine_def dest: small_mono [of n st 8])
  then show ?thesis
    using ls_open_vault_bytes [of E pw None st c' bs fs c] assms by (auto simp: held_def machine_def no_faults_def)
qed

text \<open>The instance of \<open>TuiDisk\<close> is such a machine.\<close>

lemma length_put_entries_small:
  "\<forall>e\<in>set es. length (utf8 (entry_name e)) \<le> 64 \<and> length (encrypted_value e) \<le> 1024
    \<Longrightarrow> length (put_entries es) \<le> 1 + 2179 * length es"
  by (induction es) auto

lemma sure_machine: "machine sure_vault"
proof -
  have kdf: "kdf_runs (v_crates sure_vault) fast_params"
    by (simp add: kdf_runs_def sure_vault_def demo_vault_def demo_crates_simps)
  have vk: "length vk = 32" if "value_key (v_crates sure_vault) mk = Inr vk" for mk vk
    using that by (auto simp: value_key_def sure_vault_def demo_vault_def demo_crates_simps)
  have "length bs \<le> MAX_VAULT_LEN"
    if k: "keyed sure_vault pw None st" and wf: "entries_wf (st_entries st)" and sm: "small 8 st"
      and bs: "vault_bytes sure_vault c st = Inr bs" for c pw st bs
  proof -
    have mk: "length (st_master_key st) = 32"
      using k by (auto simp: keyed_def derive_key_def sure_vault_def demo_vault_def demo_crates_simps Let_def
          simp del: lit_simps utf8_simps split: if_splits dest!: arg_cong [where f = length])
    have salt: "length (h_salt (st_header st)) = 32" using k by (simp add: keyed_def header_ok_def)
    have "length (put_entries (map snd (st_entries st))) \<le> 1 + 2179 * 8"
      using sm wf length_put_entries_small [of "map snd (st_entries st)"]
      by (fastforce simp: small_def entries_wf_def)
    with bs mk salt show ?thesis
      by (auto simp: vault_bytes_def sure_vault_def demo_vault_def demo_crates_simps entries_codec_def MAX_VAULT_LEN_def Let_def)
  qed
  then show ?thesis
    using sure_vault_ok kdf vk unfolding machine_def by (auto simp: sure_vault_def demo_vault_def demo_crates_simps)
qed

lemma value_key_runs: "kdf_runs X p \<Longrightarrow> is_ok (value_key X mk)"
proof -
  assume "kdf_runs X p"
  then have "is_ok (hkdf_sha512 X None mk (utf8 (lit ''simple-secrets/value-key/v1'')) 32)" unfolding kdf_runs_def by blast
  then show ?thesis by (auto simp: value_key_def is_ok_iff simp del: lit_simps utf8_simps)
qed

lemma put_held:
  assumes "machine E" "held E pw path n (st, fs)" "no_faults c" "valid_name k" "length (utf8 k) \<le> 64" "length v \<le> 64"
  shows "\<exists>st' fs'. ls_put_secret E c k v (st, fs) = (Inr (), st', fs') \<and> held E pw path (Suc n) (st', fs')
    \<and> (\<forall>j. ls_get_secret E st' j = (if j = k then Inr (Some v) else ls_get_secret E st j))"
proof -
  obtain vk where vk: "value_key (v_crates E) (st_master_key st) = Inr vk"
    using value_key_runs [of "v_crates E" fast_params "st_master_key st"] assms(1) by (auto simp: machine_def is_ok_iff)
  obtain ct where ct: "encrypt_aad (v_crates E) vk (value_nonce c) v (utf8 k) = Inr ct"
    using assms(1) unfolding machine_def seals_def is_ok_iff by blast
  with vk have "length ct \<le> 1024" using assms(1,5,6) unfolding machine_def by blast
  with set_held [OF assms(1-3,5)] obtain st' fs' where
    s: "ls_set E c k ct (st, fs) = (Inr (), st', fs')" "held E pw path (Suc n) (st', fs')" by metis
  have val: "validate_secret_name k = Inr ()" using assms(4) by simp
  have "ls_put_secret E c k v (st, fs) = (Inr (), st', fs')" using s(1) vk ct by (simp add: ls_put_secret_def val)
  with s ls_put_get [OF _ this] assms(1) show ?thesis by (auto simp: machine_def env_good_def)
qed

lemma short_ascii: "is_ascii_str s \<Longrightarrow> length s \<le> 64 \<Longrightarrow> length (utf8 s) \<le> 64"
  by (simp add: length_utf8_ascii)

subsection \<open>The tests of the vault file hold\<close>

lemma create_persists_and_reopens_with_only_passphrase:
  assumes "machine E" "\<forall>i. no_faults (c i)" "fs path = None"
  shows "test_create_persists_and_reopens_with_only_passphrase E c path fs"
proof -
  let ?pw = "utf8 (lit ''pw'')" and ?v = "utf8 (lit ''ciphertext'')"
  obtain st fs1 where 1: "ls_create E (c 0) path ?pw (replicate SALT_LEN 3) fast_params 4 None fs = (Inr st, fs1)"
      "held E ?pw path 0 (st, fs1)" "st_entries st = []"
    using created_held [of E fs path "c 0" "replicate SALT_LEN 3" 4 ?pw] assms
    by (auto simp: SALT_LEN_def MAX_VDF_ITERATIONS_def simp del: lit_simps utf8_simps)
  have len: "length (utf8 (lit ''k'')) \<le> 64" "length ?v \<le> 1024" by (simp_all add: ascii_def encode_utf8_ascii)
  obtain st2 fs2 where 2: "ls_set E (c 1) (lit ''k'') ?v (st, fs1) = (Inr (), st2, fs2)" "held E ?pw path 1 (st2, fs2)"
      "ls_get st2 (lit ''k'') = Some ?v"
    using set_held [OF assms(1) 1(2) _ len, of "c 1"] assms(2) ls_get_update [of "lit ''k''" ?v st]
    by (auto simp del: lit_simps utf8_simps)
  obtain st3 where 3: "ls_open E (c 2) path ?pw None fs2 = Inr st3" "same_vault st3 st2"
    using opened_held [OF assms(1) 2(2), of "c 2"] assms(2) by auto
  have "ls_get st3 (lit ''k'') = Some ?v" using 2(3) 3(2) by (simp add: ls_get_def same_vault_def)
  with 1(1) 2(1) 3(1) show ?thesis
    by (simp add: test_create_persists_and_reopens_with_only_passphrase_def Let_def del: lit_simps utf8_simps)
qed

lemma created_for_test:
  fixes fs :: fs
  assumes "machine E" "\<forall>i. no_faults (c i)" "fs path = None"
  obtains st fs1 where
    "ls_create E (c 0) path (utf8 (lit ''pw'')) (replicate SALT_LEN 3) fast_params 0 None fs = (Inr st, fs1)"
    "held E (utf8 (lit ''pw'')) path 0 (st, fs1)" "st_entries st = []"
  using created_held [of E fs path "c 0" "replicate SALT_LEN 3" 0 "utf8 (lit ''pw'')"] assms
  by (auto simp: SALT_LEN_def simp del: lit_simps utf8_simps)

lemma create_refuses_to_clobber:
  assumes "machine E" "\<forall>i. no_faults (c i)" "fs path = None"
  shows "test_create_refuses_to_clobber E c path fs"
proof (rule created_for_test [of E c fs path, OF assms])
  let ?pw = "utf8 (lit ''pw'')" and ?salt = "replicate SALT_LEN 3"
  fix st fs1 assume 1: "ls_create E (c 0) path ?pw ?salt fast_params 0 None fs = (Inr st, fs1)" "held E ?pw path 0 (st, fs1)"
  from 1(2) have "fs1 path \<noteq> None" by (auto simp: held_def)
  then have "\<not> is_ok (fst (ls_create E (c 1) path ?pw ?salt fast_params 0 None fs1))"
    by (simp add: ls_create_def fast_params_valid)
  with 1(1) show ?thesis by (simp add: test_create_refuses_to_clobber_def Let_def del: lit_simps utf8_simps One_nat_def)
qed

lemma save_is_atomic_and_leaves_no_temp_file:
  assumes "machine E" "\<forall>i. no_faults (c i)" "fs path = None"
  shows "test_save_is_atomic_and_leaves_no_temp_file E c path fs"
proof (rule created_for_test [of E c fs path, OF assms])
  let ?pw = "utf8 (lit ''pw'')" and ?salt = "replicate SALT_LEN 3" and ?k = "lit ''k''"
  fix st fs1 assume 1: "ls_create E (c 0) path ?pw ?salt fast_params 0 None fs = (Inr st, fs1)" "held E ?pw path 0 (st, fs1)"
  have k: "valid_name ?k" "length (utf8 ?k) \<le> 64" "length (utf8 (lit ''v1'')) \<le> 64" "length (utf8 (lit ''v2'')) \<le> 64"
    using demo_valid by (simp_all add: ascii_def encode_utf8_ascii)
  obtain st2 fs2 where 2: "ls_put_secret E (c 1) ?k (utf8 (lit ''v1'')) (st, fs1) = (Inr (), st2, fs2)" "held E ?pw path 1 (st2, fs2)"
    using put_held [OF assms(1) 1(2) _ k(1-3), of "c 1"] assms(2) by auto
  obtain st3 fs3 where 3: "ls_put_secret E (c 2) ?k (utf8 (lit ''v2'')) (st2, fs2) = (Inr (), st3, fs3)"
      "held E ?pw path 2 (st3, fs3)" "ls_get_secret E st3 ?k = Inr (Some (utf8 (lit ''v2'')))"
    using put_held [OF assms(1) 2(2) _ k(1,2,4), of "c 2"] assms(2) by (auto simp: numeral_2_eq_2)
  obtain st4 where 4: "ls_open E (c 3) path ?pw None fs3 = Inr st4" "same_vault st4 st3"
    using opened_held [OF assms(1) 3(2), of "c 3"] assms(2) by auto
  have "fs3 (path @ lit ''.tmp'') = None" using 3(2) by (simp add: held_def tmp_path_def)
  with 1(1) 2(1) 3(1,3) 4(1) same_vault_get [OF 4(2), of E ?k] show ?thesis
    by (simp add: test_save_is_atomic_and_leaves_no_temp_file_def Let_def del: lit_simps utf8_simps One_nat_def)
qed

lemma open_rejects_hostile_header_without_deriving:
  assumes "no_faults c"
  shows "test_open_rejects_hostile_header_without_deriving E c path fs"
proof -
  let ?h = "\<lparr>h_salt = replicate 32 0, h_params = \<lparr>argon_time = 1, argon_memory = MAX_ARGON_MEMORY_KIB + 1, argon_threads = 1\<rparr>,
    h_vdf_iterations = 0\<rparr>"
  let ?data = "MAGIC @ [HEADER_VERSION] @ replicate 32 0 @ to_le 4 (1 :: u32) @ to_le 4 (MAX_ARGON_MEMORY_KIB + 1)
                   @ to_le 4 (1 :: u32) @ replicate (HEADER_LEN + 16 - 49) 0"
  have "replicate 24 (0 :: byte) = to_le 8 (0 :: u64) @ replicate 16 0" by (simp add: numeral_eq_Suc)
  then have "?data = header_to_bytes ?h @ replicate 16 0" by (simp add: header_to_bytes_def header_consts)
  then have "header_parse ?data = Inl (ArgonMemoryRange (MAX_ARGON_MEMORY_KIB + 1))"
    by (simp only: header_parse_encoded) (simp add: header_parse_encoded validate_kdf_params_def)
  moreover have "\<not> length ?data > MAX_VAULT_LEN" by (simp add: MAX_VAULT_LEN_def header_consts)
  ultimately show ?thesis
    using assms by (simp add: test_open_rejects_hostile_header_without_deriving_def ls_open_def no_faults_def Let_def
        del: MAX_ARGON_MEMORY_KIB_def lit_simps utf8_simps)
qed

lemma create_rejects_hostile_kdf_params: "fs path = None \<Longrightarrow> test_create_rejects_hostile_kdf_params E c path fs"
  by (simp add: test_create_rejects_hostile_kdf_params_def ls_create_def validate_kdf_params_def Let_def)

lemma put_secret_rejects_control_character_names:
  assumes "machine E" "\<forall>i. no_faults (c i)" "fs path = None"
  shows "test_put_secret_rejects_control_character_names E c path fs"
proof (rule created_for_test [of E c fs path, OF assms])
  let ?bad = "lit ''bad'' @ [rchr 10] @ lit ''name''"
  fix st fs1 assume "ls_create E (c 0) path (utf8 (lit ''pw'')) (replicate SALT_LEN 3) fast_params 0 None fs = (Inr st, fs1)"
  moreover have "\<exists>e. validate_secret_name ?bad = Inl e"
    by (simp add: validate_secret_name_def is_control_def)
  ultimately show ?thesis
    by (auto simp: test_put_secret_rejects_control_character_names_def ls_put_secret_def Let_def
        simp del: lit_simps utf8_simps One_nat_def)
qed

end
