(* ===== verification/CheckManager.thy ===== *)
theory CheckManager
  imports CheckVault
begin

text \<open>The unit tests of \<open>core/manager.rs\<close>.\<close>

subsection \<open>The tests\<close>

definition test_vault_lifecycle_and_secret_round_trip :: "manager_env \<Rightarrow> (nat \<Rightarrow> op_env) \<Rightarrow> rstr \<Rightarrow> fs \<Rightarrow> bool" where
  "test_vault_lifecycle_and_secret_round_trip M c path fs \<longleftrightarrow>
     (let mgr = manager_new; pw = utf8 (lit ''pw'') in
      \<not> mg_is_unlocked mgr
      \<and> (case mg_put_secret M (c 0) (lit ''k'') (utf8 (lit ''v'')) (mgr, fs) of
           (r, s) \<Rightarrow> \<not> is_ok r
             \<and> run_then (mg_create_vault M (c 1) path pw fast_params 0 None s) (\<lambda>_ s.
                 mg_is_unlocked (fst s)
                 \<and> run_then (mg_put_secret M (c 2) (lit ''api-token'') (utf8 (lit ''hunter2'')) s) (\<lambda>_ s.
                   run_then (mg_put_secret M (c 3) (lit ''ssh'') (utf8 (lit ''key-bytes'')) s) (\<lambda>_ (mgr, fs).
                   unwrap_then (mg_secret_names M mgr) (\<lambda>names.
                     sort names = [lit ''api-token'', lit ''ssh'']
                     \<and> (let mgr = mg_lock mgr in
                        \<not> mg_is_unlocked mgr
                        \<and> run_then (mg_open_vault M (c 4) path pw None (mgr, fs)) (\<lambda>_ (mgr, fs).
                            unwrap_then (mg_get_secret M mgr (lit ''api-token'')) (\<lambda>r.
                            some_then r (\<lambda>v. v = utf8 (lit ''hunter2'')))))))))))"

definition test_delete_secret_removes_and_persists :: "manager_env \<Rightarrow> (nat \<Rightarrow> op_env) \<Rightarrow> rstr \<Rightarrow> fs \<Rightarrow> bool" where
  "test_delete_secret_removes_and_persists M c path fs \<longleftrightarrow>
     (let mgr = manager_new; pw = utf8 (lit ''pw'') in
      (case mg_delete_secret M (c 0) (lit ''x'') (mgr, fs) of
         (r, s) \<Rightarrow> \<not> is_ok r
           \<and> run_then (mg_create_vault M (c 1) path pw fast_params 0 None s) (\<lambda>_ s.
             run_then (mg_put_secret M (c 2) (lit ''keep'') (utf8 (lit ''1'')) s) (\<lambda>_ s.
             run_then (mg_put_secret M (c 3) (lit ''drop'') (utf8 (lit ''2'')) s) (\<lambda>_ s.
             run_then (mg_delete_secret M (c 4) (lit ''drop'') s) (\<lambda>existing s. existing
               \<and> run_then (mg_delete_secret M (c 5) (lit ''drop'') s) (\<lambda>existing (mgr, fs). \<not> existing
                   \<and> run_then (mg_open_vault M (c 6) path pw None (mg_lock mgr, fs)) (\<lambda>_ (mgr, fs).
                       unwrap_then (mg_secret_names M mgr) (\<lambda>names. names = [lit ''keep''])
                       \<and> unwrap_then (mg_get_secret M mgr (lit ''drop'')) (\<lambda>r. r = None)))))))))"

definition test_generates_passphrase_of_requested_length :: "manager_env \<Rightarrow> bool" where
  "test_generates_passphrase_of_requested_length M \<longleftrightarrow>
     unwrap_then (generate_passphrase M 0 20) (\<lambda>phrase.
       length (split_on (ascii CHR '' '') phrase) = 20 \<and> list_all (\<lambda>w. w \<noteq> []) (split_on (ascii CHR '' '') phrase))"

definition test_generates_password_of_requested_length_and_charset :: "manager_env \<Rightarrow> bool" where
  "test_generates_password_of_requested_length_and_charset M \<longleftrightarrow>
     (let charset = utf8 (lit ''ABCDEFGHJKLMNPQRSTUVWXYZ23456789'') in
      some_then (generate_password M 0 40 charset) (\<lambda>(r, calls).
        unwrap_then r (\<lambda>pw. length (utf8 pw) = 40 \<and> list_all (\<lambda>b. b \<in> set charset) (utf8 pw))
        \<and> some_then (generate_password M calls 8 []) (\<lambda>(r, calls). \<not> is_ok r)))"

definition test_ram_secrets_are_isolated_from_vault :: bool where
  "test_ram_secrets_are_isolated_from_vault \<longleftrightarrow>
     (let mgr = mg_put_ram (lit ''session'') (utf8 (lit ''in-ram'')) manager_new in
      mg_get_ram mgr (lit ''session'') \<noteq> None \<and> mg_get_ram (mg_clear_ram mgr) (lit ''session'') = None)"

definition test_share_and_reconstruct_through_manager :: "manager_env \<Rightarrow> byte stream \<Rightarrow> (nat \<Rightarrow> bytes) \<Rightarrow> bool" where
  "test_share_and_reconstruct_through_manager M rng nonces \<longleftrightarrow>
     (let keys = map (\<lambda>i. replicate 32 (word_of_nat i + 1)) [0..<3]; secret = utf8 (lit ''shared secret'') in
      unwrap_then (mg_share_secret M rng nonces secret 2 3 keys) (\<lambda>split.
      unwrap_then (mg_reconstruct_secret M (blobs split) keys (commitments split)) (\<lambda>recovered. recovered = secret)))"

subsection \<open>A manager on a machine on which nothing fails\<close>

definition holds :: "manager_env \<Rightarrow> bytes \<Rightarrow> rstr \<Rightarrow> nat \<Rightarrow> (rstr \<rightharpoonup> bytes) \<Rightarrow> manager \<times> fs \<Rightarrow> bool" where
  "holds M pw path n m = (\<lambda>(mg, fs). \<exists>st. mg_vault mg = Some st \<and> held (m_vault_env M) pw path n (st, fs)
     \<and> (\<forall>k. ls_get_secret (m_vault_env M) st k = Inr (m k)))"

definition reads :: "manager_env \<Rightarrow> (rstr \<rightharpoonup> bytes) \<Rightarrow> manager \<Rightarrow> bool" where
  "reads M m mg \<longleftrightarrow> (\<exists>st. mg_vault mg = Some st \<and> entries_wf (st_entries st)
     \<and> (\<forall>k. ls_get_secret (m_vault_env M) st k = Inr (m k)))"

lemma holds_reads: "holds M pw path n m (mg, fs) \<Longrightarrow> reads M m mg"
  by (auto simp: holds_def reads_def held_def)

lemma reads_get: "reads M m mg \<Longrightarrow> mg_get_secret M mg k = Inr (m k)"
  by (auto simp: reads_def mg_get_secret_def)

lemma reads_unlocked: "reads M m mg \<Longrightarrow> mg_is_unlocked mg"
  by (auto simp: reads_def mg_is_unlocked_def)

lemma reads_names:
  assumes "machine (m_vault_env M)" "reads M m mg"
  shows "\<exists>names. mg_secret_names M mg = Inr names \<and> distinct names \<and> set names = dom m"
proof -
  obtain st where "mg_vault mg = Some st" "entries_wf (st_entries st)" "\<forall>k. ls_get_secret (m_vault_env M) st k = Inr (m k)"
    using assms(2) by (auto simp: reads_def)
  then show ?thesis
    using sorted_names [of "m_vault_env M" st] assms(1)
    by (auto simp: mg_secret_names_def machine_def env_good_def dom_def)
qed

lemma created_holds:
  assumes "machine (m_vault_env M)" "fs path = None" "no_faults c" "is_ok (random_bytes M (mg_calls mg) 32)"
  obtains mg' fs' where "mg_create_vault M c path pw fast_params 0 None (mg, fs) = (Inr (), mg', fs')"
    "holds M pw path 0 Map.empty (mg', fs')"
proof -
  obtain salt where s: "random_bytes M (mg_calls mg) 32 = Inr salt" using assms(4) by (auto simp: is_ok_iff)
  have "length salt = 32" using s by (auto simp: random_bytes_def res_simps)
  then obtain st fs' where "ls_create (m_vault_env M) c path pw salt fast_params 0 None fs = (Inr st, fs')"
    "held (m_vault_env M) pw path 0 (st, fs')" "st_entries st = []"
    using created_held [of "m_vault_env M" fs path c salt 0 pw] assms(1-3) by auto
  with s that show thesis
    by (auto simp: mg_create_vault_def holds_def ls_get_secret_def ls_get_def)
qed

lemma put_holds:
  assumes "machine (m_vault_env M)" "holds M pw path n m (mg, fs)" "no_faults c"
    and "valid_name k" "length (utf8 k) \<le> 64" "length v \<le> 64"
  obtains mg' fs' where "mg_put_secret M c k v (mg, fs) = (Inr (), mg', fs')" "holds M pw path (Suc n) (m(k \<mapsto> v)) (mg', fs')"
proof -
  obtain st where st: "mg_vault mg = Some st" "held (m_vault_env M) pw path n (st, fs)"
      "\<forall>k. ls_get_secret (m_vault_env M) st k = Inr (m k)"
    using assms(2) by (auto simp: holds_def)
  from put_held [OF assms(1) st(2) assms(3-6)] obtain st' fs' where
    "ls_put_secret (m_vault_env M) c k v (st, fs) = (Inr (), st', fs')" "held (m_vault_env M) pw path (Suc n) (st', fs')"
    "\<forall>j. ls_get_secret (m_vault_env M) st' j = (if j = k then Inr (Some v) else ls_get_secret (m_vault_env M) st j)"
    by blast
  with st that show thesis by (auto simp: mg_put_secret_def holds_def)
qed

lemma delete_held:
  assumes "machine E" "held E pw path n (st, fs)" "no_faults c" "ls_get st k \<noteq> None"
  shows "\<exists>st' fs'. ls_delete_secret E c k (st, fs) = (Inr True, st', fs') \<and> held E pw path n (st', fs')
    \<and> (\<forall>j. ls_get_secret E st' j = (if j = k then Inr None else ls_get_secret E st j))"
proof -
  let ?st = "st\<lparr>st_entries := AList.delete k (st_entries st)\<rparr>"
  obtain bs where bs: "vault_bytes E c ?st = Inr bs" using seals_bytes [of E c ?st] assms(1) by (auto simp: machine_def)
  have "small n ?st"
    using assms(2) by (auto simp: held_def small_def AList.delete_eq intro: order_trans [OF length_filter_le])
  moreover have "keyed E pw None ?st" using assms(2) by (simp add: held_def keyed_def)
  moreover have "entries_wf (st_entries ?st)" using assms(2) entries_wf_delete by (simp add: held_def)
  moreover have "map_of (st_entries st) k \<noteq> None" using assms(4) by (simp add: ls_get_def)
  ultimately show ?thesis
    using ls_save_ok [OF assms(3) bs, of fs] bs assms(2) ls_get_delete [of k st]
    by (intro exI [of _ ?st] exI [of _ "fs(path \<mapsto> bs, tmp_path path := None)"])
      (auto simp: held_def ls_delete_secret_def Let_def ls_get_secret_def cong: option.case_cong)
qed

lemma delete_holds:
  assumes "machine (m_vault_env M)" "holds M pw path n m (mg, fs)" "no_faults c"
  obtains mg' fs' where "mg_delete_secret M c k (mg, fs) = (Inr (m k \<noteq> None), mg', fs')" "holds M pw path n (m(k := None)) (mg', fs')"
proof -
  obtain st where st: "mg_vault mg = Some st" "held (m_vault_env M) pw path n (st, fs)"
      "\<forall>k. ls_get_secret (m_vault_env M) st k = Inr (m k)"
    using assms(2) by (auto simp: holds_def)
  have there: "m k = None \<longleftrightarrow> ls_get st k = None" using st(3) ls_get_secret_None_iff [of "m_vault_env M" st k] by auto
  show thesis
  proof (cases "ls_get st k = None")
    case True
    then have "ls_delete_secret (m_vault_env M) c k (st, fs) = (Inr False, st, fs)" by (simp add: ls_delete_secret_def ls_get_def)
    moreover have "m(k := None) = m" using there True by auto
    ultimately show thesis using that [of mg fs] st there True by (simp add: mg_delete_secret_def holds_def)
  next
    case False
    from delete_held [OF assms(1) st(2) assms(3) False] obtain st' fs' where
      "ls_delete_secret (m_vault_env M) c k (st, fs) = (Inr True, st', fs')" "held (m_vault_env M) pw path n (st', fs')"
      "\<forall>j. ls_get_secret (m_vault_env M) st' j = (if j = k then Inr None else ls_get_secret (m_vault_env M) st j)"
      by blast
    with st that there False show thesis by (auto simp: mg_delete_secret_def holds_def)
  qed
qed

lemma reopened_reads:
  assumes "machine (m_vault_env M)" "holds M pw path n m (mg, fs)" "n \<le> 8" "no_faults c"
  obtains mg' where "mg_open_vault M c path pw None (locked, fs) = (Inr (), mg', fs)" "reads M m mg'"
proof -
  obtain st where st: "held (m_vault_env M) pw path n (st, fs)" "\<forall>k. ls_get_secret (m_vault_env M) st k = Inr (m k)"
    using assms(2) by (auto simp: holds_def)
  from opened_held [OF assms(1) st(1) assms(3,4)] obtain st' where
    "ls_open (m_vault_env M) c path pw None fs = Inr st'" "same_vault st' st" "entries_wf (st_entries st')" by blast
  with st(2) same_vault_get [of st' st] that show thesis by (auto simp: mg_open_vault_def reads_def)
qed

subsection \<open>The tests hold\<close>

lemma short_name: "is_ascii_str s \<Longrightarrow> s \<noteq> [] \<Longrightarrow> length s \<le> 64 \<Longrightarrow> \<forall>c\<in>set s. 32 \<le> code_point c \<and> code_point c < 127
    \<Longrightarrow> valid_name s \<and> length (utf8 s) \<le> 64"
  by (simp add: valid_name_ascii length_utf8_ascii)

lemma sorted_is: "distinct xs \<Longrightarrow> set xs = set ys \<Longrightarrow> sorted ys \<Longrightarrow> distinct ys \<Longrightarrow> sort xs = (ys :: rstr list)"
  by (rule sorted_distinct_set_unique) simp_all

lemma vault_lifecycle_and_secret_round_trip:
  assumes "machine (m_vault_env M)" "\<forall>i. no_faults (c i)" "fs path = None" "is_ok (random_bytes M 0 32)"
  shows "test_vault_lifecycle_and_secret_round_trip M c path fs"
proof -
  let ?pw = "utf8 (lit ''pw'')" and ?a = "lit ''api-token''" and ?s = "lit ''ssh''"
  have put: "mg_put_secret M (c 0) (lit ''k'') (utf8 (lit ''v'')) (manager_new, fs) = (Inl VaultLocked, manager_new, fs)"
    by (simp add: mg_put_secret_def manager_new_def)
  have names: "valid_name ?a" "length (utf8 ?a) \<le> 64" "valid_name ?s" "length (utf8 ?s) \<le> 64"
    using short_name [of ?a] short_name [of ?s] by (simp_all add: is_ascii_str_def ascii_def)
  have vals: "length (utf8 (lit ''hunter2'')) \<le> 64" "length (utf8 (lit ''key-bytes'')) \<le> 64"
    by (simp_all add: ascii_def encode_utf8_ascii)
  have c: "no_faults (c i)" for i using assms(2) by simp
  have "is_ok (random_bytes M (mg_calls manager_new) 32)" using assms(4) by (simp add: manager_new_def)
  then obtain m1 f1 where 1: "mg_create_vault M (c 1) path ?pw fast_params 0 None (manager_new, fs) = (Inr (), m1, f1)"
      "holds M ?pw path 0 Map.empty (m1, f1)"
    by (rule created_holds [of M fs path "c 1" manager_new ?pw, OF assms(1,3) c])
  obtain m2 f2 where 2: "mg_put_secret M (c 2) ?a (utf8 (lit ''hunter2'')) (m1, f1) = (Inr (), m2, f2)"
      "holds M ?pw path 1 [?a \<mapsto> utf8 (lit ''hunter2'')] (m2, f2)"
    using put_holds [OF assms(1) 1(2) c names(1,2) vals(1), of 2] by auto
  obtain m3 f3 where 3: "mg_put_secret M (c 3) ?s (utf8 (lit ''key-bytes'')) (m2, f2) = (Inr (), m3, f3)"
      "holds M ?pw path 2 [?a \<mapsto> utf8 (lit ''hunter2''), ?s \<mapsto> utf8 (lit ''key-bytes'')] (m3, f3)"
    using put_holds [OF assms(1) 2(2) c names(3,4) vals(2), of 3] by (auto simp: numeral_2_eq_2)
  obtain ns where ns: "mg_secret_names M m3 = Inr ns" "distinct ns" "set ns = {?a, ?s}"
    using reads_names [OF assms(1) holds_reads [OF 3(2)]] by (auto simp del: lit_simps)
  have "sort ns = [?a, ?s]" using ns(2,3) by (intro sorted_is) (simp_all add: ascii_def less_rchar_def)
  moreover obtain m4 where "mg_open_vault M (c 4) path ?pw None (mg_lock m3, f3) = (Inr (), m4, f3)"
      "reads M [?a \<mapsto> utf8 (lit ''hunter2''), ?s \<mapsto> utf8 (lit ''key-bytes'')] m4"
    using reopened_reads [OF assms(1) 3(2) _ assms(2) [rule_format], where locked = "mg_lock m3"] by auto
  moreover have "?a \<noteq> ?s" by simp
  moreover have "\<not> mg_is_unlocked manager_new" by (simp add: mg_is_unlocked_def manager_new_def)
  moreover have "mg_is_unlocked m1" by (rule reads_unlocked [OF holds_reads [OF 1(2)]])
  moreover have "\<not> mg_is_unlocked (mg_lock m3)" by (simp add: mg_is_unlocked_def mg_lock_def)
  ultimately show ?thesis
    using put 1(1) 2(1) 3(1) ns(1) reads_get [of M _ _ ?a]
    by (simp add: test_vault_lifecycle_and_secret_round_trip_def Let_def del: lit_simps utf8_simps One_nat_def)
qed

lemma delete_secret_removes_and_persists:
  assumes "machine (m_vault_env M)" "\<forall>i. no_faults (c i)" "fs path = None" "is_ok (random_bytes M 0 32)"
  shows "test_delete_secret_removes_and_persists M c path fs"
proof -
  let ?pw = "utf8 (lit ''pw'')" and ?k = "lit ''keep''" and ?d = "lit ''drop''"
  have del: "mg_delete_secret M (c 0) (lit ''x'') (manager_new, fs) = (Inl VaultLocked, manager_new, fs)"
    by (simp add: mg_delete_secret_def manager_new_def)
  have names: "valid_name ?k" "length (utf8 ?k) \<le> 64" "valid_name ?d" "length (utf8 ?d) \<le> 64" "?k \<noteq> ?d"
    using short_name [of ?k] short_name [of ?d] by (simp_all add: is_ascii_str_def ascii_def)
  have vals: "length (utf8 (lit ''1'')) \<le> 64" "length (utf8 (lit ''2'')) \<le> 64"
    by (simp_all add: ascii_def encode_utf8_ascii)
  have c: "no_faults (c i)" for i using assms(2) by simp
  have "is_ok (random_bytes M (mg_calls manager_new) 32)" using assms(4) by (simp add: manager_new_def)
  then obtain m1 f1 where 1: "mg_create_vault M (c 1) path ?pw fast_params 0 None (manager_new, fs) = (Inr (), m1, f1)"
      "holds M ?pw path 0 Map.empty (m1, f1)"
    by (rule created_holds [of M fs path "c 1" manager_new ?pw, OF assms(1,3) c])
  obtain m2 f2 where 2: "mg_put_secret M (c 2) ?k (utf8 (lit ''1'')) (m1, f1) = (Inr (), m2, f2)"
      "holds M ?pw path 1 [?k \<mapsto> utf8 (lit ''1'')] (m2, f2)"
    using put_holds [OF assms(1) 1(2) c names(1,2) vals(1), of 2] by auto
  obtain m3 f3 where 3: "mg_put_secret M (c 3) ?d (utf8 (lit ''2'')) (m2, f2) = (Inr (), m3, f3)"
      "holds M ?pw path 2 [?k \<mapsto> utf8 (lit ''1''), ?d \<mapsto> utf8 (lit ''2'')] (m3, f3)"
    using put_holds [OF assms(1) 2(2) c names(3,4) vals(2), of 3] by (auto simp: numeral_2_eq_2)
  obtain m4 f4 where 4: "mg_delete_secret M (c 4) ?d (m3, f3) = (Inr True, m4, f4)"
      "holds M ?pw path 2 [?k \<mapsto> utf8 (lit ''1'')] (m4, f4)"
    using delete_holds [OF assms(1) 3(2) c, of 4 ?d] names(5) by (auto simp: fun_upd_twist simp del: lit_simps)
  obtain m5 f5 where 5: "mg_delete_secret M (c 5) ?d (m4, f4) = (Inr False, m5, f5)"
      "holds M ?pw path 2 [?k \<mapsto> utf8 (lit ''1'')] (m5, f5)"
    using delete_holds [OF assms(1) 4(2) c, of 5 ?d] names(5) by (auto simp: fun_upd_twist simp del: lit_simps)
  obtain m6 where 6: "mg_open_vault M (c 6) path ?pw None (mg_lock m5, f5) = (Inr (), m6, f5)"
      "reads M [?k \<mapsto> utf8 (lit ''1'')] m6"
    using reopened_reads [OF assms(1) 5(2) _ assms(2) [rule_format], where locked = "mg_lock m5"] by auto
  obtain ns where ns: "mg_secret_names M m6 = Inr ns" "distinct ns" "set ns = {?k}"
    using reads_names [OF assms(1) 6(2)] by (auto simp del: lit_simps)
  have "ns = [?k]" using ns(2,3) by (cases ns) (auto simp: subset_singleton_iff simp del: lit_simps)
  with del 1(1) 2(1) 3(1) 4(1) 5(1) 6(1) ns(1) reads_get [OF 6(2), of ?d] names(5) show ?thesis
    by (simp add: test_delete_secret_removes_and_persists_def Let_def del: lit_simps utf8_simps One_nat_def)
qed

lemma split_joined:
  "\<forall>w\<in>set (w # ws). d \<notin> set w \<Longrightarrow> split_on d (w @ concat (map (\<lambda>x. d # x) ws)) = w # ws"
proof (induction ws arbitrary: w)
  case Nil
  then show ?case by (simp add: split_on_no_sep)
next
  case (Cons v ws)
  then show ?case using split_on_append [of d w] by simp
qed

text \<open>The bundled list has 2048 words, without spaces.\<close>

lemma generates_passphrase_of_requested_length:
  assumes "length (default_wordlist (m_wordlist M)) = 2048" "\<forall>w\<in>set (default_wordlist (m_wordlist M)). ascii CHR '' '' \<notin> set w"
    and "is_ok (random_bytes M 0 28)"
  shows "test_generates_passphrase_of_requested_length M"
proof -
  let ?l = "default_wordlist (m_wordlist M)"
  obtain r where r: "random_bytes M 0 28 = Inr r" using assms(3) by (auto simp: is_ok_iff)
  then have "length r = 28" by (auto simp: random_bytes_def res_simps)
  then have s: "select_words ?l 20 r = Inr (words_of ?l 11 20 (take (20 * 11) (bit_stream r)))"
    using assms(1) power_11(1) by (intro select_words_words_of) auto
  let ?ws = "words_of ?l 11 20 (take (20 * 11) (bit_stream r))"
  have len: "length ?ws = 20" by (simp add: words_of_def)
  have "bits_value (take 11 (drop (i * 11) q)) < 2048" for i q
    using bits_value_less [of "take 11 (drop (i * 11) q)"] power_increasing [of "length (take 11 (drop (i * 11) q))" 11 "2::nat"]
    by simp
  then have sub: "set ?ws \<subseteq> set ?l" using assms(1) by (auto simp: words_of_def)
  obtain w ws where w: "?ws = w # ws" using len by (cases ?ws) auto
  then have "generate_passphrase M 0 20 = Inr (w @ concat (map (\<lambda>x. ascii CHR '' '' # x) ws))"
    using r s by (simp add: generate_passphrase_def assms(1) required_random_bytes_def power_11 Let_def del: take_append)
  moreover have "split_on (ascii CHR '' '') (w @ concat (map (\<lambda>x. ascii CHR '' '' # x) ws)) = ?ws"
    using split_joined [of w ws] sub assms(2) unfolding w by auto
  moreover have "[] \<notin> set ?ws" using sub by (auto simp: default_wordlist_def)
  ultimately show ?thesis
    using len by (auto simp: test_generates_passphrase_of_requested_length_def list_all_iff)
qed

lemma utf8_of_ascii: "\<forall>b\<in>set bs. unat b < 128 \<Longrightarrow> utf8 (map (\<lambda>b. rchr (unat b)) bs) = bs"
  by (induction bs) (simp_all add: encode_utf8_ascii as_u8_def)

text \<open>The alphabet of the test has 32 characters, so no byte is rejected.\<close>

lemma generates_password_of_requested_length_and_charset:
  assumes "\<forall>k. is_ok (random_bytes M k 40)"
  shows "test_generates_password_of_requested_length_and_charset M"
proof -
  let ?cs = "utf8 (lit ''ABCDEFGHJKLMNPQRSTUVWXYZ23456789'')"
  have cs: "length ?cs = 32" "\<forall>b\<in>set ?cs. unat b < 128" by (simp_all add: ascii_def encode_utf8_ascii as_u8_def)
  have "\<exists>bs. random_bytes M k 40 = Inr bs \<and> (\<exists>b\<in>set bs. unat b < 256)" for k
  proof -
    obtain bs where bs: "random_bytes M k 40 = Inr bs" using assms by (auto simp: is_ok_iff)
    then have "length bs = 40" by (auto simp: random_bytes_def res_simps)
    then have "hd bs \<in> set bs" by (cases bs) auto
    moreover have "unat (hd bs) < 256" using unsigned_less [of "hd bs"] by simp
    ultimately show ?thesis using bs by blast
  qed
  then have "productive M 256 40" using assms by (auto simp: productive_def)
  then obtain r k where r: "password_loop M ?cs 32 256 40 0 [] = Some (Inr r, k)" "length r = 40" "set r \<subseteq> set ?cs"
    using password_loop_returns [of M 256 40 32 ?cs "[]" 0] cs(1) by auto
  let ?pw = "map (\<lambda>b. rchr (unat b)) r"
  have small: "unat b < 128" if "b \<in> set r" for b using r(3) cs(2) that by blast
  then have "utf8 ?pw = r" by (intro utf8_of_ascii) auto
  moreover have "generate_password M 0 40 ?cs = Some (Inr ?pw, k)"
    using r(1) cs(1) from_utf8_ascii_bytes [of r] small
    by (simp add: generate_password_def Let_def ok_or_def del: lit_simps utf8_simps)
  moreover have "generate_password M k 8 [] = Some (Inl CharsetSize, k)" by (simp add: generate_password_def)
  ultimately show ?thesis
    using r(2,3) by (auto simp: test_generates_password_of_requested_length_and_charset_def Let_def list_all_iff
        simp del: lit_simps utf8_simps)
qed

lemma ram_secrets_are_isolated_from_vault: test_ram_secrets_are_isolated_from_vault
  by (simp add: test_ram_secrets_are_isolated_from_vault_def mg_put_ram_def mg_get_ram_def mg_clear_ram_def ram_set_def
      ram_get_def ram_clear_def update_conv' del: lit_simps utf8_simps)

lemma share_and_reconstruct_through_manager:
  assumes X: "aead_ok (v_crates (m_vault_env M))" "digest_lengths (v_crates (m_vault_env M))"
    and "\<forall>k r p. is_ok (encrypt (v_crates (m_vault_env M)) k r p)"
  shows "test_share_and_reconstruct_through_manager M rng nonces"
proof -
  define keys :: "bytes list" where "keys = map (\<lambda>i. replicate 32 (word_of_nat i + 1)) [0..<3]"
  let ?s = "utf8 (lit ''shared secret'')"
  have len: "length keys = 3" by (simp add: keys_def)
  obtain r where r: "split_secret (v_crates (m_vault_env M)) rng nonces ?s 2 3 keys = Inr r"
    using split_secret_ok [OF assms(3) X(2), of 2 3 keys rng nonces ?s] len by auto
  have "length (blobs r) = 3" using split_secret_parts [OF r] by metis
  then have "map (\<lambda>i. blobs r ! i) [0..<3] = blobs r" "map (\<lambda>i. keys ! i) [0..<3] = keys"
    using map_nth [of "blobs r"] map_nth [of keys] len by simp_all
  with multisig_quorum [OF X r, of "[0..<3]"] r show ?thesis
    by (simp add: test_share_and_reconstruct_through_manager_def mg_share_secret_def mg_reconstruct_secret_def Let_def
        keys_def [symmetric] del: lit_simps utf8_simps upt_Suc)
qed

end
