(* ===== verification/CheckSession.thy ===== *)
theory CheckSession
  imports CheckManager
begin

text \<open>
  The unit tests of \<open>network/transfer.rs\<close> and \<open>cli/agent.rs\<close>. Left out are the QR code, which the tests only look
  at as text, and the bundle for another session, which relies on what the encryption hides.
\<close>

subsection \<open>Pairing\<close>

text \<open>\<open>g\<close> is the randomness of \<open>new_pairing\<close>, \<open>e\<close> and \<open>r\<close> are that of \<open>seal_for\<close>.\<close>

definition test_pairing_round_trip :: "transfer_env \<Rightarrow> bytes \<Rightarrow> bytes \<Rightarrow> bytes \<Rightarrow> bool" where
  "test_pairing_round_trip E g e r \<longleftrightarrow>
     unwrap_then (new_pairing (t_crates E) g) (\<lambda>(session, code).
     unwrap_then (seal_for E e r code (lit ''db/master'') (utf8 (lit ''top secret value''))) (\<lambda>bundle.
     unwrap_then (open_transfer E session bundle) (\<lambda>opened.
       pl_name opened = lit ''db/master'' \<and> pl_secret opened = utf8 (lit ''top secret value''))))"

definition test_fingerprint_matches_on_both_sides_and_differs_per_key :: "crates \<Rightarrow> bytes \<Rightarrow> bytes \<Rightarrow> bool" where
  "test_fingerprint_matches_on_both_sides_and_differs_per_key X g1 g2 \<longleftrightarrow>
     unwrap_then (new_pairing X g1) (\<lambda>(_, code1).
     unwrap_then (new_pairing X g2) (\<lambda>(_, code2).
     unwrap_then (code_fingerprint X code1) (\<lambda>fp1.
       length (utf8 fp1) = 19
       \<and> unwrap_then (code_fingerprint X (code1 @ lit ''@192.168.1.9:7777'')) (\<lambda>fp. fp1 = fp)
       \<and> unwrap_then (code_fingerprint X code2) (\<lambda>fp2. fp1 \<noteq> fp2)
       \<and> \<not> is_ok (code_fingerprint X (lit ''garbage'')))))"

definition test_tampering_with_the_name_is_rejected :: "transfer_env \<Rightarrow> bytes \<Rightarrow> bytes \<Rightarrow> bytes \<Rightarrow> bool" where
  "test_tampering_with_the_name_is_rejected E g e r \<longleftrightarrow>
     unwrap_then (new_pairing (t_crates E) g) (\<lambda>(session, code).
     unwrap_then (seal_for E e r code (lit ''real-name'') (utf8 (lit ''v''))) (\<lambda>bundle.
     unwrap_then (open_transfer E session bundle) (\<lambda>opened. pl_name opened = lit ''real-name'')))"

definition test_code_address_is_extracted_and_seal_tolerates_it :: "transfer_env \<Rightarrow> bytes \<Rightarrow> bytes \<Rightarrow> bytes \<Rightarrow> bool" where
  "test_code_address_is_extracted_and_seal_tolerates_it E g e r \<longleftrightarrow>
     unwrap_then (new_pairing (t_crates E) g) (\<lambda>(session, code).
       let with_addr = code @ lit ''@192.168.1.42:7777'' in
       code_address with_addr = Some (lit ''192.168.1.42:7777'') \<and> code_address code = None
       \<and> unwrap_then (seal_for E e r with_addr (lit ''x'') (utf8 (lit ''v''))) (\<lambda>bundle.
         unwrap_then (open_transfer E session bundle) (\<lambda>opened. pl_secret opened = utf8 (lit ''v''))))"

definition test_garbage_and_oversize_are_rejected :: "transfer_env \<Rightarrow> bytes \<Rightarrow> bytes \<Rightarrow> bytes \<Rightarrow> bool" where
  "test_garbage_and_oversize_are_rejected E g e r \<longleftrightarrow>
     unwrap_then (new_pairing (t_crates E) g) (\<lambda>(session, code).
       \<not> is_ok (open_transfer E session (lit ''garbage''))
       \<and> \<not> is_ok (seal_for E e r (lit ''garbage'') (lit ''x'') (utf8 (lit ''s'')))
       \<and> (let huge = BUNDLE_PREFIX @ replicate (MAX_BUNDLE_LEN + 1) (ascii CHR ''A'') in
          \<not> is_ok (open_transfer E session huge)))"

text \<open>The crates work, and what is sealed here stays below the limit.\<close>

definition seals_short :: "transfer_env \<Rightarrow> bytes \<Rightarrow> bytes \<Rightarrow> rstr \<Rightarrow> bytes \<Rightarrow> bool" where
  "seals_short E e r name secret \<longleftrightarrow>
     (\<forall>peer pk. code_key (t_crates E) peer = Inr pk \<longrightarrow>
        (\<exists>b. seal_for E e r peer name secret = Inr b \<and> length (utf8 b) \<le> MAX_BUNDLE_LEN))"

lemma trim_bundle:
  assumes "b64_ok (t_crates E)" "seal_for E e r peer name secret = Inr b"
  shows "trim b = b"
  using assms ascii_text_trim [OF assms(1) no_ws_prefixes(3,4)] by (auto simp: seal_for_def res_simps)

lemma code_parts:
  assumes "b64_ok X" "new_pairing X g = Inr (session, code)"
  obtains body where "code = PAIRCODE_PREFIX @ body" "ascii CHR ''@'' \<notin> set body" "\<forall>c\<in>set code. \<not> is_whitespace c"
proof -
  let ?k = "b64_encode_nopad X (session_public_key session)"
  have "code = PAIRCODE_PREFIX @ ?k" using assms(2) by (auto simp: new_pairing_def res_simps)
  moreover have "\<not> is_whitespace c" if "c \<in> set ?k" for c
    using that b64_okD(4) [OF assms(1)] is_b64_char_not(1) by (auto simp: list_all_iff)
  ultimately show thesis using that [of ?k] b64_no_at [OF assms(1)] no_ws_prefixes(2) by auto
qed

lemma with_address:
  assumes "b64_ok X" "new_pairing X g = Inr (session, code)" "\<forall>c\<in>set addr. \<not> is_whitespace c"
  shows "trim (code @ ascii CHR ''@'' # addr) = code @ ascii CHR ''@'' # addr" "trim code = code"
    "code_address (code @ ascii CHR ''@'' # addr) = Some addr" "code_address code = None"
proof -
  obtain body where b: "code = PAIRCODE_PREFIX @ body" "ascii CHR ''@'' \<notin> set body" "\<forall>c\<in>set code. \<not> is_whitespace c"
    using code_parts [OF assms(1,2)] .
  have at: "\<not> is_whitespace (ascii CHR ''@'')" by (simp add: is_whitespace_def ascii_def)
  show t: "trim (code @ ascii CHR ''@'' # addr) = code @ ascii CHR ''@'' # addr"
    using b(3) at assms(3) by (intro trim_no_ws) auto
  show t': "trim code = code" using b(1,3) no_ws_prefixes(1) by (intro trim_no_ws) auto
  show "code_address (code @ ascii CHR ''@'' # addr) = Some addr"
    using split_once_append [OF b(2), of addr] t by (simp add: code_address_def b(1))
  show "code_address code = None" using b(2) t' by (simp add: code_address_def b(1) split_once_None_iff)
qed

lemma address_simps:
  "lit ''@192.168.1.42:7777'' = ascii CHR ''@'' # lit ''192.168.1.42:7777''" "\<forall>c\<in>set (lit ''192.168.1.42:7777''). \<not> is_whitespace c"
  "lit ''@192.168.1.9:7777'' = ascii CHR ''@'' # lit ''192.168.1.9:7777''" "\<forall>c\<in>set (lit ''192.168.1.9:7777''). \<not> is_whitespace c"
  by (simp_all add: is_whitespace_def ascii_def)

lemma test_transfer:
  assumes "transfer_law E" "new_pairing (t_crates E) g = Inr (session, code)" "seals_short E e r name secret"
    and "validate_secret_name name = Inr ()" "code_variant code peer"
  obtains b where "seal_for E e r peer name secret = Inr b" "open_transfer E session b = Inr \<lparr>pl_name = name, pl_secret = secret\<rparr>"
proof -
  have b64: "b64_ok (t_crates E)" using assms(1) by (simp add: transfer_law_def)
  obtain b where b: "seal_for E e r peer name secret = Inr b" "length (utf8 b) \<le> MAX_BUNDLE_LEN"
    using assms(3) new_pairing_key [OF b64 assms(2,5)] unfolding seals_short_def by blast
  with seal_open [OF assms(1,2,5) b(1) assms(4) b(2)] trim_bundle [OF b64 b(1)] that show thesis by blast
qed

lemma own_code: "b64_ok X \<Longrightarrow> new_pairing X g = Inr (session, code) \<Longrightarrow> code_variant code code"
  using with_address(2) [of X g session code "[]"] by (simp add: code_variant_def)

lemma pairing_round_trip:
  assumes "transfer_law E" "is_ok (new_pairing (t_crates E) g)" "seals_short E e r (lit ''db/master'') (utf8 (lit ''top secret value''))"
  shows "test_pairing_round_trip E g e r"
proof -
  obtain session code where p: "new_pairing (t_crates E) g = Inr (session, code)" using assms(2) by (auto simp: is_ok_iff)
  have b64: "b64_ok (t_crates E)" using assms(1) by (simp add: transfer_law_def)
  have v: "validate_secret_name (lit ''db/master'') = Inr ()"
    by (simp add: valid_name_ascii is_ascii_str_def ascii_def MAX_NAME_LEN_def)
  from test_transfer [OF assms(1) p assms(3) v own_code [OF b64 p]] obtain b where
    "seal_for E e r code (lit ''db/master'') (utf8 (lit ''top secret value'')) = Inr b" "open_transfer E session b = Inr \<lparr>pl_name = lit ''db/master'', pl_secret = utf8 (lit ''top secret value'')\<rparr>" .
  with p show ?thesis by (simp add: test_pairing_round_trip_def del: lit_simps utf8_simps)
qed

lemma tampering_with_the_name_is_rejected:
  assumes "transfer_law E" "is_ok (new_pairing (t_crates E) g)" "seals_short E e r (lit ''real-name'') (utf8 (lit ''v''))"
  shows "test_tampering_with_the_name_is_rejected E g e r"
proof -
  obtain session code where p: "new_pairing (t_crates E) g = Inr (session, code)" using assms(2) by (auto simp: is_ok_iff)
  have b64: "b64_ok (t_crates E)" using assms(1) by (simp add: transfer_law_def)
  have v: "validate_secret_name (lit ''real-name'') = Inr ()"
    by (simp add: valid_name_ascii is_ascii_str_def ascii_def MAX_NAME_LEN_def)
  from test_transfer [OF assms(1) p assms(3) v own_code [OF b64 p]] obtain b where
    "seal_for E e r code (lit ''real-name'') (utf8 (lit ''v'')) = Inr b" "open_transfer E session b = Inr \<lparr>pl_name = lit ''real-name'', pl_secret = utf8 (lit ''v'')\<rparr>" .
  with p show ?thesis by (simp add: test_tampering_with_the_name_is_rejected_def del: lit_simps utf8_simps)
qed

lemma code_address_is_extracted_and_seal_tolerates_it:
  assumes "transfer_law E" "is_ok (new_pairing (t_crates E) g)" "seals_short E e r (lit ''x'') (utf8 (lit ''v''))"
  shows "test_code_address_is_extracted_and_seal_tolerates_it E g e r"
proof -
  let ?a = "lit ''192.168.1.42:7777''"
  obtain session code where p: "new_pairing (t_crates E) g = Inr (session, code)" using assms(2) by (auto simp: is_ok_iff)
  have b64: "b64_ok (t_crates E)" using assms(1) by (simp add: transfer_law_def)
  note a = with_address [OF b64 p address_simps(2)]
  have v: "validate_secret_name (lit ''x'') = Inr ()"
    by (simp add: valid_name_ascii is_ascii_str_def ascii_def MAX_NAME_LEN_def)
  have "code_variant code (code @ ascii CHR ''@'' # ?a)"
    unfolding code_variant_def a(1) by (intro disjI2 exI [of _ ?a]) simp
  from test_transfer [OF assms(1) p assms(3) v this] obtain b where
    "seal_for E e r (code @ ascii CHR ''@'' # ?a) (lit ''x'') (utf8 (lit ''v'')) = Inr b"
    "open_transfer E session b = Inr \<lparr>pl_name = lit ''x'', pl_secret = utf8 (lit ''v'')\<rparr>" .
  with p a(3,4) show ?thesis
    unfolding test_code_address_is_extracted_and_seal_tolerates_it_def address_simps(1)
    by (simp add: Let_def del: lit_simps utf8_simps)
qed

lemma garbage_and_oversize_are_rejected:
  assumes "is_ok (new_pairing (t_crates E) g)"
  shows "test_garbage_and_oversize_are_rejected E g e r"
proof -
  let ?h = "BUNDLE_PREFIX @ replicate (MAX_BUNDLE_LEN + 1) (ascii CHR ''A'')"
  obtain session code where p: "new_pairing (t_crates E) g = Inr (session, code)" using assms by (auto simp: is_ok_iff)
  have t: "trim (lit ''garbage'') = lit ''garbage''" by (rule trim_no_ws) (simp_all add: is_whitespace_def ascii_def)
  have "strip_prefix BUNDLE_PREFIX (lit ''garbage'') = None" "strip_prefix PAIRCODE_PREFIX (lit ''garbage'') = None"
    by (simp_all add: BUNDLE_PREFIX_def PAIRCODE_PREFIX_def ascii_def)
  then have g: "\<not> is_ok (open_transfer E session (lit ''garbage''))" "\<not> is_ok (seal_for E e r (lit ''garbage'') (lit ''x'') (utf8 (lit ''s'')))"
    unfolding open_transfer_def seal_for_def code_key_def t by (simp_all add: Let_def del: lit_simps utf8_simps)
  have "trim ?h = ?h"
    using no_ws_prefixes(4) by (intro trim_no_ws) (auto simp: is_whitespace_def ascii_def simp del: replicate_Suc)
  moreover have "length (utf8 ?h) = length ?h"
    by (rule length_utf8_ascii) (auto simp: is_ascii_str_def BUNDLE_PREFIX_def ascii_def list_all_iff simp del: replicate_Suc)
  ultimately have "\<not> is_ok (open_transfer E session ?h)"
    unfolding open_transfer_def by (simp add: Let_def del: replicate_Suc utf8_simps)
  with g p show ?thesis by (simp add: test_garbage_and_oversize_are_rejected_def Let_def del: lit_simps utf8_simps replicate_Suc)
qed

text \<open>The two keys differ in the 64 bits of their digests that are shown.\<close>

lemma length_fingerprint: "length (utf8 (fingerprint X pk)) = 19"
proof -
  have "code_point (hex_char d) < 128" if "d < 16" for d using that by (simp add: hex_char_def)
  then have h: "is_ascii_str (show_hex2 b)" "length (show_hex2 b) = 2" for b
    by (simp_all add: show_hex2_def is_ascii_str_def nibbles_less)
  have "is_ascii_str (fingerprint X pk)"
    using h(1) by (simp add: fingerprint_def Let_def is_ascii_str_def ascii_def del: lit_simps)
  then have "length (utf8 (fingerprint X pk)) = length (fingerprint X pk)" by (rule length_utf8_ascii)
  also have "\<dots> = 19" using h(2) by (simp add: fingerprint_def Let_def del: lit_simps)
  finally show ?thesis .
qed

lemma fingerprint_matches_on_both_sides_and_differs_per_key:
  assumes "b64_ok X" "digest_lengths X" "new_pairing X g1 = Inr (s1, code1)" "new_pairing X g2 = Inr (s2, code2)"
    and "pair_digest X (session_public_key s1) \<noteq> pair_digest X (session_public_key s2)"
  shows "test_fingerprint_matches_on_both_sides_and_differs_per_key X g1 g2"
proof -
  let ?a = "lit ''192.168.1.9:7777''"
  have "code_variant code1 (code1 @ ascii CHR ''@'' # ?a)"
    unfolding code_variant_def with_address(1) [OF assms(1,3) address_simps(4)] by (intro disjI2 exI [of _ ?a]) simp
  note k = new_pairing_key [OF assms(1,3) own_code [OF assms(1,3)]] new_pairing_key [OF assms(1,4) own_code [OF assms(1,4)]]
    new_pairing_key [OF assms(1,3) this]
  have t: "trim (lit ''garbage'') = lit ''garbage''" by (rule trim_no_ws) (simp_all add: is_whitespace_def ascii_def)
  have "strip_prefix PAIRCODE_PREFIX (lit ''garbage'') = None" by (simp add: PAIRCODE_PREFIX_def ascii_def)
  then have "\<not> is_ok (code_key X (lit ''garbage''))" unfolding code_key_def t by (simp del: lit_simps)
  with k assms(3-5) fingerprint_eq_iff [OF assms(2)] length_fingerprint show ?thesis
    unfolding test_fingerprint_matches_on_both_sides_and_differs_per_key_def address_simps(3)
    by (auto simp: code_fingerprint_def is_ok_iff res_simps simp del: lit_simps utf8_simps)
qed

subsection \<open>The agent\<close>

text \<open>\<open>send\<close>: a connection on which a client writes a request.\<close>

definition sends :: "agent_env \<Rightarrow> op_env \<Rightarrow> request \<Rightarrow> conn" where
  "sends E c req = Conn c (w_out (snd (write_msg (a_req E) req (fresh_writer None)))) None"

definition test_token_eq_is_correct :: bool where
  "test_token_eq_is_correct \<longleftrightarrow>
     token_eq [1, 2, 3] [1, 2, 3] \<and> \<not> token_eq [1, 2, 3] [1, 2, 4] \<and> \<not> token_eq [1, 2, 3] [1, 2]"

text \<open>The \<open>i\<close>-th request is served at the time \<open>t i\<close>; the test ends when the thread of the agent does.\<close>

definition test_agent_serves_then_signs_out :: "agent_env \<Rightarrow> (nat \<Rightarrow> op_env) \<Rightarrow> (nat \<Rightarrow> nat) \<Rightarrow> rstr \<Rightarrow> fs \<Rightarrow> bool" where
  "test_agent_serves_then_signs_out E c t vault fs \<longleftrightarrow>
     run_then (mg_create_vault (a_manager_env E) (c 0) vault (utf8 (lit ''correct horse'')) fast_params 0 None (manager_new, fs))
       (\<lambda>_ (mgr, fs).
       let token = replicate 32 9;
           agent = agent_new mgr token vault (3600 * 1000) (t 0);
           send = (\<lambda>i req. (t i, sends E (c i) req));
           conns = [send 1 (ReqPut token (lit ''k'') (utf8 (lit ''v''))), send 2 (ReqList token),
                    send 3 (ReqGet token (lit ''k'')), send 4 (ReqGet token (lit ''absent'')),
                    send 5 (ReqList (replicate 32 0)), send 6 (ReqStatus token), send 7 (ReqSignout token)]
       in (case serve E conns (agent, fs) of
             ((outs, joined), _) \<Rightarrow> joined
               \<and> (case map (\<lambda>out. fst (read_msg (a_resp E) out)) outs of
                    [r1, r2, r3, r4, r5, r6, r7] \<Rightarrow>
                      r1 = Inr RespOk
                      \<and> r2 = Inr (RespNames [lit ''k''])
                      \<and> r3 = Inr (RespSecret (Some (utf8 (lit ''v''))))
                      \<and> r4 = Inr (RespSecret None)
                      \<and> (case r5 of Inr (RespErr _) \<Rightarrow> True | _ \<Rightarrow> False)
                      \<and> (case r6 of Inr (RespStatus unlocked _ _) \<Rightarrow> unlocked | _ \<Rightarrow> False)
                      \<and> r7 = Inr RespOk
                  | _ \<Rightarrow> False)))"

lemma token_eq_is_correct: test_token_eq_is_correct
  by (simp add: test_token_eq_is_correct_def)

definition reply :: "agent_env \<Rightarrow> response \<Rightarrow> bytes" where
  "reply E resp = w_out (snd (write_msg (a_resp E) resp (fresh_writer None)))"

lemma read_reply: "codec_ok (a_resp E) \<Longrightarrow> fits (a_resp E) resp \<Longrightarrow> fst (read_msg (a_resp E) (reply E resp)) = Inr resp"
  using read_written [of "a_resp E" resp None] by (auto simp: reply_def fits_write)

lemma sends_read: "codec_ok (a_req E) \<Longrightarrow> fits (a_req E) req \<Longrightarrow>
    fst (read_msg (a_req E) (w_out (snd (write_msg (a_req E) req (fresh_writer None))))) = Inr req"
  using read_written [of "a_req E" req None] by (auto simp: fits_write)

lemma served:
  assumes "codec_ok (a_req E)" "fits (a_req E) req"
  shows "serve_conn E now (sends E c req) (ag, fs) =
    (case handle E c now req (clock_touch now ag, fs) of
       ((resp, so), ag', fs') \<Rightarrow>
         ((reply E resp, so), if so then ag'\<lparr>ag_manager := mg_lock (ag_manager ag')\<rparr> else ag', fs'))"
  using sends_read [OF assms] by (simp add: serve_conn_def sends_def reply_def Let_def split: prod.splits)

text \<open>The messages of the test are small enough for a frame.\<close>

definition test_messages_fit :: "agent_env \<Rightarrow> rstr \<Rightarrow> bool" where
  "test_messages_fit E path \<longleftrightarrow> codec_ok (a_req E) \<and> codec_ok (a_resp E)
     \<and> (\<forall>req\<in>{ReqPut (replicate 32 9) (lit ''k'') (utf8 (lit ''v'')), ReqList (replicate 32 9), ReqGet (replicate 32 9) (lit ''k''),
           ReqGet (replicate 32 9) (lit ''absent''), ReqList (replicate 32 0), ReqStatus (replicate 32 9), ReqSignout (replicate 32 9)}.
         fits (a_req E) req)
     \<and> (\<forall>resp\<in>{RespOk, RespNames [lit ''k''], RespSecret (Some (utf8 (lit ''v''))), RespSecret None, RespErr (Cli InvalidSessionToken)}.
         fits (a_resp E) resp)
     \<and> (\<forall>secs. fits (a_resp E) (RespStatus True path secs))"

lemma test_messagesD:
  assumes "test_messages_fit E path"
  shows "codec_ok (a_req E)" "codec_ok (a_resp E)"
    and "fits (a_req E) (ReqPut (replicate 32 9) (lit ''k'') (utf8 (lit ''v'')))" "fits (a_req E) (ReqList (replicate 32 9))"
    and "fits (a_req E) (ReqGet (replicate 32 9) (lit ''k''))" "fits (a_req E) (ReqGet (replicate 32 9) (lit ''absent''))"
    and "fits (a_req E) (ReqList (replicate 32 0))" "fits (a_req E) (ReqStatus (replicate 32 9))" "fits (a_req E) (ReqSignout (replicate 32 9))"
    and "resp \<in> {RespOk, RespNames [lit ''k''], RespSecret (Some (utf8 (lit ''v''))), RespSecret None, RespErr (Cli InvalidSessionToken)}
        \<Longrightarrow> fst (read_msg (a_resp E) (reply E resp)) = Inr resp"
    and "fst (read_msg (a_resp E) (reply E (RespStatus True path secs))) = Inr (RespStatus True path secs)"
  using assms by (auto simp: test_messages_fit_def intro: read_reply simp del: lit_simps utf8_simps replicate_Suc)

text \<open>The agent of the test, and its answers.\<close>

definition test_agent :: "rstr \<Rightarrow> nat \<Rightarrow> manager \<Rightarrow> agent" where
  "test_agent path now mg = agent_new mg (replicate 32 9) path (3600 * 1000) now"

lemma test_agent_simps [simp]:
  "ag_manager (test_agent path l mg) = mg" "ag_token (test_agent path l mg) = replicate 32 9"
  "ag_vault_path (test_agent path l mg) = path" "clock_touch now (test_agent path l mg) = test_agent path now mg"
  "test_agent path l mg\<lparr>ag_manager := mg'\<rparr> = test_agent path l mg'"
  by (simp_all add: test_agent_def agent_new_def clock_touch_def)

lemma test_agent_serves:
  assumes "codec_ok (a_req E)"
  shows "fits (a_req E) (ReqPut (replicate 32 9) k v) \<Longrightarrow> mg_put_secret (a_manager_env E) c k v (mg, fs) = (Inr (), mg', fs') \<Longrightarrow>
      serve_conn E now (sends E c (ReqPut (replicate 32 9) k v)) (test_agent path l mg, fs)
        = ((reply E RespOk, False), test_agent path now mg', fs')"
    and "fits (a_req E) (ReqGet (replicate 32 9) k) \<Longrightarrow> mg_get_secret (a_manager_env E) mg k = Inr r \<Longrightarrow>
      serve_conn E now (sends E c (ReqGet (replicate 32 9) k)) (test_agent path l mg, fs)
        = ((reply E (RespSecret r), False), test_agent path now mg, fs)"
    and "fits (a_req E) (ReqList (replicate 32 9)) \<Longrightarrow> mg_secret_names (a_manager_env E) mg = Inr ns \<Longrightarrow>
      serve_conn E now (sends E c (ReqList (replicate 32 9))) (test_agent path l mg, fs)
        = ((reply E (RespNames ns), False), test_agent path now mg, fs)"
    and "fits (a_req E) (ReqList (replicate 32 0)) \<Longrightarrow>
      serve_conn E now (sends E c (ReqList (replicate 32 0))) (test_agent path l mg, fs)
        = ((reply E (RespErr (Cli InvalidSessionToken)), False), test_agent path now mg, fs)"
    and "fits (a_req E) (ReqStatus (replicate 32 9)) \<Longrightarrow> mg_is_unlocked mg \<Longrightarrow>
      \<exists>secs. serve_conn E now (sends E c (ReqStatus (replicate 32 9))) (test_agent path l mg, fs)
        = ((reply E (RespStatus True path secs), False), test_agent path now mg, fs)"
    and "fits (a_req E) (ReqSignout (replicate 32 9)) \<Longrightarrow>
      serve_conn E now (sends E c (ReqSignout (replicate 32 9))) (test_agent path l mg, fs)
        = ((reply E RespOk, True), test_agent path now (mg_lock mg), fs)"
  using assms by (auto simp: served handle_def Let_def replicate_eq_replicate simp del: replicate_Suc)

lemma agent_serves_then_signs_out:
  assumes "machine (m_vault_env (a_manager_env E))" "\<forall>i. no_faults (c i)" "fs path = None"
    and "is_ok (random_bytes (a_manager_env E) 0 32)" "test_messages_fit E path"
  shows "test_agent_serves_then_signs_out E c t path fs"
proof -
  let ?M = "a_manager_env E" and ?pw = "utf8 (lit ''correct horse'')" and ?k = "lit ''k''" and ?v = "utf8 (lit ''v'')"
  have c: "no_faults (c i)" for i using assms(2) by simp
  note fit = test_messagesD [OF assms(5)]
  have "is_ok (random_bytes ?M (mg_calls manager_new) 32)" using assms(4) by (simp add: manager_new_def)
  then obtain m1 f1 where 1: "mg_create_vault ?M (c 0) path ?pw fast_params 0 None (manager_new, fs) = (Inr (), m1, f1)"
      "holds ?M ?pw path 0 Map.empty (m1, f1)"
    by (rule created_holds [of ?M fs path "c 0" manager_new ?pw, OF assms(1,3) c])
  have k: "valid_name ?k" "length (utf8 ?k) \<le> 64" "length ?v \<le> 64"
    using short_name [of ?k] by (simp_all add: is_ascii_str_def ascii_def encode_utf8_ascii)
  obtain m2 f2 where 2: "mg_put_secret ?M (c 1) ?k ?v (m1, f1) = (Inr (), m2, f2)" "holds ?M ?pw path 1 [?k \<mapsto> ?v] (m2, f2)"
    using put_holds [OF assms(1) 1(2) c k, of 1] by auto
  note rd = holds_reads [OF 2(2)]
  obtain ns where ns: "mg_secret_names ?M m2 = Inr ns" "distinct ns" "set ns = {?k}"
    using reads_names [OF assms(1) rd] by (auto simp del: lit_simps)
  have n: "ns = [?k]" using ns(2,3) by (cases ns) (auto simp: subset_singleton_iff simp del: lit_simps)
  have g: "mg_get_secret ?M m2 ?k = Inr (Some ?v)" "mg_get_secret ?M m2 (lit ''absent'') = Inr None"
    unfolding reads_get [OF rd] by simp_all
  obtain secs where st: "serve_conn E (t 6) (sends E (c 6) (ReqStatus (replicate 32 9))) (test_agent path (t 5) m2, f2)
      = ((reply E (RespStatus True path secs), False), test_agent path (t 6) m2, f2)"
    using test_agent_serves(5) [OF fit(1,8) reads_unlocked [OF rd]] by blast
  note steps = test_agent_serves(1) [OF fit(1,3) 2(1)] test_agent_serves(2) [OF fit(1,5) g(1)] test_agent_serves(2) [OF fit(1,6) g(2)]
    test_agent_serves(3) [OF fit(1,4) ns(1) [unfolded n]] test_agent_serves(4) [OF fit(1,7)] st test_agent_serves(6) [OF fit(1,9)]
  show ?thesis
    unfolding test_agent_serves_then_signs_out_def 1(1) test_agent_def [symmetric] Let_def
    by (simp add: steps fit(10,11) del: lit_simps utf8_simps replicate_Suc One_nat_def)
qed

end
