(* ===== verification/CheckTotp.thy ===== *)
theory CheckTotp
  imports CheckBase Totp
begin

text \<open>The unit tests of \<open>core/totp.rs\<close>.\<close>

subsection \<open>One-time passwords\<close>

definition seed_sha1 :: bytes where
  "seed_sha1 = utf8 (lit ''12345678901234567890'')"

definition seed_sha256 :: bytes where
  "seed_sha256 = utf8 (lit ''12345678901234567890123456789012'')"

definition seed_sha512 :: bytes where
  "seed_sha512 = utf8 (lit ''1234567890123456789012345678901234567890123456789012345678901234'')"

definition cfg_of :: "bytes \<Rightarrow> totp_alg \<Rightarrow> totp_config" where
  "cfg_of secret alg = \<lparr>totp_secret = secret, totp_digits = 8, totp_period = 30, totp_algorithm = alg\<rparr>"

definition hello :: bytes where
  "hello = utf8 (lit ''Hello!'') @ [0xDE, 0xAD, 0xBE, 0xEF]"

definition test_rfc6238_vectors :: "crates \<Rightarrow> bool" where
  "test_rfc6238_vectors X \<longleftrightarrow>
     list_all (\<lambda>(t, s1, s256, s512).
         code_at X (cfg_of seed_sha1 Sha1) t = Some s1 \<and> code_at X (cfg_of seed_sha256 Sha256) t = Some s256
         \<and> code_at X (cfg_of seed_sha512 Sha512) t = Some s512)
       [(59, lit ''94287082'', lit ''46119246'', lit ''90693936''),
        (1111111109, lit ''07081804'', lit ''68084774'', lit ''25091201''),
        (1111111111, lit ''14050471'', lit ''67062674'', lit ''99943326''),
        (1234567890, lit ''89005924'', lit ''91819424'', lit ''93441116''),
        (2000000000, lit ''69279037'', lit ''90698825'', lit ''38618901''),
        (20000000000, lit ''65353130'', lit ''77737706'', lit ''47863826'')]"

definition test_base32_round_trips_known_vector :: bool where
  "test_base32_round_trips_known_vector \<longleftrightarrow>
     some_then (decode_base32 (lit ''JBSWY3DPEHPK3PXP'')) (\<lambda>v. v = hello)
     \<and> some_then (decode_base32 (lit ''jbsw y3dp ehpk 3pxp'')) (\<lambda>v. v = hello)
     \<and> decode_base32 (lit ''0189'') = None"

definition test_base32_encode_decode_round_trip :: bool where
  "test_base32_encode_decode_round_trip \<longleftrightarrow>
     list_all (\<lambda>v. (case decode_base32 (encode_base32 v) of Some x \<Rightarrow> x | None \<Rightarrow> []) = v)
       [[], utf8 (lit ''f''), utf8 (lit ''fo''), utf8 (lit ''foo''), utf8 (lit ''foob''), utf8 (lit ''fooba''),
        utf8 (lit ''foobar'')]"

definition test_to_uri_round_trips_through_parse :: bool where
  "test_to_uri_round_trips_through_parse \<longleftrightarrow>
     (let cfg = \<lparr>totp_secret = hello, totp_digits = 6, totp_period = 30, totp_algorithm = Sha1\<rparr>;
          uri = to_uri cfg (lit ''ACME:me@host'') in
      strip_prefix (lit ''otpauth://totp/'') uri \<noteq> None \<and> some_then (parse_totp uri) (\<lambda>back. back = cfg))"

definition test_parse_otpauth_uri :: bool where
  "test_parse_otpauth_uri \<longleftrightarrow>
     (let uri = lit ''otpauth://totp/ACME:alice?secret=JBSWY3DPEHPK3PXP&issuer=ACME&digits=6&period=30&algorithm=SHA1'' in
      some_then (parse_totp uri) (\<lambda>cfg. totp_digits cfg = 6 \<and> totp_period cfg = 30 \<and> totp_algorithm cfg = Sha1
        \<and> totp_secret cfg = hello))"

definition test_parse_bare_base32_and_rejects_non_totp :: bool where
  "test_parse_bare_base32_and_rejects_non_totp \<longleftrightarrow>
     parse_totp (lit ''JBSWY3DPEHPK3PXP'') \<noteq> None \<and> parse_totp (lit ''not a secret!'') = None
     \<and> parse_totp (lit ''short'') = None \<and> parse_totp (lit ''otpauth://totp/x?issuer=ACME'') = None
     \<and> parse_totp (lit ''otpauth://totp/x?secret=JBSWY3DPEHPK3PXP&algorithm=MD5'') = None"

definition test_seconds_remaining_boundaries :: bool where
  "test_seconds_remaining_boundaries \<longleftrightarrow>
     (let c = cfg_of seed_sha1 Sha1 in
      seconds_remaining c 0 = 30 \<and> seconds_remaining c 29 = 1 \<and> seconds_remaining c 30 = 30)"

lemma seconds_remaining_boundaries: test_seconds_remaining_boundaries
  by (simp add: test_seconds_remaining_boundaries_def seconds_remaining_def cfg_of_def Let_def)

text \<open>
  The digests that HMAC with SHA-1, SHA-256 and SHA-512 gives under the keys of RFC 6238 for the counters of its
  appendix B, which the linked crates compute.
\<close>

definition rfc_digests :: "(u64 \<times> bytes \<times> bytes \<times> bytes) list" where
  "rfc_digests =
     [(1, [117, 164, 138, 25, 212, 203, 225, 0, 100, 78, 138, 193, 57, 126, 234, 116, 122, 45, 51, 171], [57,
        37, 20, 201, 221, 65, 101, 212, 112, 148, 86, 6, 44, 120, 224, 78, 22, 230, 135, 24, 81, 89, 81, 51,
        59, 219, 139, 38, 202, 163, 5, 60], [111, 118, 243, 36, 35, 12, 239, 218, 29, 63, 101, 48, 154, 11,
        173, 179, 110, 252, 233, 82, 138, 218, 100, 150, 125, 113, 228, 233, 215, 76, 74, 163, 127, 231, 101,
        15, 147, 26, 184, 109, 220, 204, 45, 56, 150, 45, 114, 14, 230, 38, 162, 15, 235, 49, 27, 72, 90,
        146, 227, 187, 7, 150, 223, 40]),
      (37037036, [39, 140, 2, 229, 54, 16, 248, 76, 64, 189, 145, 53, 172, 212, 16, 16, 18, 65, 10, 20], [78,
        237, 114, 152, 100, 82, 93, 119, 19, 38, 198, 4, 155, 200, 133, 98, 159, 184, 129, 62, 187, 65, 126,
        87, 4, 223, 2, 53, 135, 147, 240, 86], [179, 56, 18, 80, 38, 13, 106, 158, 129, 26, 229, 141, 250,
        64, 103, 5, 227, 140, 128, 76, 151, 82, 141, 90, 126, 216, 238, 83, 51, 49, 248, 196, 60, 195, 69,
        73, 17, 173, 29, 39, 97, 249, 56, 1, 112, 192, 177, 128, 166, 87, 227, 169, 68, 199, 150, 224, 93, 9,
        242, 209, 99, 11, 117, 5]),
      (37037037, [176, 9, 43, 33, 208, 72, 175, 32, 157, 160, 161, 221, 212, 152, 173, 232, 167, 148, 135,
        237], [203, 72, 247, 239, 92, 217, 143, 109, 123, 252, 179, 26, 231, 69, 143, 246, 146, 160, 21, 119,
        98, 5, 222, 126, 26, 191, 255, 41, 214, 212, 138, 157], [1, 113, 62, 213, 158, 73, 148, 138, 79, 15,
        255, 183, 70, 107, 174, 186, 198, 99, 98, 217, 7, 100, 165, 162, 61, 247, 97, 99, 110, 21, 53, 196,
        75, 99, 83, 57, 236, 0, 167, 137, 184, 202, 69, 205, 61, 114, 122, 205, 107, 153, 80, 71, 84, 127,
        111, 104, 173, 198, 241, 106, 116, 54, 195, 49]),
      (41152263, [144, 124, 209, 169, 17, 101, 100, 236, 185, 213, 209, 120, 3, 37, 242, 70, 23, 63, 231, 3],
        [59, 239, 184, 130, 28, 174, 249, 223, 78, 5, 121, 13, 160, 150, 97, 99, 244, 227, 143, 238, 231,
        247, 31, 205, 40, 156, 61, 228, 141, 52, 134, 217], [135, 208, 207, 181, 212, 233, 104, 215, 217, 4,
        26, 92, 242, 29, 215, 212, 96, 112, 87, 132, 0, 79, 2, 68, 237, 185, 128, 4, 230, 207, 153, 66, 172,
        229, 57, 214, 33, 201, 125, 192, 251, 117, 246, 241, 13, 100, 175, 31, 9, 236, 174, 131, 234, 127,
        18, 19, 199, 250, 24, 125, 250, 246, 185, 56]),
      (66666666, [37, 163, 38, 211, 31, 195, 102, 36, 76, 173, 5, 73, 118, 2, 12, 123, 86, 177, 61, 95],
        [164, 232, 234, 187, 229, 73, 173, 250, 101, 64, 137, 69, 169, 40, 44, 185, 63, 57, 79, 6, 192, 212,
        241, 34, 38, 9, 99, 100, 27, 195, 171, 226], [18, 155, 170, 115, 140, 250, 21, 101, 162, 66, 151, 35,
        123, 206, 40, 38, 113, 255, 110, 38, 23, 84, 235, 112, 17, 225, 231, 91, 210, 85, 91, 50, 99, 19, 20,
        42, 31, 159, 226, 243, 29, 156, 230, 204, 149, 211, 177, 106, 13, 238, 86, 242, 73, 47, 47, 118, 136,
        87, 2, 217, 139, 250, 220, 147]),
      (666666666, [171, 7, 233, 126, 44, 18, 120, 118, 157, 188, 215, 87, 131, 170, 189, 231, 94, 216, 85,
        10], [19, 99, 204, 14, 227, 85, 127, 9, 46, 91, 85, 234, 61, 219, 6, 188, 210, 15, 6, 60, 227, 147,
        204, 246, 112, 5, 158, 60, 164, 73, 65, 248], [86, 34, 152, 160, 42, 241, 62, 117, 34, 18, 122, 222,
        227, 220, 102, 120, 213, 54, 105, 202, 43, 112, 22, 24, 105, 104, 249, 169, 193, 79, 81, 209, 231, 9,
        139, 169, 18, 147, 160, 27, 95, 59, 171, 66, 7, 162, 175, 92, 227, 50, 164, 95, 44, 47, 242, 185,
        136, 90, 164, 47, 246, 28, 180, 38])]"

definition rfc_hmac :: "crates \<Rightarrow> bool" where
  "rfc_hmac X \<longleftrightarrow> (\<forall>(c, d1, d256, d512)\<in>set rfc_digests.
     hmac_sha1 X seed_sha1 (to_be 8 c) = d1 \<and> hmac_sha256 X seed_sha256 (to_be 8 c) = d256
     \<and> hmac_sha512 X seed_sha512 (to_be 8 c) = d512)"

lemma show_nat_digit: "n < 10 \<Longrightarrow> show_nat n = [digit_char n]"
  by (simp add: show_nat.simps)

lemma show_nat_step: "\<not> n < 10 \<Longrightarrow> show_nat n = show_nat (n div 10) @ [digit_char (n mod 10)]"
  by (subst show_nat.simps) simp

lemma rfc6238_vectors: "rfc_hmac X \<Longrightarrow> test_rfc6238_vectors X"
  by (simp add: rfc_hmac_def rfc_digests_def test_rfc6238_vectors_def cfg_of_def code_at_def hotp_def hmac_of_def
      show_nat_padded_def show_nat_digit show_nat_step digit_char_def ascii_def Let_def)

lemma base32_round_trips_known_vector: test_base32_round_trips_known_vector
  by (simp add: test_base32_round_trips_known_vector_def hello_def decode_base32_def decode_loop.simps
      to_ascii_uppercase_def ascii_def encode_utf8_ascii as_u8_def Let_def)

lemma base32_encode_decode_round_trip: test_base32_encode_decode_round_trip
proof -
  have "(case decode_base32 (encode_base32 v) of Some x \<Rightarrow> x | None \<Rightarrow> []) = v" for v
    by (cases "v = []") (simp_all add: decode_encode_base32, simp add: encode_base32_def decode_base32_def)
  then show ?thesis by (simp add: test_base32_encode_decode_round_trip_def list_all_iff)
qed

lemma to_uri_round_trips_through_parse: test_to_uri_round_trips_through_parse
  using parse_to_uri [of "\<lparr>totp_secret = hello, totp_digits = 6, totp_period = 30, totp_algorithm = Sha1\<rparr>" "lit ''ACME:me@host''"]
  by (simp add: test_to_uri_round_trips_through_parse_def Let_def hello_def to_uri_def del: lit_simps utf8_simps)

text \<open>The key of the known vector, as its base32 text reads.\<close>

lemma known_key:
  "decode_base32 [rchr 74, rchr 66, rchr 83, rchr 87, rchr 89, rchr 51, rchr 68, rchr 80, rchr 69, rchr 72, rchr 80,
     rchr 75, rchr 51, rchr 80, rchr 88, rchr 80] = Some hello"
  by (simp add: hello_def decode_base32_def decode_loop.simps to_ascii_uppercase_def ascii_def encode_utf8_ascii as_u8_def
      Let_def)

lemmas parse_eval = parse_totp_def parse_otpauth_def trim_def is_whitespace_def known_key ascii_def to_ascii_lowercase_def
  to_ascii_uppercase_def parse_unsigned_def Let_def

lemma parse_otpauth_uri: test_parse_otpauth_uri
  by (simp add: test_parse_otpauth_uri_def parse_eval)

lemma parse_bare_base32_and_rejects_non_totp: test_parse_bare_base32_and_rejects_non_totp
  by (simp add: test_parse_bare_base32_and_rejects_non_totp_def parse_eval decode_base32_def decode_loop.simps
      encode_utf8_ascii)

end
