(* ===== verification/CheckUi.thy ===== *)
theory CheckUi
  imports CheckManager CheckTotp Program
begin

text \<open>
  The unit tests of \<open>ui/mod.rs\<close>, with the two functions of \<open>App\<close> that are compiled for them. \<open>vars\<close> are the
  environment variables, \<open>now\<close> is when the interface starts and \<open>W i\<close> is what surrounds the \<open>i\<close>-th operation.
\<close>

subsection \<open>The interface without a terminal\<close>

definition with_open_manager :: "ui_env \<Rightarrow> (rstr \<Rightarrow> rstr option) \<Rightarrow> nat \<Rightarrow> manager \<Rightarrow> rstr \<Rightarrow> app" where
  "with_open_manager U vars now mgr path =
     (let app = \<lparr>ap_index = 0, ap_editor = editor_new, ap_manager = mgr, ap_vault_path = path,
                 ap_names = [], ap_selected = 0, ap_mode = Browse,
                 ap_error = None, ap_status = None, ap_pairing = None, ap_qr = None, ap_reveal_until = None,
                 ap_last_activity = now, ap_idle_timeout = idle_timeout vars\<rparr>
      in snd (refresh_names U app))"

definition add_secret :: "ui_env \<Rightarrow> key_world \<Rightarrow> rstr \<Rightarrow> bytes \<Rightarrow> app \<times> fs \<Rightarrow> (error + unit) \<times> app \<times> fs" where
  "add_secret U W name value = (\<lambda>(ap, fs).
     case mg_put_secret (u_manager U) (kw_op W) name value (ap_manager ap, fs) of
       (Inl e, mg', fs') \<Rightarrow> (Inl e, ap\<lparr>ap_manager := mg'\<rparr>, fs')
     | (Inr _, mg', fs') \<Rightarrow>
         (case refresh_names U (ap\<lparr>ap_manager := mg'\<rparr>) of
            (Inl e, ap') \<Rightarrow> (Inl e, ap', fs')
          | (Inr _, ap') \<Rightarrow> (Inr (), select_name name ap', fs')))"

text \<open>\<open>open_app\<close>, and then the rest of the test.\<close>

definition open_app ::
  "ui_env \<Rightarrow> (rstr \<Rightarrow> rstr option) \<Rightarrow> nat \<Rightarrow> op_env \<Rightarrow> rstr \<Rightarrow> fs \<Rightarrow> (app \<Rightarrow> fs \<Rightarrow> bool) \<Rightarrow> bool" where
  "open_app U vars now c path fs rest \<longleftrightarrow>
     run_then (mg_create_vault (u_manager U) c path (utf8 (lit ''pw'')) fast_params 0 None (manager_new, fs)) (\<lambda>_ (mgr, fs).
       rest (with_open_manager U vars now mgr path) fs)"

subsection \<open>The tests\<close>

definition test_mode_zeroize_wipes_held_plaintext :: bool where
  "test_mode_zeroize_wipes_held_plaintext \<longleftrightarrow>
     (case mode_zeroize (ConfirmImport (lit ''x'') [1, 2, 3, 4] (lit ''AB'')) of
        ConfirmImport _ secret _ \<Rightarrow> list_all (\<lambda>b. b = 0) secret
      | _ \<Rightarrow> False)"

definition test_lock_clears_state_and_requires_unlock ::
  "ui_env \<Rightarrow> (rstr \<Rightarrow> rstr option) \<Rightarrow> nat \<Rightarrow> (nat \<Rightarrow> key_world) \<Rightarrow> rstr \<Rightarrow> fs \<Rightarrow> bool" where
  "test_lock_clears_state_and_requires_unlock U vars now W path fs \<longleftrightarrow>
     open_app U vars now (kw_op (W 0)) path fs (\<lambda>app fs.
     run_then (add_secret U (W 1) (lit ''k'') (utf8 (lit ''v'')) (app, fs)) (\<lambda>_ (app, fs).
       mg_is_unlocked (ap_manager app)
       \<and> (let app = lock_app app in
          \<not> mg_is_unlocked (ap_manager app) \<and> ap_names app = []
          \<and> (case ap_mode app of Unlock _ \<Rightarrow> True | _ \<Rightarrow> False))))"

text \<open>The last activity is put ten seconds back, if the clock goes that far.\<close>

definition test_autolocks_after_idle ::
  "ui_env \<Rightarrow> (rstr \<Rightarrow> rstr option) \<Rightarrow> nat \<Rightarrow> nat \<Rightarrow> nat \<Rightarrow> op_env \<Rightarrow> rstr \<Rightarrow> fs \<Rightarrow> bool" where
  "test_autolocks_after_idle U vars now now' now'' c path fs \<longleftrightarrow>
     open_app U vars now c path fs (\<lambda>app fs.
       let app = app\<lparr>ap_idle_timeout := 1\<rparr>;
           app = app\<lparr>ap_last_activity := (if 10 * 1000 \<le> now' then now' - 10 * 1000 else now')\<rparr>
       in \<not> mg_is_unlocked (ap_manager (maybe_autolock now'' app)))"

definition test_add_list_and_delete ::
  "ui_env \<Rightarrow> (rstr \<Rightarrow> rstr option) \<Rightarrow> nat \<Rightarrow> (nat \<Rightarrow> key_world) \<Rightarrow> rstr \<Rightarrow> fs \<Rightarrow> bool" where
  "test_add_list_and_delete U vars now W path fs \<longleftrightarrow>
     open_app U vars now (kw_op (W 0)) path fs (\<lambda>app fs.
     run_then (add_secret U (W 1) (lit ''github'') (utf8 (lit ''tok'')) (app, fs)) (\<lambda>_ s.
     run_then (add_secret U (W 2) (lit ''aws'') (utf8 (lit ''key'')) s) (\<lambda>_ (app, fs).
       ap_names app = [lit ''aws'', lit ''github'']
       \<and> (let app = select_name (lit ''aws'') app in
          run_then (delete_named U (W 3) (lit ''aws'') (app, fs)) (\<lambda>_ (app, fs). ap_names app = [lit ''github''])))))"

definition test_edit_value_round_trips_through_disk ::
  "ui_env \<Rightarrow> (rstr \<Rightarrow> rstr option) \<Rightarrow> nat \<Rightarrow> (nat \<Rightarrow> key_world) \<Rightarrow> rstr \<Rightarrow> fs \<Rightarrow> bool" where
  "test_edit_value_round_trips_through_disk U vars now W path fs \<longleftrightarrow>
     open_app U vars now (kw_op (W 0)) path fs (\<lambda>app fs.
     run_then (add_secret U (W 1) (lit ''k'') (utf8 (lit ''v1'')) (app, fs)) (\<lambda>_ s.
     run_then (save_edited_value U (W 2) (lit ''k'') (utf8 (lit ''v2'')) s) (\<lambda>_ (app, fs).
     run_then (mg_open_vault (u_manager U) (kw_op (W 3)) path (utf8 (lit ''pw'')) None (mg_lock (ap_manager app), fs)) (\<lambda>_ (mgr, fs).
     unwrap_then (mg_get_secret (u_manager U) mgr (lit ''k'')) (\<lambda>r. some_then r (\<lambda>v. v = utf8 (lit ''v2'')))))))"

definition test_totp_value_is_detected ::
  "ui_env \<Rightarrow> (rstr \<Rightarrow> rstr option) \<Rightarrow> nat \<Rightarrow> (nat \<Rightarrow> key_world) \<Rightarrow> rstr \<Rightarrow> fs \<Rightarrow> bool" where
  "test_totp_value_is_detected U vars now W path fs \<longleftrightarrow>
     open_app U vars now (kw_op (W 0)) path fs (\<lambda>app fs.
     run_then (add_secret U (W 1) (lit ''2fa'') (utf8 (lit ''otpauth://totp/x?secret=JBSWY3DPEHPK3PXP'')) (app, fs)) (\<lambda>_ (app, fs).
     unwrap_then (mg_get_secret (u_manager U) (ap_manager app) (lit ''2fa'')) (\<lambda>r. some_then r (\<lambda>v.
       parse_totp (from_utf8_lossy v) \<noteq> None))))"

subsection \<open>An interface over a machine on which nothing fails\<close>

definition app_holds :: "ui_env \<Rightarrow> rstr \<Rightarrow> nat \<Rightarrow> (rstr \<rightharpoonup> bytes) \<Rightarrow> app \<times> fs \<Rightarrow> bool" where
  "app_holds U path n m = (\<lambda>(ap, fs). holds (u_manager U) (utf8 (lit ''pw'')) path n m (ap_manager ap, fs)
     \<and> sorted (ap_names ap) \<and> distinct (ap_names ap) \<and> set (ap_names ap) = dom m)"

lemma app_holds_names: "app_holds U path n m (ap, fs) \<Longrightarrow> sorted ks \<Longrightarrow> distinct ks \<Longrightarrow> set ks = dom m \<Longrightarrow> ap_names ap = ks"
  by (rule sorted_distinct_set_unique) (simp_all add: app_holds_def)

lemma app_holds_unlocked: "app_holds U path n m (ap, fs) \<Longrightarrow> mg_is_unlocked (ap_manager ap)"
  by (auto simp: app_holds_def intro: reads_unlocked holds_reads)

lemma app_holds_get: "app_holds U path n m (ap, fs) \<Longrightarrow> mg_get_secret (u_manager U) (ap_manager ap) k = Inr (m k)"
  by (auto simp: app_holds_def intro: reads_get holds_reads)

lemma refreshed_holds:
  assumes "machine (m_vault_env (u_manager U))" "holds (u_manager U) (utf8 (lit ''pw'')) path n m (ap_manager ap, fs)"
  shows "\<exists>ap'. refresh_names U ap = (Inr (), ap') \<and> app_holds U path n m (ap', fs)"
proof -
  obtain names where "mg_secret_names (u_manager U) (ap_manager ap) = Inr names" "distinct names" "set names = dom m"
    using reads_names [OF assms(1) holds_reads [OF assms(2)]] by blast
  with assms(2) show ?thesis by (auto simp: refresh_names_def app_holds_def simp del: lit_simps utf8_simps)
qed

lemma app_holds_select [simp]: "app_holds U path n m (select_name k ap, fs) = app_holds U path n m (ap, fs)"
  by (simp add: app_holds_def select_name_def split: option.splits)

lemma open_app_holds:
  assumes "machine (m_vault_env (u_manager U))" "fs path = None" "no_faults c" "is_ok (random_bytes (u_manager U) 0 32)"
  obtains ap fs' where "open_app U vars now c path fs = (\<lambda>rest. rest ap fs')" "app_holds U path 0 Map.empty (ap, fs')"
    "ap_mode ap = Browse"
proof -
  let ?ap = "\<lambda>mg. \<lparr>ap_index = 0, ap_editor = editor_new, ap_manager = mg, ap_vault_path = path, ap_names = [], ap_selected = 0,
    ap_mode = Browse, ap_error = None, ap_status = None, ap_pairing = None, ap_qr = None, ap_reveal_until = None,
    ap_last_activity = now, ap_idle_timeout = idle_timeout vars\<rparr>"
  have "is_ok (random_bytes (u_manager U) (mg_calls manager_new) 32)" using assms(4) by (simp add: manager_new_def)
  then obtain mg' fs' where 1: "mg_create_vault (u_manager U) c path (utf8 (lit ''pw'')) fast_params 0 None (manager_new, fs)
      = (Inr (), mg', fs')" "holds (u_manager U) (utf8 (lit ''pw'')) path 0 Map.empty (mg', fs')"
    by (rule created_holds [of "u_manager U" fs path c manager_new "utf8 (lit ''pw'')", OF assms(1-3)])
  then obtain ap' where r: "refresh_names U (?ap mg') = (Inr (), ap')" "app_holds U path 0 Map.empty (ap', fs')"
    using refreshed_holds [OF assms(1), of path 0 Map.empty "?ap mg'" fs'] by auto
  then have "ap_mode ap' = Browse" by (auto simp: refresh_names_def split: sum.splits)
  with 1(1) r show thesis
    by (intro that [of ap' fs']) (simp_all add: fun_eq_iff open_app_def with_open_manager_def Let_def del: lit_simps utf8_simps)
qed

lemma put_app_holds:
  assumes "machine (m_vault_env (u_manager U))" "app_holds U path n m (ap, fs)" "no_faults (kw_op W)"
    and "valid_name k" "length (utf8 k) \<le> 64" "length v \<le> 64"
  shows "\<exists>ap' fs'. add_secret U W k v (ap, fs) = (Inr (), ap', fs') \<and> app_holds U path (Suc n) (m(k \<mapsto> v)) (ap', fs')"
    and "\<exists>ap' fs'. save_edited_value U W k v (ap, fs) = (Inr (), ap', fs') \<and> app_holds U path (Suc n) (m(k \<mapsto> v)) (ap', fs')"
proof -
  have "holds (u_manager U) (utf8 (lit ''pw'')) path n m (ap_manager ap, fs)" using assms(2) by (simp add: app_holds_def)
  from put_holds [OF assms(1) this assms(3-6)] obtain mg' fs' where
    p: "mg_put_secret (u_manager U) (kw_op W) k v (ap_manager ap, fs) = (Inr (), mg', fs')"
    "holds (u_manager U) (utf8 (lit ''pw'')) path (Suc n) (m(k \<mapsto> v)) (mg', fs')" .
  then obtain ap' where "refresh_names U (ap\<lparr>ap_manager := mg'\<rparr>) = (Inr (), ap')" "app_holds U path (Suc n) (m(k \<mapsto> v)) (ap', fs')"
    using refreshed_holds [OF assms(1), of path "Suc n" "m(k \<mapsto> v)" "ap\<lparr>ap_manager := mg'\<rparr>" fs'] by auto
  with p(1) show
    "\<exists>ap' fs'. add_secret U W k v (ap, fs) = (Inr (), ap', fs') \<and> app_holds U path (Suc n) (m(k \<mapsto> v)) (ap', fs')"
    "\<exists>ap' fs'. save_edited_value U W k v (ap, fs) = (Inr (), ap', fs') \<and> app_holds U path (Suc n) (m(k \<mapsto> v)) (ap', fs')"
    by (simp_all add: add_secret_def save_edited_value_def)
qed

lemma delete_app_holds:
  assumes "machine (m_vault_env (u_manager U))" "app_holds U path n m (ap, fs)" "no_faults (kw_op W)"
  shows "\<exists>ap' fs'. delete_named U W k (ap, fs) = (Inr (), ap', fs') \<and> app_holds U path n (m(k := None)) (ap', fs')"
proof -
  have "holds (u_manager U) (utf8 (lit ''pw'')) path n m (ap_manager ap, fs)" using assms(2) by (simp add: app_holds_def)
  from delete_holds [OF assms(1) this assms(3), of k] obtain mg' fs' where
    p: "mg_delete_secret (u_manager U) (kw_op W) k (ap_manager ap, fs) = (Inr (m k \<noteq> None), mg', fs')"
    "holds (u_manager U) (utf8 (lit ''pw'')) path n (m(k := None)) (mg', fs')" .
  then obtain ap' where "refresh_names U (ap\<lparr>ap_manager := mg', ap_selected := ap_selected ap - 1\<rparr>) = (Inr (), ap')"
      "app_holds U path n (m(k := None)) (ap', fs')"
    using refreshed_holds [OF assms(1), of path n "m(k := None)" "ap\<lparr>ap_manager := mg', ap_selected := ap_selected ap - 1\<rparr>" fs'] by auto
  with p(1) show ?thesis by (simp add: delete_named_def)
qed

text \<open>Names and values of the tests.\<close>

lemma test_names:
  "valid_name (lit ''k'')" "length (utf8 (lit ''k'')) \<le> 64"
  "valid_name (lit ''github'')" "length (utf8 (lit ''github'')) \<le> 64"
  "valid_name (lit ''aws'')" "length (utf8 (lit ''aws'')) \<le> 64"
  "valid_name (lit ''2fa'')" "length (utf8 (lit ''2fa'')) \<le> 64"
  using short_name [of "lit ''k''"]
    short_name [of "lit ''github''"]
    short_name [of "lit ''aws''"]
    short_name [of "lit ''2fa''"]
  by (simp_all add: is_ascii_str_def ascii_def)

lemma test_values:
  "length (utf8 (lit ''v'')) \<le> 64"
  "length (utf8 (lit ''v1'')) \<le> 64"
  "length (utf8 (lit ''v2'')) \<le> 64"
  "length (utf8 (lit ''tok'')) \<le> 64"
  "length (utf8 (lit ''key'')) \<le> 64"
  "length (utf8 (lit ''otpauth://totp/x?secret=JBSWY3DPEHPK3PXP'')) \<le> 64"
  by (simp_all add: ascii_def encode_utf8_ascii)

subsection \<open>The tests hold\<close>

lemma mode_zeroize_wipes_held_plaintext: test_mode_zeroize_wipes_held_plaintext
  by (simp add: test_mode_zeroize_wipes_held_plaintext_def mode_zeroize_def)

lemma lock_clears_state_and_requires_unlock:
  assumes "machine (m_vault_env (u_manager U))" "\<forall>i. no_faults (kw_op (W i))" "fs path = None" "is_ok (random_bytes (u_manager U) 0 32)"
  shows "test_lock_clears_state_and_requires_unlock U vars now W path fs"
proof -
  have c: "no_faults (kw_op (W i))" for i using assms(2) by simp
  obtain a0 f0 where 0: "open_app U vars now (kw_op (W 0)) path fs = (\<lambda>rest. rest a0 f0)" "app_holds U path 0 Map.empty (a0, f0)" "ap_mode a0 = Browse"
    by (rule open_app_holds [where fs = fs and path = path, OF assms(1,3) c assms(4)])
  obtain a1 f1 where 1: "add_secret U (W 1) (lit ''k'') (utf8 (lit ''v'')) (a0, f0) = (Inr (), a1, f1)"
      "app_holds U path (Suc 0) [lit ''k'' \<mapsto> utf8 (lit ''v'')] (a1, f1)"
    using put_app_holds(1) [OF assms(1) 0(2) c test_names(1,2) test_values(1)] by blast
  with app_holds_unlocked [OF 1(2)] show ?thesis
    by (simp add: test_lock_clears_state_and_requires_unlock_def 0(1) lock_app_def mg_lock_def mg_is_unlocked_def Let_def
        del: lit_simps utf8_simps One_nat_def)
qed

text \<open>On a clock that shows less than ten seconds, this test need not pass.\<close>

lemma autolocks_after_idle:
  assumes "machine (m_vault_env (u_manager U))" "no_faults c" "fs path = None" "is_ok (random_bytes (u_manager U) 0 32)"
    and "10 * 1000 \<le> now'" "now' \<le> now''"
  shows "test_autolocks_after_idle U vars now now' now'' c path fs"
proof -
  obtain a0 f0 where 0: "open_app U vars now c path fs = (\<lambda>rest. rest a0 f0)" "app_holds U path 0 Map.empty (a0, f0)" "ap_mode a0 = Browse"
    by (rule open_app_holds [where fs = fs and path = path, OF assms(1,3,2,4)])
  moreover have "1 \<le> now'' - (now' - 10 * 1000)" using assms(5,6) by simp
  ultimately show ?thesis
    using assms(5) by (simp add: test_autolocks_after_idle_def maybe_autolock_def prompting_def lock_app_def mg_lock_def
        mg_is_unlocked_def Let_def del: lit_simps utf8_simps)
qed

lemma add_list_and_delete:
  assumes "machine (m_vault_env (u_manager U))" "\<forall>i. no_faults (kw_op (W i))" "fs path = None" "is_ok (random_bytes (u_manager U) 0 32)"
  shows "test_add_list_and_delete U vars now W path fs"
proof -
  let ?g = "lit ''github''" and ?a = "lit ''aws''"
  have c: "no_faults (kw_op (W i))" for i using assms(2) by simp
  obtain a0 f0 where 0: "open_app U vars now (kw_op (W 0)) path fs = (\<lambda>rest. rest a0 f0)" "app_holds U path 0 Map.empty (a0, f0)" "ap_mode a0 = Browse"
    by (rule open_app_holds [where fs = fs and path = path, OF assms(1,3) c assms(4)])
  obtain a1 f1 where 1: "add_secret U (W 1) ?g (utf8 (lit ''tok'')) (a0, f0) = (Inr (), a1, f1)"
      "app_holds U path 1 [?g \<mapsto> utf8 (lit ''tok'')] (a1, f1)"
    using put_app_holds(1) [OF assms(1) 0(2) c test_names(3,4) test_values(4)] unfolding One_nat_def by blast
  obtain a2 f2 where 2: "add_secret U (W 2) ?a (utf8 (lit ''key'')) (a1, f1) = (Inr (), a2, f2)"
      "app_holds U path 2 [?g \<mapsto> utf8 (lit ''tok''), ?a \<mapsto> utf8 (lit ''key'')] (a2, f2)"
    using put_app_holds(1) [OF assms(1) 1(2) c test_names(5,6) test_values(5)] unfolding Suc_1 by blast
  have s: "app_holds U path 2 [?g \<mapsto> utf8 (lit ''tok''), ?a \<mapsto> utf8 (lit ''key'')] (select_name ?a a2, f2)" using 2(2) by simp
  obtain a3 f3 where 3: "delete_named U (W 3) ?a (select_name ?a a2, f2) = (Inr (), a3, f3)"
      "app_holds U path 2 ([?g \<mapsto> utf8 (lit ''tok''), ?a \<mapsto> utf8 (lit ''key'')](?a := None)) (a3, f3)"
    using delete_app_holds [OF assms(1) s c] by blast
  have ne: "?g \<noteq> ?a" and lt: "?a < ?g" by (simp_all add: ascii_def less_rchar_def)
  have "ap_names a2 = [?a, ?g]" by (rule app_holds_names [OF 2(2)]) (use ne lt in \<open>auto simp del: lit_simps\<close>)
  moreover have "ap_names a3 = [?g]" by (rule app_holds_names [OF 3(2)]) (use ne in \<open>auto simp del: lit_simps\<close>)
  ultimately show ?thesis
    using 1(1) 2(1) 3(1) by (simp add: test_add_list_and_delete_def 0(1) Let_def del: lit_simps utf8_simps One_nat_def)
qed

lemma edit_value_round_trips_through_disk:
  assumes "machine (m_vault_env (u_manager U))" "\<forall>i. no_faults (kw_op (W i))" "fs path = None" "is_ok (random_bytes (u_manager U) 0 32)"
  shows "test_edit_value_round_trips_through_disk U vars now W path fs"
proof -
  let ?k = "lit ''k''" and ?v = "utf8 (lit ''v2'')"
  have c: "no_faults (kw_op (W i))" for i using assms(2) by simp
  obtain a0 f0 where 0: "open_app U vars now (kw_op (W 0)) path fs = (\<lambda>rest. rest a0 f0)" "app_holds U path 0 Map.empty (a0, f0)" "ap_mode a0 = Browse"
    by (rule open_app_holds [where fs = fs and path = path, OF assms(1,3) c assms(4)])
  obtain a1 f1 where 1: "add_secret U (W 1) ?k (utf8 (lit ''v1'')) (a0, f0) = (Inr (), a1, f1)"
      "app_holds U path 1 [?k \<mapsto> utf8 (lit ''v1'')] (a1, f1)"
    using put_app_holds(1) [OF assms(1) 0(2) c test_names(1,2) test_values(2)] unfolding One_nat_def by blast
  obtain a2 f2 where 2: "save_edited_value U (W 2) ?k ?v (a1, f1) = (Inr (), a2, f2)"
      "app_holds U path 2 [?k \<mapsto> utf8 (lit ''v1''), ?k \<mapsto> ?v] (a2, f2)"
    using put_app_holds(2) [OF assms(1) 1(2) c test_names(1,2) test_values(3)] unfolding Suc_1 by blast
  have "holds (u_manager U) (utf8 (lit ''pw'')) path 2 [?k \<mapsto> ?v] (ap_manager a2, f2)"
    using 2(2) by (simp add: app_holds_def del: lit_simps utf8_simps)
  from reopened_reads [OF assms(1) this _ c, of 3 "mg_lock (ap_manager a2)"] obtain mg' where
    3: "mg_open_vault (u_manager U) (kw_op (W 3)) path (utf8 (lit ''pw'')) None (mg_lock (ap_manager a2), f2) = (Inr (), mg', f2)"
    "reads (u_manager U) [?k \<mapsto> ?v] mg'" by auto
  show ?thesis
    using 1(1) 2(1) 3(1) reads_get [OF 3(2), of ?k]
    by (simp add: test_edit_value_round_trips_through_disk_def 0(1) del: lit_simps utf8_simps One_nat_def)
qed

lemma totp_value_is_detected:
  assumes "machine (m_vault_env (u_manager U))" "\<forall>i. no_faults (kw_op (W i))" "fs path = None" "is_ok (random_bytes (u_manager U) 0 32)"
  shows "test_totp_value_is_detected U vars now W path fs"
proof -
  let ?k = "lit ''2fa''" and ?uri = "lit ''otpauth://totp/x?secret=JBSWY3DPEHPK3PXP''"
  have c: "no_faults (kw_op (W i))" for i using assms(2) by simp
  obtain a0 f0 where 0: "open_app U vars now (kw_op (W 0)) path fs = (\<lambda>rest. rest a0 f0)" "app_holds U path 0 Map.empty (a0, f0)"
      "ap_mode a0 = Browse"
    by (rule open_app_holds [where fs = fs and path = path, OF assms(1,3) c assms(4)])
  obtain a1 f1 where 1: "add_secret U (W 1) ?k (utf8 ?uri) (a0, f0) = (Inr (), a1, f1)" "app_holds U path 1 [?k \<mapsto> utf8 ?uri] (a1, f1)"
    using put_app_holds(1) [OF assms(1) 0(2) c test_names(7,8) test_values(6)] unfolding One_nat_def by blast
  have "parse_totp ?uri \<noteq> None" by (simp add: parse_eval)
  then show ?thesis
    using 1(1) app_holds_get [OF 1(2), of ?k]
    by (simp add: test_totp_value_is_detected_def 0(1) from_utf8_lossy_utf8 del: lit_simps utf8_simps One_nat_def)
qed

end
