(* ===== verification/Spec2Isabelle.thy ===== *)
theory Spec2Isabelle
  imports Calibration RamStore LanTransfer Screen AgentSpec OtpUse CheckSharing CheckSession CheckUi
begin

text \<open>
  A verification library for \<open>simple-secrets\<close>, a secret manager written in Rust: one passphrase unlocks
  a vault file of named secrets, a background agent keeps it unlocked for a command line, a terminal
  interface works on it directly, a secret can be split among custodians by threshold sharing, and it
  can be sent to another device with a post-quantum pairing. The definitions are translated from the
  sources below \<open>src/src/\<close>, keep their names, and compute.

  \<^bold>\<open>Parts\<close>, from the bottom up. Each theory opens with a note on what it holds.

  \<^item> Foundations. \<open>Prelude\<close>: results (a Rust \<open>Result\<close> is a sum, \<open>Inl\<close> the error; \<open>and_then\<close> is the operator
    \<open>?\<close>), words and byte encodings. \<open>Rust_Str\<close>: strings as lists of Unicode scalar values, UTF-8 encoding,
    decoding and lossy decoding, and the string functions of the standard library that the program
    calls. \<open>Bits\<close>: bit streams. \<open>Errors\<close>: every message of the program as a constructor. \<open>Externals\<close>: the
    linked crates as parameters. \<open>StepSystem\<close>: the interfaces of transition systems, \<open>step_invariant\<close> (the
    clipboard, the starting agents, a save on the disk), \<open>step_progress\<close> (the agent's process) and \<open>refines\<close>
    (the agent's connections against what it promises), and what they give for whole runs.

  \<^item> Sharing (\<open>sharing/shamir.rs\<close>, \<open>sharing/multisig.rs\<close>). \<open>GF256\<close>: the branch-free arithmetic on bytes, shown
    to be a field, as an instance of the library's class. \<open>Interpolation\<close>: Lagrange interpolation over any
    field. \<open>Shamir\<close>: dealing and reconstructing byte by byte. \<open>Multisig\<close>: the integrity tag, the sealed
    blobs and the commitments around it. \<open>Threshold\<close> is the interface \<open>threshold_scheme\<close>, of which the
    bare scheme, the custodian scheme and the share tokens are interpretations.

  \<^item> Storage (\<open>crypto/vdf_kdf.rs\<close>, \<open>core/name.rs\<close>, \<open>storage/\<close>, \<open>core/manager.rs\<close>, \<open>core/passphrase.rs\<close>).
    \<open>Kdf\<close> and \<open>Calibration\<close>, \<open>Name\<close>, \<open>Passphrase\<close>; \<open>LocalStore\<close>: header, creation, opening, saving and the operations on
    entries, over a file system that is a map from paths to bytes; \<open>VaultDurability\<close>: what the file
    guarantees across failures and crashes; \<open>RamStore\<close>; \<open>Manager\<close>: the facade of them all. \<open>SecretStore\<close>
    is the interface of a store of named secrets (\<open>kv_store\<close>, and \<open>secret_store\<close> with deletion), of which the
    vault file, the store in memory, the manager, and the commands over the agent are interpretations.

  \<^item> One-time passwords (\<open>core/totp.rs\<close>). \<open>Totp\<close>: base32, the \<open>otpauth\<close> addresses and the codes.

  \<^item> Command line (\<open>cli/\<close>). \<open>Protocol\<close>: the framed messages. \<open>Agent\<close>: the process that holds the vault, as
    a request handler and as a transition system of connections and watchdog ticks. \<open>Paths\<close>.
    \<open>AgentStart\<close>: several agents at one socket path. \<open>Client\<close>: the
    verbs, against a peer that is any other end of the socket and is then instantiated with the agent.
    \<open>Session\<close>: both ends together. \<open>AgentSpec\<close>: the abstract server that the agent implements. \<open>CliSharing\<close>: \<open>share\<close> and \<open>reconstruct\<close>. \<open>PairingCli\<close>: \<open>pair-send\<close> and
    \<open>pair-receive\<close>, with the listener on the local network. \<open>Dispatch\<close>: one run of a verb and its exit code.
    \<open>LanTransfer\<close>: both pairing verbs on one network, each with the agent of its device. \<open>Program\<close>: the
    program from its arguments to its exit code, as a command, as an agent and as the terminal interface.
    \<open>FirstUse\<close>: a whole session of runs, from \<open>init\<close> to \<open>get\<close>.
    \<open>OtpUse\<close>: one-time passwords through the agent.

  \<^item> Pairing (\<open>crypto/pqc_auth.rs\<close>, \<open>network/\<close>). \<open>PqcAuth\<close>: the key pairs. \<open>Pairing\<close>: pairing codes, verification codes, and sealed bundles.

  \<^item> Terminal interface (\<open>ui/\<close>). \<open>Editor\<close>: the buffer for one value. \<open>Tui\<close>: the modes, the state, one step
    function per mode. \<open>TuiRun\<close>: the event loop. \<open>Screen\<close>: what every frame shows. \<open>TuiDisk\<close>: the screen
    against the vault file, and against an agent that has the same file open. \<open>Clipboard\<close>: copying, and the
    threads that clear what was copied, as a transition system.

  \<^item> The program's own unit tests, as definitions \<open>test_...\<close> over all of the above, each with a lemma of the
    test's name that it holds: \<open>CheckBase\<close> (names, passphrases, keys, editor, paths, messages), \<open>CheckTotp\<close>,
    \<open>CheckSharing\<close>, \<open>CheckVault\<close> and \<open>CheckManager\<close> (on any machine on which nothing fails), \<open>CheckSession\<close> (pairing,
    agent), \<open>CheckUi\<close>. They compare the model with what the authors of the program expect of it.

  \<^bold>\<open>How code becomes definitions.\<close> A struct is a record, an enum a datatype, a machine integer a word (or a
  natural number where the code's bounds keep it in range). A method that mutates its receiver takes and
  returns it. What the code reads from outside (randomness, nonces, faults of the operating system, the
  clock, the terminal, sockets) is an argument, one record per layer: \<open>crates\<close> for the linked
  cryptography, \<open>vault_env\<close>, \<open>manager_env\<close>, \<open>agent_env\<close>, \<open>cli_env\<close>, \<open>share_env\<close>, \<open>transfer_env\<close>, \<open>pair_env\<close>,
  \<open>ui_env\<close>, \<open>screen_env\<close> for what stays fixed, and \<open>op_env\<close>, \<open>key_world\<close> for what a single call meets. What the linked
  code is relied on for is stated by named predicates (\<open>aead_ok\<close>, \<open>codec_ok\<close>, \<open>b64_ok\<close>, \<open>kem_ok\<close>,
  \<open>digest_lengths\<close>): opening gives back what was sealed, decoding what was encoded, decapsulation what was
  encapsulated. The instances named \<open>demo_...\<close> satisfy them, and evaluate.

  \<^bold>\<open>What is shown.\<close> Sharing: any quorum recovers the secret, fewer shares say nothing about it, and
  adversarial shares never yield another one unless a hash collides. The vault: it behaves as a finite
  map whatever the history of calls, across locking and reopening; a successful change is durable, a
  failing one leaves the file as it was, and stopping the process between any two steps of a save leaves the old or the
  new vault, as does a power loss, but for the case, which \<open>save\<close> does not exclude, that the renaming reaches the
  medium before the bytes of the new file. Generators: words, characters and digits are uniform, of the promised length, and the
  loops end. The wire: messages arrive as they were sent, and lengths are checked before buffering. The
  agent: without the token a connection changes nothing and learns nothing; it ends when it is idle; when
  starts do not overlap there is one, its clients reach it, and it fails after it said that it is ready only if the
  operating system refuses it the socket; and to all of them together it is a map from
  names to values, so that what was acknowledged is what is read. The session: from a machine without a
  vault, \<open>get\<close> prints what was last \<open>put\<close>, from the command line or the standard input; what one agent was told, the next one knows, and verbs that
  only read change nothing; the codes of \<open>otp\<close> are those of what was added.
  Pairing: a bundle opens for the session it was sealed for, nothing moves before the verification
  code is confirmed, and over a network with strangers on it the secret of one agent arrives in the
  other, and the acknowledgement at the sender if the receiver's user is quick enough. The terminal interface: what it lists is what the file holds, every state it reaches can be drawn
  and no drawing depends on a masked secret, it shows the vault only while it is unlocked, locking leaves
  nothing behind, and an edit stores what was typed, where the command line finds it; as long as the
  program runs, a copied secret has a thread that is due to clear it after 15 seconds.

  \<^bold>\<open>Loops and bounds.\<close> Recursion over lists and natural numbers models bounded loops. The rejection loop of
  the password generator may run forever on a source that never delivers an acceptable byte; it is a
  partial function, \<open>None\<close> meaning that it does not return, and it is shown to return when the source is
  productive. Reading from a socket consumes a list of timed events; \<open>None\<close> means that the events listed
  do not end it, and the deadline is shown to end it. No fuel is used.

  \<^bold>\<open>Not modelled.\<close> The layout of a frame in cells and its colours, by \<open>ratatui\<close>, beyond the texts, masks and
  areas of its widgets. Argument parsing by \<open>clap\<close>: a command arrives as a value. Standard error, and the
  headings around what a verb prints. Spawning the agent's process and redirecting its standard streams.
  The readings of the clock (\<open>unix_now\<close>) and of the operating system's random source
  (\<open>DefaultEntropySource\<close>), which are arguments. The zeroizing of memory that is then released: it has no
  result to speak about, except where bytes stay in a buffer or a mode, as in \<open>Editor\<close> and \<open>Program\<close>. The
  bundled word list is an argument. Of the unit tests, those whose outcome rests on chance or on what a cipher
  or a hash hides (tampered blobs, a wrong passphrase, values not visible in the file, diverging keys, shares of
  two splits, a bundle for another session), on the base64 crate rejecting a text, on the QR crate, or on the bundled
  word list. \<open>network/tor_i2p.rs\<close> and \<open>ffi/\<close> are placeholders without behaviour.
\<close>

end
